(* ===== verification/JsBase.thy ===== *)
theory JsBase
  imports Main "HOL-Library.Code_Target_Nat" "HOL-Library.AList" "HOL-Library.Multiset" "HOL-Library.Char_ord" "HOL-Library.List_Lexorder"
begin

text \<open>
  The prelude of the development: the part of JavaScript the admin dashboard uses, and the
  generic lemmas the component theories share.

  \<^item> Strings are lists of code units. Only the units below 256 are represented (\<open>char\<close>), so
    \<open>trim\<close> and \<open>toLowerCase\<close> are the JavaScript functions on that range.
  \<^item> A plain object is an association list of its own properties in insertion order with distinct
    keys. \<open>obj_put\<close> is a property of an object literal or a computed key in a spread,
    \<open>obj_assign\<close> is the assignment \<open>o[k] = v\<close> (which never creates an own property called
    \<open>__proto__\<close>), \<open>obj_del\<close> is \<open>delete o[k]\<close>, and \<open>own_entries\<close> is the order in which
    \<open>Object.keys\<close>, \<open>Object.entries\<close> and \<open>JSON.stringify\<close> enumerate it (array indices
    first, ascending). Properties inherited from \<open>Object.prototype\<close> are not represented.
  \<^item> A thrown value is a \<open>js_error\<close>; an awaited promise settles with \<open>js_error + 'a\<close>.
  \<^item> \<open>parseInt(s, 10)\<close> gives \<open>None\<close> for NaN and otherwise an exact integer.
\<close>

named_theorems js_simps "unfolding rules for JavaScript library functions"
named_theorems obj_simps "own properties after an update"

section \<open>Values that may be undefined or null\<close>

datatype 'a opt = Undefined | Null | Val 'a

fun opt_val :: "'a opt \<Rightarrow> 'a option" where
  "opt_val (Val a) = Some a"
| "opt_val Undefined = None"
| "opt_val Null = None"

text \<open>\<open>x ?? d\<close>\<close>

definition nullish :: "'a option \<Rightarrow> 'a \<Rightarrow> 'a" where
  [js_simps]: "nullish x d = (case x of Some a \<Rightarrow> a | None \<Rightarrow> d)"

text \<open>\<open>s || d\<close> for strings: the empty string is falsy.\<close>

definition str_or :: "string \<Rightarrow> string \<Rightarrow> string" where
  [js_simps]: "str_or s d = (if s = [] then d else s)"

definition str_or_null :: "string \<Rightarrow> string option" where
  [js_simps]: "str_or_null s = (if s = [] then None else Some s)"

section \<open>Errors\<close>

text \<open>What a \<open>catch (e)\<close> can receive: an \<open>ApiError\<close>, another \<open>Error\<close>, or a thrown value that
  is no \<open>Error\<close> (with its \<open>String(e)\<close>).\<close>

datatype js_error = ApiErr int string | PlainErr string | NonErr string

fun is_api_error :: "js_error \<Rightarrow> bool" where
  "is_api_error (ApiErr _ _) = True"
| "is_api_error _ = False"

text \<open>\<open>e instanceof Error ? e.message : fallback\<close>\<close>

fun error_message_or :: "string \<Rightarrow> js_error \<Rightarrow> string" where
  "error_message_or d (ApiErr _ m) = m"
| "error_message_or d (PlainErr m) = m"
| "error_message_or d (NonErr _) = d"

text \<open>\<open>e instanceof Error ? e.message : String(e)\<close>\<close>

fun error_text :: "js_error \<Rightarrow> string" where
  "error_text (ApiErr _ m) = m"
| "error_text (PlainErr m) = m"
| "error_text (NonErr s) = s"

text \<open>\<open>e instanceof ApiError ? e.message : fallback\<close>\<close>

fun api_message_or :: "string \<Rightarrow> js_error \<Rightarrow> string" where
  "api_message_or d (ApiErr _ m) = m"
| "api_message_or d _ = d"

section \<open>Strings\<close>

definition js_ws :: "char \<Rightarrow> bool" where
  "js_ws c \<longleftrightarrow> (let n = (of_char c :: nat) in (9 \<le> n \<and> n \<le> 13) \<or> n = 32 \<or> n = 160)"

definition js_trim :: "string \<Rightarrow> string" where
  "js_trim s = rev (dropWhile js_ws (rev (dropWhile js_ws s)))"

definition starts_with :: "string \<Rightarrow> string \<Rightarrow> bool" where
  "starts_with p s \<longleftrightarrow> take (length p) s = p"

fun str_includes :: "string \<Rightarrow> string \<Rightarrow> bool" where
  "str_includes [] n = (n = [])"
| "str_includes (c # cs) n = (starts_with n (c # cs) \<or> str_includes cs n)"

definition lower_char :: "char \<Rightarrow> char" where
  "lower_char c =
     (let n = (of_char c :: nat)
      in if (65 \<le> n \<and> n \<le> 90) \<or> (192 \<le> n \<and> n \<le> 222 \<and> n \<noteq> 215) then char_of (n + 32) else c)"

definition to_lower :: "string \<Rightarrow> string" where
  "to_lower s = map lower_char s"

text \<open>\<open>s.split(c)\<close> for a one-character separator.\<close>

fun split_char :: "char \<Rightarrow> string \<Rightarrow> string list" where
  "split_char c [] = [[]]"
| "split_char c (x # xs) =
     (if x = c then [] # split_char c xs
      else (case split_char c xs of [] \<Rightarrow> [[x]] | w # ws \<Rightarrow> (x # w) # ws))"

text \<open>\<open>s.split(/P+/)\<close> for a character class \<open>P\<close>.\<close>

function split_runs :: "(char \<Rightarrow> bool) \<Rightarrow> string \<Rightarrow> string list" where
  "split_runs p s =
     (let w = takeWhile (\<lambda>c. \<not> p c) s; r = dropWhile (\<lambda>c. \<not> p c) s
      in if r = [] then [w] else w # split_runs p (dropWhile p r))"
  by pat_completeness auto
termination
proof (relation "measure (\<lambda>(p, s). length s)", goal_cases)
  case 1
  then show ?case by simp
next
  case (2 p s w r)
  then obtain c cs where r: "r = c # cs" by (meson neq_Nil_conv)
  moreover from this 2(2) have "p c" by (metis hd_dropWhile list.distinct(1) list.sel(1))
  ultimately have "length (dropWhile p r) < length r"
    by (simp add: length_dropWhile_le le_imp_less_Suc)
  also have "length r \<le> length s" using 2(2) by (simp add: length_dropWhile_le)
  finally show ?case by simp
qed

declare split_runs.simps [simp del]

fun join :: "string \<Rightarrow> string list \<Rightarrow> string" where
  "join d [] = []"
| "join d [s] = s"
| "join d (s # t # ts) = s @ d @ join d (t # ts)"

lemma js_trim_Nil [simp]: "js_trim [] = []"
  by (simp add: js_trim_def)

lemma starts_with_Nil [simp]: "starts_with [] s"
  by (simp add: starts_with_def)

lemma starts_with_append: "starts_with p (p @ s)"
  by (simp add: starts_with_def)

lemma starts_with_iff: "starts_with p s \<longleftrightarrow> (\<exists>t. s = p @ t)"
  by (metis append_take_drop_id append_eq_conv_conj starts_with_def)

lemma includes_iff: "str_includes h n \<longleftrightarrow> (\<exists>a b. h = a @ n @ b)"
proof (induction h)
  case Nil
  then show ?case by auto
next
  case (Cons c cs)
  show ?case
  proof
    assume "str_includes (c # cs) n"
    then consider "starts_with n (c # cs)" | "str_includes cs n" by auto
    then show "\<exists>a b. c # cs = a @ n @ b"
    proof cases
      case 1
      then obtain t where "c # cs = n @ t" by (auto simp: starts_with_iff)
      then have "c # cs = [] @ n @ t" by simp
      then show ?thesis by blast
    next
      case 2
      with Cons.IH obtain a b where "cs = a @ n @ b" by auto
      then have "c # cs = (c # a) @ n @ b" by simp
      then show ?thesis by blast
    qed
  next
    assume "\<exists>a b. c # cs = a @ n @ b"
    then obtain a b where ab: "c # cs = a @ n @ b" by auto
    show "str_includes (c # cs) n"
    proof (cases a)
      case Nil
      with ab have "starts_with n (c # cs)" by (auto simp: starts_with_iff)
      then show ?thesis by simp
    next
      case (Cons x a')
      with ab have "cs = a' @ n @ b" by simp
      then show ?thesis using Cons.IH by auto
    qed
  qed
qed

lemma dropWhile_hd: "dropWhile P xs \<noteq> [] \<Longrightarrow> \<not> P (hd (dropWhile P xs))"
  by (rule hd_dropWhile)

lemma js_trim_no_ws_ends:
  assumes "js_trim s \<noteq> []"
  shows "\<not> js_ws (hd (js_trim s)) \<and> \<not> js_ws (last (js_trim s))"
proof -
  let ?d = "dropWhile js_ws s"
  let ?t = "dropWhile js_ws (rev ?d)"
  have t: "?t \<noteq> []" using assms by (simp add: js_trim_def)
  have last: "\<not> js_ws (last (rev ?t))" using t by (simp add: last_rev dropWhile_hd)
  obtain w where w: "rev ?d = w @ ?t" by (metis takeWhile_dropWhile_id)
  then have d: "?d = rev ?t @ rev w" by (metis rev_append rev_rev_ident)
  then have "hd ?d = hd (rev ?t)" using t by (metis hd_append2 rev_is_Nil_conv)
  moreover have "?d \<noteq> []" using d t by (metis Nil_is_append_conv Nil_is_rev_conv)
  ultimately have "\<not> js_ws (hd (rev ?t))" by (metis hd_dropWhile)
  then show ?thesis using last by (simp add: js_trim_def)
qed

lemma js_trim_idem [simp]: "js_trim (js_trim s) = js_trim s"
proof (cases "js_trim s = []")
  case True
  then show ?thesis by simp
next
  case False
  let ?t = "js_trim s"
  from js_trim_no_ws_ends [OF False]
  have h: "\<not> js_ws (hd ?t)" and l: "\<not> js_ws (last ?t)" by auto
  from h False have "dropWhile js_ws ?t = ?t" by (cases ?t) auto
  moreover from l False have "dropWhile js_ws (rev ?t) = rev ?t"
    by (cases "rev ?t") (auto simp: hd_rev [symmetric])
  ultimately show ?thesis by (simp add: js_trim_def)
qed

lemma split_char_no_sep: "w \<in> set (split_char c s) \<Longrightarrow> c \<notin> set w"
  by (induction s arbitrary: w) (auto split: if_splits list.splits)

lemma split_char_neq_Nil [simp]: "split_char c s \<noteq> []"
  by (induction s) (auto split: list.splits)

lemma split_char_append_sep:
  "c \<notin> set w \<Longrightarrow> split_char c (w @ c # s) = w # split_char c s"
  by (induction w) auto

lemma split_char_single: "c \<notin> set w \<Longrightarrow> split_char c w = [w]"
  by (induction w) auto

section \<open>Numbers as text\<close>

definition is_digit :: "char \<Rightarrow> bool" where
  "is_digit c \<longleftrightarrow> (let n = (of_char c :: nat) in 48 \<le> n \<and> n \<le> 57)"

definition digit_val :: "char \<Rightarrow> nat" where
  "digit_val c = of_char c - 48"

definition digit_char :: "nat \<Rightarrow> char" where
  "digit_char d = char_of (48 + d)"

fun digits_val_acc :: "nat \<Rightarrow> string \<Rightarrow> nat" where
  "digits_val_acc a [] = a"
| "digits_val_acc a (c # cs) = digits_val_acc (10 * a + digit_val c) cs"

definition digits_val :: "string \<Rightarrow> nat" where
  "digits_val s = digits_val_acc 0 s"

fun show_nat :: "nat \<Rightarrow> string" where
  "show_nat n = (if n < 10 then [digit_char n] else show_nat (n div 10) @ [digit_char (n mod 10)])"

declare show_nat.simps [simp del]

definition show_int :: "int \<Rightarrow> string" where
  "show_int i = (if i < 0 then ''-'' @ show_nat (nat (- i)) else show_nat (nat i))"

text \<open>\<open>parseInt(s, 10)\<close>: leading white space and a sign, then the longest run of digits.\<close>

definition take_sign :: "string \<Rightarrow> bool \<times> string" where
  "take_sign s = (case s of
      [] \<Rightarrow> (False, [])
    | c # cs \<Rightarrow> if c = CHR ''-'' then (True, cs) else if c = CHR ''+'' then (False, cs) else (False, s))"

definition parse_int :: "string \<Rightarrow> int option" where
  "parse_int s =
     (let (neg, r) = take_sign (dropWhile js_ws s); ds = takeWhile is_digit r
      in if ds = [] then None
         else Some (if neg then - int (digits_val ds) else int (digits_val ds)))"

lemma digits_val_acc_append:
  "digits_val_acc a (s @ t) = digits_val_acc (digits_val_acc a s) t"
  by (induction s arbitrary: a) auto

lemma of_char_digit_char [simp]: "d < 10 \<Longrightarrow> of_char (digit_char d) = 48 + d"
  by (simp add: digit_char_def of_char_of)

lemma is_digit_digit_char [simp]: "d < 10 \<Longrightarrow> is_digit (digit_char d)"
  by (simp add: is_digit_def)

lemma digit_val_digit_char [simp]: "d < 10 \<Longrightarrow> digit_val (digit_char d) = d"
  by (simp add: digit_val_def)

lemma show_nat_digits: "\<forall>c \<in> set (show_nat n). is_digit c"
proof (induction n rule: show_nat.induct)
  case (1 n)
  then show ?case by (subst show_nat.simps) auto
qed

lemma show_nat_neq_Nil [simp]: "show_nat n \<noteq> []"
  by (subst show_nat.simps) simp

lemma digits_val_show_nat [simp]: "digits_val (show_nat n) = n"
proof (induction n rule: show_nat.induct)
  case (1 n)
  show ?case
  proof (cases "n < 10")
    case True
    then show ?thesis by (subst show_nat.simps) (simp add: digits_val_def)
  next
    case False
    with 1 have "digits_val_acc 0 (show_nat (n div 10)) = n div 10"
      by (simp add: digits_val_def)
    with False show ?thesis
      by (subst show_nat.simps) (simp add: digits_val_def digits_val_acc_append)
  qed
qed

lemma not_ws_digit: "is_digit c \<Longrightarrow> \<not> js_ws c"
  by (auto simp: is_digit_def js_ws_def Let_def)

lemma digit_not_sign: "is_digit c \<Longrightarrow> c \<noteq> CHR ''-'' \<and> c \<noteq> CHR ''+''"
  by (auto simp: is_digit_def)

lemma takeWhile_all: "\<forall>x \<in> set xs. P x \<Longrightarrow> takeWhile P xs = xs"
  by (simp add: takeWhile_eq_all_conv)

lemma parse_int_show_nat [simp]: "parse_int (show_nat n) = Some (int n)"
proof -
  obtain c cs where s: "show_nat n = c # cs" by (cases "show_nat n") auto
  have dig: "\<forall>x \<in> set (show_nat n). is_digit x" by (rule show_nat_digits)
  then have c: "is_digit c" by (simp add: s)
  have "dropWhile js_ws (show_nat n) = show_nat n"
    using c by (simp add: s not_ws_digit)
  moreover have "take_sign (show_nat n) = (False, show_nat n)"
    using digit_not_sign [OF c] by (simp add: s take_sign_def)
  moreover note takeWhile_all [OF dig]
  ultimately show ?thesis by (simp add: parse_int_def Let_def del: takeWhile_eq_all_conv)
qed

lemma parse_int_show_int [simp]: "parse_int (show_int i) = Some i"
proof (cases "i < 0")
  case True
  have "takeWhile is_digit (show_nat (nat (- i))) = show_nat (nat (- i))"
    by (rule takeWhile_all [OF show_nat_digits])
  then show ?thesis using True
    by (simp add: show_int_def parse_int_def take_sign_def js_ws_def Let_def del: takeWhile_eq_all_conv)
qed (simp add: show_int_def)

lemma show_int_neq_Nil [simp]: "show_int i \<noteq> []"
  by (simp add: show_int_def)

section \<open>Plain objects\<close>

type_synonym 'v obj = "(string \<times> 'v) list"

abbreviation obj_get :: "'v obj \<Rightarrow> string \<Rightarrow> 'v option" where
  "obj_get \<equiv> map_of"

abbreviation obj_put :: "string \<Rightarrow> 'v \<Rightarrow> 'v obj \<Rightarrow> 'v obj" where
  "obj_put \<equiv> AList.update"

abbreviation obj_del :: "string \<Rightarrow> 'v obj \<Rightarrow> 'v obj" where
  "obj_del \<equiv> AList.delete"

definition obj_assign :: "string \<Rightarrow> 'v \<Rightarrow> 'v obj \<Rightarrow> 'v obj" where
  "obj_assign k v m = (if k = ''__proto__'' then m else obj_put k v m)"

definition obj_wf :: "'v obj \<Rightarrow> bool" where
  "obj_wf m \<longleftrightarrow> distinct (map fst m)"

text \<open>An array index is a canonical decimal numeral below $2^{32} - 1$.\<close>

definition is_index_key :: "string \<Rightarrow> bool" where
  "is_index_key k \<longleftrightarrow> k \<noteq> [] \<and> (\<forall>c \<in> set k. is_digit c) \<and> (length k = 1 \<or> hd k \<noteq> CHR ''0'')
     \<and> digits_val k < 2 ^ 32 - 1"

definition own_entries :: "'v obj \<Rightarrow> 'v obj" where
  "own_entries m = sort_key (\<lambda>(k, v). digits_val k) (filter (\<lambda>(k, v). is_index_key k) m)
     @ filter (\<lambda>(k, v). \<not> is_index_key k) m"

definition own_keys :: "'v obj \<Rightarrow> string list" where
  "own_keys m = map fst (own_entries m)"

lemma own_entries_single [simp]: "own_entries [kv] = [kv]"
  by (cases "is_index_key (fst kv)") (auto simp: own_entries_def split: prod.splits)

lemma own_entries_map:
  fixes f :: "'v \<Rightarrow> 'v"
  shows "own_entries (map (\<lambda>e. (fst e, f (snd e))) m) = map (\<lambda>e. (fst e, f (snd e))) (own_entries m)"
proof -
  let ?h = "\<lambda>e :: string \<times> 'v. (fst e, f (snd e))"
  have ins: "insort_key (\<lambda>(k, v). digits_val k) (?h e) (map ?h xs) = map ?h (insort_key (\<lambda>(k, v). digits_val k) e xs)" for e xs
    by (induction xs) (auto simp: split_def)
  have "sort_key (\<lambda>(k, v). digits_val k) (map ?h xs) = map ?h (sort_key (\<lambda>(k, v). digits_val k) xs)" for xs
    by (induction xs) (simp_all add: ins)
  then show ?thesis
    by (simp add: own_entries_def filter_map o_def split_def)
qed

lemma own_entries_idem:
  fixes m :: "'v obj"
  shows "own_entries (own_entries m) = own_entries m"
proof -
  have sorted: "sort_key g (sort_key g xs) = sort_key g xs" for g :: "string \<times> 'v \<Rightarrow> nat" and xs
    by (rule properties_for_sort_key) simp_all
  have none: "filter (\<lambda>x. p x \<and> \<not> p x) xs = []" "filter (\<lambda>x. \<not> p x \<and> p x) xs = []"
    for p :: "string \<times> 'v \<Rightarrow> bool" and xs by (auto simp: filter_empty_conv)
  show ?thesis
    by (simp add: own_entries_def filter_sort split_def sorted none)
qed

lemma set_own_entries [simp]: "set (own_entries m) = set m"
  by (auto simp: own_entries_def)

lemma mset_own_entries: "mset (own_entries m) = mset m"
proof -
  have "(\<lambda>x. \<not> (case x of (k, v) \<Rightarrow> is_index_key k)) = (\<lambda>(k, v). \<not> is_index_key k)"
    by auto
  then show ?thesis
    using multiset_partition [of "mset m" "\<lambda>(k, v). is_index_key k"]
    by (simp add: own_entries_def)
qed

lemma length_own_entries [simp]: "length (own_entries m) = length m"
  using mset_own_entries by (metis size_mset)

lemma set_own_keys [simp]: "set (own_keys m) = fst ` set m"
  by (simp add: own_keys_def)

lemma distinct_own_keys: "obj_wf m \<Longrightarrow> distinct (own_keys m)"
proof -
  assume "obj_wf m"
  moreover have "mset (own_keys m) = mset (map fst m)"
    by (simp add: own_keys_def mset_own_entries)
  ultimately show ?thesis
    unfolding obj_wf_def using mset_eq_imp_distinct_iff by blast
qed

lemma obj_wf_Nil [simp]: "obj_wf []"
  by (simp add: obj_wf_def)

lemma obj_wf_put [simp, intro]: "obj_wf m \<Longrightarrow> obj_wf (obj_put k v m)"
  by (simp add: obj_wf_def distinct_update)

lemma obj_wf_assign [simp, intro]: "obj_wf m \<Longrightarrow> obj_wf (obj_assign k v m)"
  by (simp add: obj_assign_def)

lemma obj_wf_del [simp, intro]: "obj_wf m \<Longrightarrow> obj_wf (obj_del k m)"
  by (simp add: obj_wf_def distinct_delete)

text \<open>The interface of a dictionary as its clients use it: the token store, the form editors and
  the per-upstream tables are clients of these three operations.\<close>

locale dict =
  fixes get :: "'m \<Rightarrow> 'k \<Rightarrow> 'v option"
    and put :: "'k \<Rightarrow> 'v \<Rightarrow> 'm \<Rightarrow> 'm"
    and del :: "'k \<Rightarrow> 'm \<Rightarrow> 'm"
  assumes get_put: "get (put k v m) = (get m)(k \<mapsto> v)"
    and get_del: "get (del k m) = (get m)(k := None)"
begin

lemma get_put_same: "get (put k v m) k = Some v"
  by (simp add: get_put)

lemma get_put_other: "k \<noteq> k' \<Longrightarrow> get (put k v m) k' = get m k'"
  by (simp add: get_put)

lemma get_del_same: "get (del k m) k = None"
  by (simp add: get_del)

lemma get_del_other: "k \<noteq> k' \<Longrightarrow> get (del k m) k' = get m k'"
  by (simp add: get_del)

lemma put_twice: "get (put k v (put k w m)) = get (put k v m)"
  by (simp add: get_put)

lemma put_commute: "k \<noteq> k' \<Longrightarrow> get (put k v (put k' w m)) = get (put k' w (put k v m))"
  by (simp add: get_put fun_upd_twist)

lemma del_put: "get (del k (put k v m)) = get (del k m)"
  by (simp add: get_put get_del)

lemma get_fold_put:
  "get (fold (\<lambda>(k, v). put k v) kvs m) = (get m) ++ map_of (rev kvs)"
proof (induction kvs arbitrary: m)
  case Nil
  then show ?case by simp
next
  case (Cons kv kvs)
  obtain k v where "kv = (k, v)" by force
  with Cons show ?case by (simp add: get_put map_add_def fun_eq_iff split: option.splits)
qed

end

interpretation obj: dict obj_get obj_put obj_del
  by unfold_locales (simp_all add: update_conv' delete_conv')

lemmas [obj_simps] = obj.get_put obj.get_del

lemma list_all_obj_put: "list_all (\<lambda>e. p (snd e)) m \<Longrightarrow> p x \<Longrightarrow> list_all (\<lambda>e. p (snd e)) (obj_put k x m)"
  by (induction m) auto

lemma list_all_obj_get: "list_all (\<lambda>e. p (snd e)) m \<Longrightarrow> obj_get m k = Some x \<Longrightarrow> p x"
  by (induction m) (auto split: if_splits)

lemma obj_get_assign [obj_simps]:
  "obj_get (obj_assign k v m) = (if k = ''__proto__'' then obj_get m else (obj_get m)(k \<mapsto> v))"
  by (simp add: obj_assign_def obj.get_put)

section \<open>Machines driven by events\<close>

text \<open>A page is a state, the events its view and its pending requests offer, and the effect of an
  event. \<open>run\<close> performs a list of events and is \<open>None\<close> when one of them is not offered.\<close>

fun run :: "('s \<Rightarrow> 'e \<Rightarrow> bool) \<Rightarrow> ('e \<Rightarrow> 's \<Rightarrow> 's) \<Rightarrow> 's \<Rightarrow> 'e list \<Rightarrow> 's option" where
  "run en st s [] = Some s"
| "run en st s (e # es) = (if en s e then run en st (st e s) es else None)"

inductive reachable :: "('s \<Rightarrow> 'e \<Rightarrow> bool) \<Rightarrow> ('e \<Rightarrow> 's \<Rightarrow> 's) \<Rightarrow> 's \<Rightarrow> 's \<Rightarrow> bool"
  for en st s0 where
  start: "reachable en st s0 s0"
| step: "reachable en st s0 s \<Longrightarrow> en s e \<Longrightarrow> reachable en st s0 (st e s)"

lemma run_append:
  "run en st s (es @ fs) = (case run en st s es of None \<Rightarrow> None | Some t \<Rightarrow> run en st t fs)"
  by (induction es arbitrary: s) auto

lemma reachable_run: "reachable en st s0 s \<longleftrightarrow> (\<exists>es. run en st s0 es = Some s)"
proof
  assume "reachable en st s0 s"
  then show "\<exists>es. run en st s0 es = Some s"
  proof induction
    case start
    have "run en st s0 [] = Some s0" by simp
    then show ?case by blast
  next
    case (step s e)
    then obtain es where "run en st s0 es = Some s" by blast
    with step have "run en st s0 (es @ [e]) = Some (st e s)" by (simp add: run_append)
    then show ?case by blast
  qed
next
  assume "\<exists>es. run en st s0 es = Some s"
  then obtain es where "run en st s0 es = Some s" by blast
  then show "reachable en st s0 s"
  proof (induction es arbitrary: s rule: rev_induct)
    case Nil
    then show ?case by (auto intro: reachable.start)
  next
    case (snoc e es)
    then obtain t where t: "run en st s0 es = Some t" "en t e" "s = st e t"
      by (auto simp: run_append split: option.splits if_splits)
    then show ?case using snoc.IH by (auto intro: reachable.step)
  qed
qed

lemma run_reachable:
  "run en st s0 es \<noteq> None \<Longrightarrow> reachable en st s0 (the (run en st s0 es))"
  unfolding reachable_run by (intro exI [of _ es]) (auto simp del: run.simps)

text \<open>The interface of an invariant: it holds at the start and every offered event keeps it.\<close>

locale machine =
  fixes en :: "'s \<Rightarrow> 'e \<Rightarrow> bool"
    and st :: "'e \<Rightarrow> 's \<Rightarrow> 's"
    and s0 :: 's
    and inv :: "'s \<Rightarrow> bool"
  assumes inv_init: "inv s0"
    and inv_step: "inv s \<Longrightarrow> en s e \<Longrightarrow> inv (st e s)"
begin

lemma reachable_inv: "reachable en st s0 s \<Longrightarrow> inv s"
  by (induction rule: reachable.induct) (auto intro: inv_init inv_step)

lemma run_inv: "run en st s0 es = Some s \<Longrightarrow> inv s"
  using reachable_inv reachable_run by metis

lemma run_from_inv: "inv s \<Longrightarrow> run en st s es = Some t \<Longrightarrow> inv t"
  by (induction es arbitrary: s) (auto intro: inv_step split: if_splits)

end

text \<open>At most one request of a kind is in flight, and \<open>b\<close> tells whether there is one; its reply ends it.\<close>

lemma filter_settle:
  assumes "length (filter p xs) = (if b then 1 else 0)" and "x \<in> set xs" and "p x"
  shows "b \<and> filter p (remove1 x xs) = []"
proof -
  have mem: "x \<in> set (filter p xs)" using assms(2,3) by simp
  then have "filter p xs \<noteq> []" by (metis empty_iff empty_set)
  then have "b" "length (filter p xs) = 1" using assms(1) by (auto split: if_splits)
  then obtain y where "filter p xs = [y]" by (auto simp: length_Suc_conv)
  with mem \<open>b\<close> show ?thesis by (simp add: filter_remove1)
qed

text \<open>A page with one operation at a time: \<open>busy\<close> disables its buttons while an operation is among the
  requests in flight.\<close>

locale single_flight = machine en st s0 inv
  for en :: "'s \<Rightarrow> 'e \<Rightarrow> bool" and st and s0 and inv +
  fixes is_op :: "'q \<Rightarrow> bool"
    and flying :: "'s \<Rightarrow> 'q list"
    and busy :: "'s \<Rightarrow> bool"
  assumes inv_flight: "inv s \<Longrightarrow> length (filter is_op (flying s)) = (if busy s then 1 else 0)"
begin

lemma one_operation: "reachable en st s0 s \<Longrightarrow> length (filter is_op (flying s)) = (if busy s then 1 else 0)"
  using inv_flight reachable_inv by blast

lemma idle: "reachable en st s0 s \<Longrightarrow> \<not> busy s \<Longrightarrow> filter is_op (flying s) = []"
  using one_operation by fastforce

lemma idle_iff: "reachable en st s0 s \<Longrightarrow> filter is_op (flying s) = [] \<longleftrightarrow> \<not> busy s"
  using one_operation [of s] by (auto split: if_splits)

lemma settled:
  "inv s \<Longrightarrow> q \<in> set (flying s) \<Longrightarrow> is_op q \<Longrightarrow> busy s \<and> filter is_op (remove1 q (flying s)) = []"
  by (rule filter_settle [OF inv_flight])

text \<open>A page that is busy waits for an answer, so it does not stay busy when all have come.\<close>

lemma busy_waits: "reachable en st s0 s \<Longrightarrow> busy s \<Longrightarrow> \<exists>q \<in> set (flying s). is_op q"
  using one_operation [of s] by (metis One_nat_def filter_False length_0_conv zero_neq_one)

end

end
