(* ===== verification/Decimal.thy ===== *)
theory Decimal
  imports JsBase
begin

text \<open>
  Numbers as text. Every finite IEEE double is written by JavaScript as its shortest decimal
  numeral, so a number that travels as text is represented by that numeral: \<open>Dec m e\<close> is
  $m \cdot 10^e$, with no trailing zero in the mantissa (\<open>wf_dec\<close>). \<open>show_dec\<close> is
  \<open>Number.prototype.toString\<close>, \<open>parse_num\<close> the number grammar of JSON and \<open>parse_float\<close>
  the global \<open>parseFloat\<close>. Rounding to 53 bits is not represented, and \<open>-0\<close> is \<open>0\<close>.
\<close>

section \<open>Decimal numerals\<close>

datatype dec = Dec int int

fun wf_dec :: "dec \<Rightarrow> bool" where
  "wf_dec (Dec m e) = (if m = 0 then e = 0 else m mod 10 \<noteq> 0)"

function mk_dec :: "int \<Rightarrow> int \<Rightarrow> dec" where
  "mk_dec m e = (if m = 0 then Dec 0 0 else if m mod 10 = 0 then mk_dec (m div 10) (e + 1) else Dec m e)"
  by pat_completeness auto
termination
  by (relation "measure (\<lambda>(m, e). nat \<bar>m\<bar>)") (auto simp: abs_if)

declare mk_dec.simps [simp del]

lemma mk_dec_wf: "wf_dec (mk_dec m e)"
  by (induction m e rule: mk_dec.induct) (subst mk_dec.simps, simp)

lemma mk_dec_of_wf [simp]: "wf_dec (Dec m e) \<Longrightarrow> mk_dec m e = Dec m e"
  by (subst mk_dec.simps) (auto split: if_splits)

lemma mk_dec_shift:
  "m \<noteq> 0 \<Longrightarrow> m mod 10 \<noteq> 0 \<Longrightarrow> mk_dec (m * 10 ^ n) e = Dec m (e + int n)"
proof (induction n arbitrary: e)
  case 0
  then show ?case by (subst mk_dec.simps) simp
next
  case (Suc n)
  have "mk_dec (m * 10 ^ Suc n) e = mk_dec (m * 10 ^ n) (e + 1)"
    using Suc.prems by (subst mk_dec.simps) simp
  with Suc show ?case by simp
qed

lemma mk_dec_value: "mk_dec m e = Dec m' e' \<Longrightarrow> m \<noteq> 0 \<Longrightarrow> \<exists>n. m = m' * 10 ^ n \<and> e' = e + int n"
proof (induction m e rule: mk_dec.induct)
  case (1 m e)
  show ?case
  proof (cases "m mod 10 = 0")
    case True
    then have "mk_dec (m div 10) (e + 1) = Dec m' e'" using 1(2,3) by (subst (asm) mk_dec.simps) simp
    moreover have "m div 10 \<noteq> 0" using True 1(3) by auto
    ultimately obtain n where n: "m div 10 = m' * 10 ^ n" "e' = e + 1 + int n" using 1(1,3) True by auto
    have "m = 10 * (m div 10)" using True by auto
    also have "\<dots> = m' * 10 ^ Suc n" by (simp add: n(1))
    finally show ?thesis using n(2) by (intro exI [of _ "Suc n"]) simp
  next
    case False
    then show ?thesis using 1(2,3) by (subst (asm) mk_dec.simps) (auto intro: exI [of _ 0])
  qed
qed

definition dec_pos :: "dec \<Rightarrow> bool" where
  "dec_pos d = (case d of Dec m e \<Rightarrow> 0 < m)"

text \<open>\<open>Math.ceil\<close>\<close>

fun dec_ceil :: "dec \<Rightarrow> int" where
  "dec_ceil (Dec m e) = (if 0 \<le> e then m * 10 ^ nat e else - ((- m) div 10 ^ nat (- e)))"

lemma dec_ceil_pos: "dec_pos d \<Longrightarrow> 1 \<le> dec_ceil d"
proof (cases d)
  case (Dec m e)
  assume "dec_pos d"
  with Dec have m: "0 < m" by (simp add: dec_pos_def)
  show ?thesis
  proof (cases "0 \<le> e")
    case True
    have "(0::int) < m * 10 ^ nat e" using m by simp
    with True Dec show ?thesis by simp
  next
    case False
    have "(- m) div 10 ^ nat (- e) < 0"
      using m by (intro div_neg_pos_less0) simp_all
    with False Dec show ?thesis by simp
  qed
qed

section \<open>Writing a number\<close>

abbreviation zeros :: "nat \<Rightarrow> string" where
  "zeros n \<equiv> replicate n (CHR ''0'')"

definition show_exp :: "int \<Rightarrow> string" where
  "show_exp x = ''e'' @ (if x < 0 then ''-'' else ''+'') @ show_nat (nat \<bar>x\<bar>)"

definition show_udec :: "nat \<Rightarrow> int \<Rightarrow> string" where
  "show_udec m e =
     (let ds = show_nat m; k = length ds; n = int k + e
      in if int k \<le> n \<and> n \<le> 21 then ds @ zeros (nat e)
         else if 0 < n \<and> n \<le> 21 then take (nat n) ds @ ''.'' @ drop (nat n) ds
         else if - 6 < n \<and> n \<le> 0 then ''0.'' @ zeros (nat (- n)) @ ds
         else if k = 1 then ds @ show_exp (n - 1)
         else take 1 ds @ ''.'' @ drop 1 ds @ show_exp (n - 1))"

fun show_dec :: "dec \<Rightarrow> string" where
  "show_dec (Dec m e) = (if m < 0 then ''-'' else []) @ show_udec (nat \<bar>m\<bar>) e"

section \<open>Reading a number\<close>

definition parse_frac :: "string \<Rightarrow> (string \<times> string) option" where
  "parse_frac r = (case r of
      [] \<Rightarrow> Some ([], [])
    | c # cs \<Rightarrow> if c = CHR ''.''
        then (if takeWhile is_digit cs = [] then None
              else Some (takeWhile is_digit cs, dropWhile is_digit cs))
        else Some ([], r))"

definition parse_exp :: "string \<Rightarrow> int option" where
  "parse_exp r = (case r of
      [] \<Rightarrow> Some 0
    | c # cs \<Rightarrow> if c = CHR ''e'' \<or> c = CHR ''E''
        then (case take_sign cs of (neg, ds) \<Rightarrow>
               if ds \<noteq> [] \<and> (\<forall>d \<in> set ds. is_digit d)
               then Some (if neg then - int (digits_val ds) else int (digits_val ds)) else None)
        else None)"

definition parse_unum :: "bool \<Rightarrow> string \<Rightarrow> dec option" where
  "parse_unum neg r =
     (let ip = takeWhile is_digit r
      in if ip = [] \<or> (length ip > 1 \<and> hd ip = CHR ''0'') then None
         else case parse_frac (dropWhile is_digit r) of
                None \<Rightarrow> None
              | Some (fp, r2) \<Rightarrow>
                  (case parse_exp r2 of
                     None \<Rightarrow> None
                   | Some x \<Rightarrow> Some (mk_dec ((if neg then - 1 else 1) * int (digits_val (ip @ fp)))
                                       (x - int (length fp)))))"

definition parse_num :: "string \<Rightarrow> dec option" where
  "parse_num s = (case s of
      [] \<Rightarrow> None
    | c # cs \<Rightarrow> if c = CHR ''-'' then parse_unum True cs else parse_unum False s)"

text \<open>\<open>parseFloat(s)\<close>: the longest prefix that is a decimal literal.\<close>

datatype js_number = NaN | Infinite bool | Finite dec

definition exp_prefix :: "string \<Rightarrow> int" where
  "exp_prefix r = (case r of
      [] \<Rightarrow> 0
    | c # cs \<Rightarrow> if c = CHR ''e'' \<or> c = CHR ''E''
        then (case take_sign cs of (neg, ds) \<Rightarrow>
               let xs = takeWhile is_digit ds
               in if neg then - int (digits_val xs) else int (digits_val xs))
        else 0)"

definition parse_float :: "string \<Rightarrow> js_number" where
  "parse_float s =
     (let (neg, r) = take_sign (dropWhile js_ws s);
          ip = takeWhile is_digit r; r1 = dropWhile is_digit r;
          fp = (case r1 of [] \<Rightarrow> [] | c # cs \<Rightarrow> if c = CHR ''.'' then takeWhile is_digit cs else []);
          r2 = (case r1 of [] \<Rightarrow> [] | c # cs \<Rightarrow> if c = CHR ''.'' then dropWhile is_digit cs else r1)
      in if starts_with ''Infinity'' r then Infinite neg
         else if ip = [] \<and> fp = [] then NaN
         else Finite (mk_dec ((if neg then - 1 else 1) * int (digits_val (ip @ fp)))
                        (exp_prefix r2 - int (length fp))))"

text \<open>\<open>Number(s)\<close> of a string: the whole trimmed string must be a numeric literal.\<close>

definition hex_char :: "char \<Rightarrow> nat option" where
  "hex_char c = (let n = (of_char c :: nat) in
     if 48 \<le> n \<and> n \<le> 57 then Some (n - 48)
     else if 97 \<le> n \<and> n \<le> 102 then Some (n - 87)
     else if 65 \<le> n \<and> n \<le> 70 then Some (n - 55) else None)"

fun radix_val :: "nat \<Rightarrow> nat \<Rightarrow> string \<Rightarrow> nat option" where
  "radix_val b a [] = Some a"
| "radix_val b a (c # cs) = (case hex_char c of
     Some d \<Rightarrow> if d < b then radix_val b (b * a + d) cs else None | None \<Rightarrow> None)"

definition radix_literal :: "nat \<Rightarrow> string \<Rightarrow> js_number" where
  "radix_literal b ds = (if ds = [] then NaN else case radix_val b 0 ds of
     Some v \<Rightarrow> Finite (mk_dec (int v) 0) | None \<Rightarrow> NaN)"

definition decimal_literal :: "string \<Rightarrow> js_number" where
  "decimal_literal t =
     (let (neg, r) = take_sign t;
          ip = takeWhile is_digit r; r1 = dropWhile is_digit r;
          fp = (case r1 of [] \<Rightarrow> [] | c # cs \<Rightarrow> if c = CHR ''.'' then takeWhile is_digit cs else []);
          r2 = (case r1 of [] \<Rightarrow> [] | c # cs \<Rightarrow> if c = CHR ''.'' then dropWhile is_digit cs else r1)
      in if r = ''Infinity'' then Infinite neg
         else if ip = [] \<and> fp = [] then NaN
         else case parse_exp r2 of
                None \<Rightarrow> NaN
              | Some x \<Rightarrow> Finite (mk_dec ((if neg then - 1 else 1) * int (digits_val (ip @ fp)))
                                   (x - int (length fp))))"

definition js_Number :: "string \<Rightarrow> js_number" where
  "js_Number s =
     (let t = js_trim s; p = take 2 t in
      if t = [] then Finite (Dec 0 0)
      else if p = ''0x'' \<or> p = ''0X'' then radix_literal 16 (drop 2 t)
      else if p = ''0o'' \<or> p = ''0O'' then radix_literal 8 (drop 2 t)
      else if p = ''0b'' \<or> p = ''0B'' then radix_literal 2 (drop 2 t)
      else decimal_literal t)"

text \<open>\<open>!Number.isNaN(t) && t > 0\<close>\<close>

definition positive_number :: "js_number \<Rightarrow> js_number option" where
  "positive_number t = (case t of
      NaN \<Rightarrow> None
    | Infinite neg \<Rightarrow> if neg then None else Some t
    | Finite d \<Rightarrow> if dec_pos d then Some t else None)"

text \<open>\<open>Math.ceil\<close>\<close>

definition js_ceil :: "js_number \<Rightarrow> js_number" where
  "js_ceil v = (case v of Finite d \<Rightarrow> Finite (mk_dec (dec_ceil d) 0) | _ \<Rightarrow> v)"

section \<open>Reading back what was written\<close>

lemma digits_val_acc_zeros: "digits_val_acc a (zeros n) = a * 10 ^ n"
  by (induction n arbitrary: a) (simp_all add: digit_val_def)

lemma digits_val_append_zeros: "digits_val (ds @ zeros n) = digits_val ds * 10 ^ n"
  by (simp add: digits_val_def digits_val_acc_append digits_val_acc_zeros)

lemma digits_val_zeros_append: "digits_val (zeros n @ ds) = digits_val ds"
  by (simp add: digits_val_def digits_val_acc_append digits_val_acc_zeros)

lemma is_digit_zero [simp]: "is_digit (CHR ''0'')"
  by (simp add: is_digit_def)

lemma not_digit_punct [simp]: "\<not> is_digit (CHR ''.'')" "\<not> is_digit (CHR ''e'')"
  "\<not> is_digit (CHR ''-'')" "\<not> is_digit (CHR ''+'')" "\<not> is_digit (CHR ''E'')"
  by (simp_all add: is_digit_def)

lemma digit_char_0 [simp]: "digit_char 0 = CHR ''0''"
  by code_simp

lemma hd_show_nat: "0 < n \<Longrightarrow> hd (show_nat n) \<noteq> CHR ''0''"
proof (induction n rule: show_nat.induct)
  case (1 n)
  show ?case
  proof (cases "n < 10")
    case True
    have "digit_char n \<noteq> digit_char 0"
      using True 1(2) digit_val_digit_char [of n] digit_val_digit_char [of 0] by force
    with True show ?thesis by (subst show_nat.simps) simp
  next
    case False
    with 1 have "hd (show_nat (n div 10)) \<noteq> CHR ''0''" by simp
    with False show ?thesis by (subst show_nat.simps) simp
  qed
qed

lemma show_nat_len1: "length (show_nat n) > 1 \<Longrightarrow> hd (show_nat n) \<noteq> CHR ''0''"
  by (cases "n = 0") (simp_all add: hd_show_nat, simp add: show_nat.simps)

lemma takeWhile_digits_append:
  "\<forall>c \<in> set ds. is_digit c \<Longrightarrow> r = [] \<or> \<not> is_digit (hd r) \<Longrightarrow>
   takeWhile is_digit (ds @ r) = ds \<and> dropWhile is_digit (ds @ r) = r"
  by (cases r) (auto simp: takeWhile_append dropWhile_append takeWhile_all)

lemma parse_exp_show_exp: "parse_exp (show_exp x) = Some x"
proof -
  have "\<forall>d \<in> set (show_nat (nat \<bar>x\<bar>)). is_digit d" by (rule show_nat_digits)
  then show ?thesis
    by (auto simp: parse_exp_def show_exp_def take_sign_def)
qed

lemma parse_exp_Nil [simp]: "parse_exp [] = Some 0"
  by (simp add: parse_exp_def)

lemma parse_unum_shape:
  assumes ip: "ip \<noteq> []" "\<forall>c \<in> set ip. is_digit c" "length ip > 1 \<longrightarrow> hd ip \<noteq> CHR ''0''"
    and fp: "\<forall>c \<in> set fp. is_digit c"
    and r: "r = [] \<and> x = 0 \<or> r = show_exp x"
    and s: "s = ip @ (if fp = [] then r else ''.'' @ fp @ r)"
  shows "parse_unum neg s =
    Some (mk_dec ((if neg then - 1 else 1) * int (digits_val (ip @ fp))) (x - int (length fp)))"
proof -
  have rx: "r = [] \<or> \<not> is_digit (hd r)" "parse_exp r = Some x" "r = [] \<or> hd r \<noteq> CHR ''.''"
    using r parse_exp_show_exp [of x] by (auto simp: show_exp_def)
  let ?t = "if fp = [] then r else ''.'' @ fp @ r"
  have "?t = [] \<or> \<not> is_digit (hd ?t)" using rx(1) by auto
  with ip(2) have split: "takeWhile is_digit s = ip" "dropWhile is_digit s = ?t"
    unfolding s using takeWhile_digits_append by blast+
  have "parse_frac ?t = Some (fp, r)"
    using rx takeWhile_digits_append [OF fp rx(1)]
    by (cases r) (auto simp: parse_frac_def takeWhile_all [OF fp])
  with split ip rx(2) show ?thesis
    by (simp add: parse_unum_def Let_def del: takeWhile_eq_Nil_iff)
qed

lemma show_nat_take_drop_digits:
  "\<forall>c \<in> set (take i (show_nat n)). is_digit c" "\<forall>c \<in> set (drop i (show_nat n)). is_digit c"
  using show_nat_digits [of n] by (meson in_set_takeD in_set_dropD)+

lemma parse_unum_show_udec:
  assumes wf: "wf_dec (Dec m e)" and m: "m = (if neg then - int a else int a)"
    and a: "neg \<longrightarrow> a \<noteq> 0"
  shows "parse_unum neg (show_udec a e) = Some (Dec m e)"
proof -
  let ?ds = "show_nat a"
  let ?k = "length ?ds"
  let ?n = "int ?k + e"
  let ?sg = "(if neg then - 1 else 1) :: int"
  have k: "0 < ?k" by simp
  have dig: "\<forall>c \<in> set ?ds. is_digit c" by (rule show_nat_digits)
  have lead: "length ?ds > 1 \<longrightarrow> hd ?ds \<noteq> CHR ''0''" using show_nat_len1 by blast
  have sm: "?sg * int a = m" using m by auto
  have mk: "mk_dec (?sg * int a) e = Dec m e" using wf sm by simp
  consider (int) "int ?k \<le> ?n" "?n \<le> 21" | (frac) "\<not> int ?k \<le> ?n" "0 < ?n" "?n \<le> 21"
    | (small) "- 6 < ?n" "?n \<le> 0" | (exp1) "?n \<le> - 6 \<or> 21 < ?n" "?k = 1"
    | (exp) "?n \<le> - 6 \<or> 21 < ?n" "?k \<noteq> 1"
    by linarith
  then show ?thesis
  proof cases
    case int
    then have s: "show_udec a e = ?ds @ zeros (nat e)" by (simp add: show_udec_def Let_def)
    show ?thesis
    proof (cases "a = 0")
      case True
      with wf m have "e = 0" "m = 0" by (auto split: if_splits)
      with True s have "show_udec a e = ''0''" by (simp add: show_nat.simps)
      moreover have "neg = False" using a True by simp
      ultimately show ?thesis
        using \<open>e = 0\<close> \<open>m = 0\<close>
        by (simp add: parse_unum_def parse_frac_def digits_val_def digit_val_def mk_dec.simps)
    next
      case False
      with wf sm have nz: "m \<noteq> 0" "m mod 10 \<noteq> 0" using m by (auto split: if_splits)
      have "\<forall>c \<in> set (?ds @ zeros (nat e)). is_digit c" using dig by auto
      moreover have "hd (?ds @ zeros (nat e)) \<noteq> CHR ''0''" using hd_show_nat False by simp
      ultimately have "parse_unum neg (show_udec a e) =
          Some (mk_dec (?sg * int (digits_val (?ds @ zeros (nat e)))) 0)"
        using s parse_unum_shape [of "?ds @ zeros (nat e)" "[]" "[]" 0 "show_udec a e" neg] by simp
      also have "?sg * int (digits_val (?ds @ zeros (nat e))) = m * 10 ^ nat e"
        using sm by (simp add: digits_val_append_zeros)
      also have "mk_dec (m * 10 ^ nat e) 0 = Dec m (0 + int (nat e))"
        by (rule mk_dec_shift [OF nz])
      also have "0 + int (nat e) = e" using int(1) by simp
      finally show ?thesis .
    qed
  next
    case frac
    let ?i = "nat ?n"
    have i: "0 < ?i" "?i < ?k" using frac by auto
    have s: "show_udec a e = take ?i ?ds @ ''.'' @ drop ?i ?ds"
      using frac by (simp add: show_udec_def Let_def)
    have ne: "take ?i ?ds \<noteq> []" "drop ?i ?ds \<noteq> []" using i by auto
    have "length (take ?i ?ds) > 1 \<longrightarrow> hd (take ?i ?ds) \<noteq> CHR ''0''"
      using lead i by (simp add: hd_take)
    then have "parse_unum neg (show_udec a e) =
        Some (mk_dec (?sg * int (digits_val (take ?i ?ds @ drop ?i ?ds))) (0 - int (length (drop ?i ?ds))))"
      using s ne show_nat_take_drop_digits
      by (intro parse_unum_shape [where r = "[]"]) auto
    also have "0 - int (length (drop ?i ?ds)) = e" using frac i by simp
    finally show ?thesis using mk by simp
  next
    case small
    let ?z = "zeros (nat (- ?n))"
    have nk: "\<not> int ?k \<le> ?n" using small k by linarith
    then have s: "show_udec a e = ''0'' @ ''.'' @ (?z @ ?ds)"
      using small by (simp add: show_udec_def Let_def)
    have "parse_unum neg (show_udec a e) =
        Some (mk_dec (?sg * int (digits_val (''0'' @ (?z @ ?ds)))) (0 - int (length (?z @ ?ds))))"
      using s dig by (intro parse_unum_shape [where r = "[]"]) auto
    also have "digits_val (''0'' @ (?z @ ?ds)) = a"
      using digits_val_zeros_append [of "Suc (nat (- ?n))" ?ds] by simp
    also have "0 - int (length (?z @ ?ds)) = e" using small by simp
    finally show ?thesis using mk by simp
  next
    case exp1
    then have s: "show_udec a e = ?ds @ show_exp (?n - 1)"
      by (auto simp: show_udec_def Let_def)
    have "parse_unum neg (show_udec a e) =
        Some (mk_dec (?sg * int (digits_val (?ds @ []))) ((?n - 1) - int (length ([] :: string))))"
      using s dig lead by (intro parse_unum_shape [where r = "show_exp (?n - 1)"]) auto
    also have "(?n - 1) - int (length ([] :: string)) = e" using exp1 by simp
    finally show ?thesis using mk by simp
  next
    case exp
    then have s: "show_udec a e = take 1 ?ds @ ''.'' @ drop 1 ?ds @ show_exp (?n - 1)"
      by (auto simp: show_udec_def Let_def)
    have k1: "1 < ?k" using exp(2) k by linarith
    then have ne: "take 1 ?ds \<noteq> []" "drop 1 ?ds \<noteq> []" by auto
    have "parse_unum neg (show_udec a e) =
        Some (mk_dec (?sg * int (digits_val (take 1 ?ds @ drop 1 ?ds))) ((?n - 1) - int (length (drop 1 ?ds))))"
      using s ne show_nat_take_drop_digits
      by (intro parse_unum_shape [where r = "show_exp (?n - 1)"]) auto
    also have "(?n - 1) - int (length (drop 1 ?ds)) = e" using k1 by simp
    finally show ?thesis using mk by simp
  qed
qed

lemma show_udec_hd: "show_udec a e \<noteq> [] \<and> is_digit (hd (show_udec a e))"
proof -
  obtain c cs where s: "show_nat a = c # cs" by (cases "show_nat a") auto
  then have "is_digit c" using show_nat_digits [of a] by auto
  with s show ?thesis by (auto simp: show_udec_def Let_def take_Cons')
qed

theorem parse_num_show_dec: "wf_dec d \<Longrightarrow> parse_num (show_dec d) = Some d"
proof (cases d)
  case (Dec m e)
  assume wf: "wf_dec d"
  obtain c cs where s: "show_udec (nat \<bar>m\<bar>) e = c # cs" "is_digit c"
    using show_udec_hd [of "nat \<bar>m\<bar>" e] by (metis list.collapse)
  have "parse_unum (m < 0) (show_udec (nat \<bar>m\<bar>) e) = Some (Dec m e)"
    by (rule parse_unum_show_udec) (use wf Dec in auto)
  with s Dec show ?thesis by (auto simp: parse_num_def)
qed

definition is_num_char :: "char \<Rightarrow> bool" where
  "is_num_char c \<longleftrightarrow> is_digit c \<or> c \<in> {CHR ''-'', CHR ''+'', CHR ''.'', CHR ''e'', CHR ''E''}"

lemma show_dec_chars: "\<forall>c \<in> set (show_dec d). is_num_char c"
proof (cases d)
  case (Dec m e)
  have dig: "is_digit c" if "c \<in> set (show_nat n)" for c n
    using that show_nat_digits by blast
  have "\<forall>c \<in> set (show_udec a e). is_num_char c" for a
    by (auto simp: show_udec_def show_exp_def Let_def is_num_char_def
        dest!: dig in_set_takeD in_set_dropD)
  with Dec show ?thesis by (auto simp: is_num_char_def)
qed

lemma show_dec_hd: "show_dec d \<noteq> [] \<and> (is_digit (hd (show_dec d)) \<or> hd (show_dec d) = CHR ''-'')"
  using show_udec_hd by (cases d) auto

end
