(* ===== verification/Json.thy ===== *)
theory Json
  imports Decimal
begin

text \<open>
  JSON values, \<open>JSON.parse\<close> and the writers of JSON text. The parser is a scanner (one state
  machine over characters) followed by a stack automaton over tokens, so both are structural
  recursions and no fuel is needed. A writer is described by a \<open>json_style\<close>: which white space
  it inserts, how it writes numbers and which characters it escapes. The locale \<open>json_writer\<close>
  states what a style must satisfy; every style that does is read back by the parser, which the
  interpretations state for \<open>JSON.stringify(v)\<close> and \<open>JSON.stringify(v, null, 2)\<close>.
  A \<open>\uXXXX\<close> escape of a code unit above 255 is outside the represented range of characters
  and is rejected by the scanner.
\<close>

section \<open>Values\<close>

datatype json =
    JNull
  | JBool bool
  | JNum dec
  | JStr string
  | JArr "json list"
  | JObj "(string \<times> json) list"

fun json_wf :: "json \<Rightarrow> bool"
and json_wf_list :: "json list \<Rightarrow> bool"
and json_wf_ents :: "(string \<times> json) list \<Rightarrow> bool" where
  "json_wf JNull = True"
| "json_wf (JBool b) = True"
| "json_wf (JNum d) = wf_dec d"
| "json_wf (JStr s) = True"
| "json_wf (JArr xs) = json_wf_list xs"
| "json_wf (JObj es) = (distinct (map fst es) \<and> json_wf_ents es)"
| "json_wf_list [] = True"
| "json_wf_list (x # xs) = (json_wf x \<and> json_wf_list xs)"
| "json_wf_ents [] = True"
| "json_wf_ents (e # es) = (json_wf (snd e) \<and> json_wf_ents es)"

lemma json_wf_list_iff: "json_wf_list xs \<longleftrightarrow> (\<forall>x \<in> set xs. json_wf x)"
  by (induction xs) auto

lemma json_wf_ents_iff: "json_wf_ents es \<longleftrightarrow> (\<forall>e \<in> set es. json_wf (snd e))"
  by (induction es) auto

text \<open>\<open>j.k\<close> on an object, and the checks the dashboard makes on untyped values.\<close>

fun json_get :: "json \<Rightarrow> string \<Rightarrow> json option" where
  "json_get (JObj es) k = map_of es k"
| "json_get _ k = None"

fun json_str :: "json option \<Rightarrow> string option" where
  "json_str (Some (JStr s)) = Some s"
| "json_str _ = None"

text \<open>Truthiness of \<open>JSON.parse\<close>d values.\<close>

fun json_truthy :: "json \<Rightarrow> bool" where
  "json_truthy JNull = False"
| "json_truthy (JBool b) = b"
| "json_truthy (JNum d) = (case d of Dec m e \<Rightarrow> m \<noteq> 0)"
| "json_truthy (JStr s) = (s \<noteq> [])"
| "json_truthy (JArr xs) = True"
| "json_truthy (JObj es) = True"

section \<open>Scanner\<close>

datatype token =
    TLBracket | TRBracket | TLBrace | TRBrace | TComma | TColon
  | TNull | TBool bool | TNum dec | TStr string

datatype lex_state =
    LIdle | LStr string | LEsc string | LHex string nat nat | LNum string | LWord string

definition json_ws :: "char \<Rightarrow> bool" where
  "json_ws c \<longleftrightarrow> c \<in> {CHR 0x09, CHR 0x0A, CHR 0x0D, CHR '' ''}"

definition is_lower :: "char \<Rightarrow> bool" where
  "is_lower c \<longleftrightarrow> (let n = (of_char c :: nat) in 97 \<le> n \<and> n \<le> 122)"

definition num_start :: "char \<Rightarrow> bool" where
  "num_start c \<longleftrightarrow> is_digit c \<or> c = CHR ''-''"

definition punct :: "char \<Rightarrow> token option" where
  "punct c = (if c = CHR ''['' then Some TLBracket else if c = CHR '']'' then Some TRBracket
     else if c = CHR ''{'' then Some TLBrace else if c = CHR ''}'' then Some TRBrace
     else if c = CHR '','' then Some TComma else if c = CHR '':'' then Some TColon else None)"

definition word_token :: "string \<Rightarrow> token option" where
  "word_token w = (if w = ''null'' then Some TNull else if w = ''true'' then Some (TBool True)
     else if w = ''false'' then Some (TBool False) else None)"

definition unescape :: "char \<Rightarrow> char option" where
  "unescape c = (if c \<in> {CHR 0x22, CHR 0x5C, CHR ''/''} then Some c
     else if c = CHR ''b'' then Some (CHR 0x08) else if c = CHR ''f'' then Some (CHR 0x0C)
     else if c = CHR ''n'' then Some (CHR 0x0A) else if c = CHR ''r'' then Some (CHR 0x0D)
     else if c = CHR ''t'' then Some (CHR 0x09) else None)"

definition hex_val :: "char \<Rightarrow> nat option" where
  "hex_val c = (let n = (of_char c :: nat) in
     if 48 \<le> n \<and> n \<le> 57 then Some (n - 48) else if 97 \<le> n \<and> n \<le> 102 then Some (n - 87)
     else if 65 \<le> n \<and> n \<le> 70 then Some (n - 55) else None)"

definition emit :: "token option \<Rightarrow> token list option \<Rightarrow> token list option" where
  "emit t ts = (case t of None \<Rightarrow> None | Some x \<Rightarrow> map_option (Cons x) ts)"

function (sequential) lex :: "lex_state \<Rightarrow> string \<Rightarrow> token list option" where
  "lex LIdle [] = Some []"
| "lex LIdle (c # cs) =
     (if json_ws c then lex LIdle cs
      else if c = CHR 0x22 then lex (LStr []) cs
      else if num_start c then lex (LNum [c]) cs
      else if is_lower c then lex (LWord [c]) cs
      else emit (punct c) (lex LIdle cs))"
| "lex (LStr acc) [] = None"
| "lex (LStr acc) (c # cs) =
     (if c = CHR 0x22 then emit (Some (TStr (rev acc))) (lex LIdle cs)
      else if c = CHR 0x5C then lex (LEsc acc) cs
      else if (of_char c :: nat) < 32 then None
      else lex (LStr (c # acc)) cs)"
| "lex (LEsc acc) [] = None"
| "lex (LEsc acc) (c # cs) =
     (if c = CHR ''u'' then lex (LHex acc 4 0) cs
      else (case unescape c of None \<Rightarrow> None | Some x \<Rightarrow> lex (LStr (x # acc)) cs))"
| "lex (LHex acc n v) [] = None"
| "lex (LHex acc n v) (c # cs) =
     (case hex_val c of
        None \<Rightarrow> None
      | Some h \<Rightarrow>
          (if n \<le> 1 then (if 16 * v + h < 256 then lex (LStr (char_of (16 * v + h) # acc)) cs else None)
           else lex (LHex acc (n - 1) (16 * v + h)) cs))"
| "lex (LNum acc) [] = emit (map_option TNum (parse_num (rev acc))) (Some [])"
| "lex (LNum acc) (c # cs) =
     (if is_num_char c then lex (LNum (c # acc)) cs
      else emit (map_option TNum (parse_num (rev acc))) (lex LIdle (c # cs)))"
| "lex (LWord acc) [] = emit (word_token (rev acc)) (Some [])"
| "lex (LWord acc) (c # cs) =
     (if is_lower c then lex (LWord (c # acc)) cs
      else emit (word_token (rev acc)) (lex LIdle (c # cs)))"
  by pat_completeness auto
termination
  by (relation "measures [\<lambda>(q, s). length s, \<lambda>(q, s). if q = LIdle then 0 else 1]") auto

section \<open>Stack automaton\<close>

datatype frame = FArr "json list" | FObj "(string \<times> json) list" string

datatype pmode = MValue | MArr0 | MObj0 | MKey | MColon string | MAfter | MDone json

type_synonym pstate = "pmode \<times> frame list"

fun push :: "json \<Rightarrow> frame list \<Rightarrow> pstate" where
  "push v [] = (MDone v, [])"
| "push v (FArr xs # st) = (MAfter, FArr (v # xs) # st)"
| "push v (FObj es k # st) = (MAfter, FObj (obj_put k v es) k # st)"

fun scalar :: "token \<Rightarrow> json option" where
  "scalar TNull = Some JNull"
| "scalar (TBool b) = Some (JBool b)"
| "scalar (TNum d) = Some (JNum d)"
| "scalar (TStr s) = Some (JStr s)"
| "scalar _ = None"

definition value_step :: "token \<Rightarrow> frame list \<Rightarrow> pstate option" where
  "value_step t st =
     (if t = TLBracket then Some (MArr0, FArr [] # st)
      else if t = TLBrace then Some (MObj0, FObj [] [] # st)
      else map_option (\<lambda>v. push v st) (scalar t))"

fun close_frame :: "token \<Rightarrow> frame list \<Rightarrow> pstate option" where
  "close_frame TRBracket (FArr xs # st) = Some (push (JArr (rev xs)) st)"
| "close_frame TRBrace (FObj es k # st) = Some (push (JObj es) st)"
| "close_frame _ _ = None"

fun pstep :: "token \<Rightarrow> pstate \<Rightarrow> pstate option" where
  "pstep t (MValue, st) = value_step t st"
| "pstep t (MArr0, st) = (if t = TRBracket then close_frame t st else value_step t st)"
| "pstep t (MObj0, st) = (if t = TRBrace then close_frame t st
     else (case t of TStr k \<Rightarrow> Some (MColon k, st) | _ \<Rightarrow> None))"
| "pstep t (MKey, st) = (case t of TStr k \<Rightarrow> Some (MColon k, st) | _ \<Rightarrow> None)"
| "pstep t (MColon k, st) =
     (if t = TColon then (case st of FObj es _ # st' \<Rightarrow> Some (MValue, FObj es k # st') | _ \<Rightarrow> None) else None)"
| "pstep t (MAfter, st) =
     (if t = TComma then (case st of FArr _ # _ \<Rightarrow> Some (MValue, st) | FObj _ _ # _ \<Rightarrow> Some (MKey, st) | [] \<Rightarrow> None)
      else close_frame t st)"
| "pstep t (MDone v, st) = None"

fun psteps :: "token list \<Rightarrow> pstate \<Rightarrow> pstate option" where
  "psteps [] s = Some s"
| "psteps (t # ts) s = (case pstep t s of None \<Rightarrow> None | Some s' \<Rightarrow> psteps ts s')"

definition json_parse :: "string \<Rightarrow> json option" where
  "json_parse s = (case lex LIdle s of
      None \<Rightarrow> None
    | Some ts \<Rightarrow> (case psteps ts (MValue, []) of Some (MDone v, _) \<Rightarrow> Some v | _ \<Rightarrow> None))"

section \<open>Writers\<close>

record json_style =
  st_open :: "nat \<Rightarrow> string"
  st_sep :: "nat \<Rightarrow> string"
  st_close :: "nat \<Rightarrow> string"
  st_colon :: string
  st_num :: "dec \<Rightarrow> string"
  st_esc :: "char \<Rightarrow> bool"

definition hex_digit :: "nat \<Rightarrow> char" where
  "hex_digit d = (if d < 10 then char_of (48 + d) else char_of (87 + d))"

definition short_escape :: "char \<Rightarrow> char option" where
  "short_escape c = (if c = CHR 0x22 then Some (CHR 0x22) else if c = CHR 0x5C then Some (CHR 0x5C)
     else if c = CHR 0x08 then Some (CHR ''b'') else if c = CHR 0x0C then Some (CHR ''f'')
     else if c = CHR 0x0A then Some (CHR ''n'') else if c = CHR 0x0D then Some (CHR ''r'')
     else if c = CHR 0x09 then Some (CHR ''t'') else None)"

definition escape_char :: "json_style \<Rightarrow> char \<Rightarrow> string" where
  "escape_char sty c = (case short_escape c of
      Some x \<Rightarrow> [CHR 0x5C, x]
    | None \<Rightarrow> let n = (of_char c :: nat) in
        if n < 32 \<or> st_esc sty c
        then [CHR 0x5C, CHR ''u'', CHR ''0'', CHR ''0'', hex_digit (n div 16), hex_digit (n mod 16)]
        else [c])"

definition quote :: "json_style \<Rightarrow> string \<Rightarrow> string" where
  "quote sty s = CHR 0x22 # concat (map (escape_char sty) s) @ [CHR 0x22]"

fun jwrite :: "json_style \<Rightarrow> nat \<Rightarrow> json \<Rightarrow> string"
and jwrite_items :: "json_style \<Rightarrow> nat \<Rightarrow> json list \<Rightarrow> string"
and jwrite_ents :: "json_style \<Rightarrow> nat \<Rightarrow> (string \<times> json) list \<Rightarrow> string" where
  "jwrite sty d JNull = ''null''"
| "jwrite sty d (JBool b) = (if b then ''true'' else ''false'')"
| "jwrite sty d (JNum n) = st_num sty n"
| "jwrite sty d (JStr s) = quote sty s"
| "jwrite sty d (JArr xs) = (if xs = [] then ''[]''
     else ''['' @ st_open sty d @ jwrite_items sty d xs @ st_close sty d @ '']'')"
| "jwrite sty d (JObj es) = (if es = [] then ''{}''
     else ''{'' @ st_open sty d @ jwrite_ents sty d es @ st_close sty d @ ''}'')"
| "jwrite_items sty d [] = []"
| "jwrite_items sty d (x # xs) = jwrite sty (Suc d) x
     @ (if xs = [] then [] else '','' @ st_sep sty d @ jwrite_items sty d xs)"
| "jwrite_ents sty d [] = []"
| "jwrite_ents sty d (e # es) = quote sty (fst e) @ '':'' @ st_colon sty @ jwrite sty (Suc d) (snd e)
     @ (if es = [] then [] else '','' @ st_sep sty d @ jwrite_ents sty d es)"

text \<open>The tokens of a value, which every writer produces.\<close>

fun toks :: "json \<Rightarrow> token list"
and toks_items :: "json list \<Rightarrow> token list"
and toks_ents :: "(string \<times> json) list \<Rightarrow> token list" where
  "toks JNull = [TNull]"
| "toks (JBool b) = [TBool b]"
| "toks (JNum n) = [TNum n]"
| "toks (JStr s) = [TStr s]"
| "toks (JArr xs) = TLBracket # toks_items xs @ [TRBracket]"
| "toks (JObj es) = TLBrace # toks_ents es @ [TRBrace]"
| "toks_items [] = []"
| "toks_items (x # xs) = toks x @ (if xs = [] then [] else TComma # toks_items xs)"
| "toks_ents [] = []"
| "toks_ents (e # es) = TStr (fst e) # TColon # toks (snd e)
     @ (if es = [] then [] else TComma # toks_ents es)"

section \<open>Parsing the tokens of a value\<close>

lemma psteps_append:
  "psteps (ts @ us) s = (case psteps ts s of None \<Rightarrow> None | Some s' \<Rightarrow> psteps us s')"
  by (induction ts arbitrary: s) (auto split: option.splits)

definition value_mode :: "pmode \<Rightarrow> bool" where
  "value_mode m \<longleftrightarrow> m = MValue \<or> m = MArr0"

lemma pstep_value_mode:
  "value_mode m \<Longrightarrow> t \<noteq> TRBracket \<Longrightarrow> pstep t (m, st) = value_step t st"
  by (auto simp: value_mode_def)

lemma value_modes [simp]: "value_mode MValue" "value_mode MArr0"
  by (simp_all add: value_mode_def)

lemma update_new_append: "k \<notin> set (map fst es) \<Longrightarrow> obj_put k v es = es @ [(k, v)]"
  by (induction es) auto

lemma psteps_toks:
  "json_wf j \<Longrightarrow> value_mode m \<Longrightarrow> psteps (toks j @ ts) (m, st) = psteps ts (push j st)"
  "json_wf_list xs \<Longrightarrow> xs \<noteq> [] \<Longrightarrow> value_mode m \<Longrightarrow>
     psteps (toks_items xs @ TRBracket # ts) (m, FArr acc # st) = psteps ts (push (JArr (rev acc @ xs)) st)"
  "json_wf_ents es \<Longrightarrow> es \<noteq> [] \<Longrightarrow> distinct (map fst es0 @ map fst es) \<Longrightarrow> m' = MKey \<or> m' = MObj0 \<Longrightarrow>
     psteps (toks_ents es @ TRBrace # ts) (m', FObj es0 k # st) = psteps ts (push (JObj (es0 @ es)) st)"
proof (induction j and xs and es arbitrary: m ts st and m ts acc st and m' ts es0 k st
    rule: toks_toks_items_toks_ents.induct)
  case (5 xs)
  then show ?case
    by (cases "xs = []") (auto simp: pstep_value_mode value_step_def)
next
  case (6 es)
  show ?case
  proof (cases "es = []")
    case True
    with 6 show ?thesis by (auto simp: pstep_value_mode value_step_def)
  next
    case False
    have "psteps (toks_ents es @ TRBrace # ts) (MObj0, FObj [] [] # st) = psteps ts (push (JObj ([] @ es)) st)"
      using 6 False by (intro 6) auto
    with 6(3) show ?thesis by (simp add: pstep_value_mode value_step_def)
  qed
next
  case (8 x xs)
  show ?case
  proof (cases "xs = []")
    case True
    with 8 show ?thesis by simp
  next
    case False
    have "psteps (toks_items xs @ TRBracket # ts) (MValue, FArr (x # acc) # st)
        = psteps ts (push (JArr (rev (x # acc) @ xs)) st)"
      using 8 False by (intro 8) auto
    with 8 False show ?thesis by simp
  qed
next
  case (10 e es)
  obtain k' v where e: "e = (k', v)" by force
  have new: "obj_put k' v es0 = es0 @ [(k', v)]"
    using 10(5) e by (intro update_new_append) auto
  have colon: "psteps (toks_ents (e # es) @ TRBrace # ts) (m', FObj es0 k # st)
      = psteps (toks v @ (if es = [] then [] else TComma # toks_ents es) @ TRBrace # ts) (MValue, FObj es0 k' # st)"
    using 10(6) e by auto
  also have "\<dots> = psteps ((if es = [] then [] else TComma # toks_ents es) @ TRBrace # ts)
      (MAfter, FObj (es0 @ [e]) k' # st)"
    using 10(1) [of MValue] 10(3) e new by simp
  finally have step: "psteps (toks_ents (e # es) @ TRBrace # ts) (m', FObj es0 k # st)
      = psteps ((if es = [] then [] else TComma # toks_ents es) @ TRBrace # ts)
          (MAfter, FObj (es0 @ [e]) k' # st)" .
  show ?case
  proof (cases "es = []")
    case True
    with step show ?thesis by simp
  next
    case False
    have "psteps (toks_ents es @ TRBrace # ts) (MKey, FObj (es0 @ [e]) k' # st)
        = psteps ts (push (JObj ((es0 @ [e]) @ es)) st)"
      using 10 False by (intro 10) auto
    with step False show ?thesis by simp
  qed
qed (auto simp: pstep_value_mode value_step_def)

section \<open>Scanning what a writer wrote\<close>

definition clear_end :: "string \<Rightarrow> bool" where
  "clear_end r \<longleftrightarrow> r = [] \<or> (\<not> is_num_char (hd r) \<and> \<not> is_lower (hd r))"

lemma clear_end_Nil [simp]: "clear_end []"
  by (simp add: clear_end_def)

lemma clear_end_punct [simp]: "clear_end (CHR '','' # r)" "clear_end (CHR '']'' # r)"
  "clear_end (CHR ''}'' # r)"
  by (simp_all add: clear_end_def is_num_char_def is_digit_def is_lower_def)

lemma json_ws_clear: "json_ws c \<Longrightarrow> \<not> is_num_char c \<and> \<not> is_lower c"
  by (auto simp: json_ws_def is_num_char_def is_digit_def is_lower_def)

lemma clear_end_ws: "\<forall>c \<in> set w. json_ws c \<Longrightarrow> clear_end r \<Longrightarrow> clear_end (w @ r)"
  by (cases w) (auto simp: clear_end_def json_ws_clear)

lemma lex_ws: "\<forall>c \<in> set w. json_ws c \<Longrightarrow> lex LIdle (w @ r) = lex LIdle r"
  by (induction w) auto

lemma lex_num_run:
  "\<forall>c \<in> set s. is_num_char c \<Longrightarrow> clear_end r \<Longrightarrow>
   lex (LNum acc) (s @ r) = emit (map_option TNum (parse_num (rev acc @ s))) (lex LIdle r)"
proof (induction s arbitrary: acc)
  case Nil
  then show ?case by (cases r) (auto simp: clear_end_def)
next
  case (Cons c s)
  then show ?case by simp
qed

lemma lex_word_run:
  "\<forall>c \<in> set s. is_lower c \<Longrightarrow> clear_end r \<Longrightarrow>
   lex (LWord acc) (s @ r) = emit (word_token (rev acc @ s)) (lex LIdle r)"
proof (induction s arbitrary: acc)
  case Nil
  then show ?case by (cases r) (auto simp: clear_end_def)
next
  case (Cons c s)
  then show ?case by simp
qed

lemma num_start_idle: "num_start c \<Longrightarrow> \<not> json_ws c \<and> c \<noteq> CHR 0x22"
  by (auto simp: num_start_def json_ws_def is_digit_def)

lemma lower_idle: "is_lower c \<Longrightarrow> \<not> json_ws c \<and> c \<noteq> CHR 0x22 \<and> \<not> num_start c"
  by (auto simp: is_lower_def num_start_def json_ws_def is_digit_def Let_def)

lemma lex_num:
  assumes "s \<noteq> []" "num_start (hd s)" "\<forall>c \<in> set s. is_num_char c" "clear_end r" "parse_num s = Some d"
  shows "lex LIdle (s @ r) = emit (Some (TNum d)) (lex LIdle r)"
proof -
  obtain c cs where s: "s = c # cs" using assms(1) by (cases s) auto
  show ?thesis
    using assms lex_num_run [of cs r "[c]"] by (simp add: s num_start_idle)
qed

lemma lex_word:
  assumes "s \<noteq> []" "\<forall>c \<in> set s. is_lower c" "clear_end r"
  shows "lex LIdle (s @ r) = emit (word_token s) (lex LIdle r)"
proof -
  obtain c cs where s: "s = c # cs" using assms(1) by (cases s) auto
  show ?thesis
    using assms lex_word_run [of cs r "[c]"] by (simp add: s lower_idle)
qed

lemma hex_val_digit: "d < 16 \<Longrightarrow> hex_val (hex_digit d) = Some d"
  by (auto simp: hex_val_def hex_digit_def of_char_of Let_def)

lemma unescape_short: "short_escape c = Some x \<Longrightarrow> unescape x = Some c \<and> x \<noteq> CHR ''u''"
  by (auto simp: short_escape_def unescape_def split: if_splits)

lemma lex_escape_char: "lex (LStr acc) (escape_char sty c @ r) = lex (LStr (c # acc)) r"
proof (cases "short_escape c")
  case (Some x)
  with unescape_short [OF Some] show ?thesis by (simp add: escape_char_def)
next
  case None
  then have plain: "c \<noteq> CHR 0x22" "c \<noteq> CHR 0x5C" by (auto simp: short_escape_def)
  let ?n = "of_char c :: nat"
  have n: "?n < 256" by (rule nat_of_char_less_256)
  show ?thesis
  proof (cases "?n < 32 \<or> st_esc sty c")
    case True
    have "?n div 16 < 16" "?n mod 16 < 16"
      using n less_mult_imp_div_less [of ?n 16 16] by simp_all
    then have "hex_val (hex_digit (?n div 16)) = Some (?n div 16)"
      "hex_val (hex_digit (?n mod 16)) = Some (?n mod 16)" by (simp_all only: hex_val_digit)
    moreover have "16 * (?n div 16) + ?n mod 16 = ?n" by simp
    moreover have "hex_val (CHR ''0'') = Some 0" by (simp add: hex_val_def)
    ultimately show ?thesis
      using None True n by (simp add: escape_char_def Let_def)
  next
    case False
    with None plain show ?thesis by (simp add: escape_char_def Let_def)
  qed
qed

lemma lex_string_run:
  "lex (LStr acc) (concat (map (escape_char sty) s) @ CHR 0x22 # r)
     = emit (Some (TStr (rev acc @ s))) (lex LIdle r)"
proof (induction s arbitrary: acc)
  case Nil
  then show ?case by simp
next
  case (Cons c s)
  then show ?case by (simp add: lex_escape_char)
qed

lemma lex_quote: "lex LIdle (quote sty s @ r) = emit (Some (TStr s)) (lex LIdle r)"
  using lex_string_run [of "[]" sty s r] by (simp add: quote_def json_ws_def)

lemma emit_Some: "emit (Some t) o1 = map_option (Cons t) o1"
  by (simp add: emit_def)

lemma lex_punct:
  "lex LIdle (CHR ''['' # r) = emit (Some TLBracket) (lex LIdle r)"
  "lex LIdle (CHR '']'' # r) = emit (Some TRBracket) (lex LIdle r)"
  "lex LIdle (CHR ''{'' # r) = emit (Some TLBrace) (lex LIdle r)"
  "lex LIdle (CHR ''}'' # r) = emit (Some TRBrace) (lex LIdle r)"
  "lex LIdle (CHR '','' # r) = emit (Some TComma) (lex LIdle r)"
  "lex LIdle (CHR '':'' # r) = emit (Some TColon) (lex LIdle r)"
  by (simp_all add: json_ws_def num_start_def is_digit_def is_lower_def punct_def)

lemma lex_words:
  "clear_end r \<Longrightarrow> lex LIdle (''null'' @ r) = emit (Some TNull) (lex LIdle r)"
  "clear_end r \<Longrightarrow> lex LIdle (''true'' @ r) = emit (Some (TBool True)) (lex LIdle r)"
  "clear_end r \<Longrightarrow> lex LIdle (''false'' @ r) = emit (Some (TBool False)) (lex LIdle r)"
  using lex_word [of "''null''" r] lex_word [of "''true''" r] lex_word [of "''false''" r]
  by (simp_all add: is_lower_def word_token_def del: lex.simps)

declare lex.simps(2) [simp del]

lemmas lex_idle = lex_punct lex_words lex_quote emit_Some

locale json_writer =
  fixes sty :: json_style
  assumes ws_open: "\<forall>c \<in> set (st_open sty d). json_ws c"
    and ws_sep: "\<forall>c \<in> set (st_sep sty d). json_ws c"
    and ws_close: "\<forall>c \<in> set (st_close sty d). json_ws c"
    and ws_colon: "\<forall>c \<in> set (st_colon sty). json_ws c"
    and num_read: "wf_dec n \<Longrightarrow> parse_num (st_num sty n) = Some n"
    and num_chars: "\<forall>c \<in> set (st_num sty n). is_num_char c"
    and num_first: "st_num sty n \<noteq> [] \<and> num_start (hd (st_num sty n))"
begin

lemma lex_jwrite:
  "json_wf j \<Longrightarrow> clear_end r \<Longrightarrow>
     lex LIdle (jwrite sty d j @ r) = map_option ((@) (toks j)) (lex LIdle r)"
  "json_wf_list xs \<Longrightarrow> clear_end r \<Longrightarrow>
     lex LIdle (jwrite_items sty d xs @ r) = map_option ((@) (toks_items xs)) (lex LIdle r)"
  "json_wf_ents es \<Longrightarrow> clear_end r \<Longrightarrow>
     lex LIdle (jwrite_ents sty d es @ r) = map_option ((@) (toks_ents es)) (lex LIdle r)"
proof (induction j and xs and es arbitrary: d r and d r and d r
    rule: toks_toks_items_toks_ents.induct)
  case 1
  then show ?case by (simp add: lex_idle [simplified])
next
  case (2 b)
  then show ?case by (simp add: lex_idle [simplified])
next
  case (3 n)
  then show ?case
    using lex_num [of "st_num sty n" r n] num_read num_chars num_first by (simp add: emit_Some)
next
  case (4 s)
  then show ?case by (simp add: lex_quote emit_Some)
next
  case (5 xs)
  then show ?case
    using clear_end_ws [OF ws_close]
    by (simp add: lex_idle lex_ws [OF ws_open] lex_ws [OF ws_close] option.map_comp comp_def)
next
  case (6 es)
  then show ?case
    using clear_end_ws [OF ws_close]
    by (simp add: lex_idle lex_ws [OF ws_open] lex_ws [OF ws_close] option.map_comp comp_def)
next
  case 7
  then show ?case by (simp add: option.map_ident_strong)
next
  case (8 x xs)
  then show ?case
    by (simp add: lex_idle lex_ws [OF ws_sep] option.map_comp comp_def)
next
  case 9
  then show ?case by (simp add: option.map_ident_strong)
next
  case (10 e es)
  then show ?case
    by (simp add: lex_idle lex_ws [OF ws_sep] lex_ws [OF ws_colon] option.map_comp comp_def)
qed

lemma parse_write: "json_wf j \<Longrightarrow> json_parse (jwrite sty d j) = Some j"
  using lex_jwrite(1) [of j "[]" d] psteps_toks(1) [of j MValue "[]" "[]"]
  by (simp add: json_parse_def)

end

section \<open>The writers of the dashboard\<close>

text \<open>\<open>JSON.stringify(v)\<close> and \<open>JSON.stringify(v, null, 2)\<close> enumerate the properties of every
  object in own-property order (\<open>json_canon\<close>).\<close>

definition indent2 :: "nat \<Rightarrow> string" where
  "indent2 d = replicate (2 * d) (CHR '' '')"

definition compact_style :: json_style where
  "compact_style = \<lparr>st_open = (\<lambda>d. []), st_sep = (\<lambda>d. []), st_close = (\<lambda>d. []), st_colon = [],
     st_num = show_dec, st_esc = (\<lambda>c. False)\<rparr>"

definition pretty_style :: json_style where
  "pretty_style = \<lparr>st_open = (\<lambda>d. CHR 0x0A # indent2 (Suc d)), st_sep = (\<lambda>d. CHR 0x0A # indent2 (Suc d)),
     st_close = (\<lambda>d. CHR 0x0A # indent2 d), st_colon = '' '', st_num = show_dec, st_esc = (\<lambda>c. False)\<rparr>"

lemma num_start_show_dec: "show_dec n \<noteq> [] \<and> num_start (hd (show_dec n))"
  using show_dec_hd [of n] by (simp add: num_start_def)

interpretation compact: json_writer compact_style
  by unfold_locales
    (auto simp: compact_style_def parse_num_show_dec show_dec_chars num_start_show_dec)

interpretation pretty: json_writer pretty_style
  by unfold_locales
    (auto simp: pretty_style_def indent2_def json_ws_def parse_num_show_dec show_dec_chars num_start_show_dec)

fun json_canon :: "json \<Rightarrow> json"
and json_canon_list :: "json list \<Rightarrow> json list"
and json_canon_ents :: "(string \<times> json) list \<Rightarrow> (string \<times> json) list" where
  "json_canon (JArr xs) = JArr (json_canon_list xs)"
| "json_canon (JObj es) = JObj (own_entries (json_canon_ents es))"
| "json_canon JNull = JNull"
| "json_canon (JBool b) = JBool b"
| "json_canon (JNum d) = JNum d"
| "json_canon (JStr s) = JStr s"
| "json_canon_list [] = []"
| "json_canon_list (x # xs) = json_canon x # json_canon_list xs"
| "json_canon_ents [] = []"
| "json_canon_ents (e # es) = (fst e, json_canon (snd e)) # json_canon_ents es"

lemma fst_canon_ents [simp]: "map fst (json_canon_ents es) = map fst es"
  by (induction es) auto

lemma json_canon_wf:
  "json_wf j \<Longrightarrow> json_wf (json_canon j)"
  "json_wf_list xs \<Longrightarrow> json_wf_list (json_canon_list xs)"
  "json_wf_ents es \<Longrightarrow> json_wf_ents (json_canon_ents es)"
proof (induction j and xs and es rule: json_canon_json_canon_list_json_canon_ents.induct)
  case (2 es)
  then have "obj_wf (json_canon_ents es)" by (simp add: obj_wf_def)
  from distinct_own_keys [OF this] 2 show ?case
    by (auto simp: own_keys_def json_wf_ents_iff)
qed auto

lemma json_canon_ents_map: "json_canon_ents m = map (\<lambda>e. (fst e, json_canon (snd e))) m"
  by (induction m) auto

lemma json_canon_idem:
  "json_canon (json_canon j) = json_canon j"
  "json_canon_list (json_canon_list xs) = json_canon_list xs"
  "json_canon_ents (json_canon_ents es) = json_canon_ents es"
proof (induction j and xs and es rule: json_canon_json_canon_list_json_canon_ents.induct)
  case (2 es)
  have "json_canon_ents (own_entries (json_canon_ents es)) = own_entries (json_canon_ents (json_canon_ents es))"
    unfolding json_canon_ents_map by (rule own_entries_map [symmetric])
  then show ?case using 2 by (simp add: own_entries_idem)
qed auto

definition json_stringify :: "json \<Rightarrow> string" where
  "json_stringify j = jwrite compact_style 0 (json_canon j)"

definition json_stringify2 :: "json \<Rightarrow> string" where
  "json_stringify2 j = jwrite pretty_style 0 (json_canon j)"

theorem parse_stringify: "json_wf j \<Longrightarrow> json_parse (json_stringify j) = Some (json_canon j)"
  by (simp add: json_stringify_def compact.parse_write json_canon_wf)

theorem parse_stringify2: "json_wf j \<Longrightarrow> json_parse (json_stringify2 j) = Some (json_canon j)"
  by (simp add: json_stringify2_def pretty.parse_write json_canon_wf)

section \<open>As text\<close>

text \<open>\<open>String(v)\<close>; an array is joined with commas and skips null.\<close>

fun js_String :: "json \<Rightarrow> string"
and js_item :: "json \<Rightarrow> string"
and js_join :: "string \<Rightarrow> json list \<Rightarrow> string" where
  "js_String JNull = ''null''"
| "js_String (JBool b) = (if b then ''true'' else ''false'')"
| "js_String (JNum d) = show_dec d"
| "js_String (JStr t) = t"
| "js_String (JArr xs) = js_join '','' xs"
| "js_String (JObj es) = ''[object Object]''"
| "js_item JNull = []"
| "js_item (JBool b) = (if b then ''true'' else ''false'')"
| "js_item (JNum d) = show_dec d"
| "js_item (JStr t) = t"
| "js_item (JArr xs) = js_join '','' xs"
| "js_item (JObj es) = ''[object Object]''"
| "js_join sep [] = []"
| "js_join sep (x # xs) = js_item x @ (if xs = [] then [] else sep @ js_join sep xs)"

text \<open>\<open>String(v ?? d)\<close>\<close>

definition json_text_or :: "json option \<Rightarrow> string \<Rightarrow> string" where
  "json_text_or v d = (case v of None \<Rightarrow> d | Some JNull \<Rightarrow> d | Some j \<Rightarrow> js_String j)"

end
