(* ===== verification/ApiTypes.thy ===== *)
theory ApiTypes
  imports Complex_Main Json
begin

text \<open>
  The response and request shapes of \<open>frontend/src/api/types.ts\<close>. A field that may be absent or
  null is an \<open>option\<close>; a field of a request body where absent and null are sent differently is an
  \<open>opt\<close>. \<open>unknown\<close> is \<open>json\<close>, a \<open>Record\<close> is an \<open>obj\<close>. Counters, identifiers and byte counts are
  \<open>int\<close>; times, latencies and ratios are \<open>real\<close> (IEEE doubles without rounding). Each record
  carries the prefix of its interface, since field names are global in HOL.
\<close>

section \<open>Traffic and metrics\<close>

datatype traffic_status = StOk | StError | StTimeout | StDenied

fun status_text :: "traffic_status \<Rightarrow> string" where
  "status_text StOk = ''ok''"
| "status_text StError = ''error''"
| "status_text StTimeout = ''timeout''"
| "status_text StDenied = ''denied''"

record traffic_record =
  tr_timestamp :: real
  tr_upstream :: string
  tr_method :: "string option"
  tr_request_id :: json
  tr_status :: traffic_status
  tr_latency_ms :: real
  tr_request_bytes :: int
  tr_response_bytes :: int
  tr_error_code :: "string option"
  tr_client_ip :: "string option"

record traffic_list_response =
  tlr_items :: "traffic_record list"

type_synonym upstream_health = "json obj"

record tool_info =
  tool_name :: "string option"
  tool_description :: "string option"

record route_discovery =
  rd_updated_at :: "real option"
  rd_ok :: "bool option"
  rd_error :: "string option"
  rd_tools :: "tool_info list"

record route_info =
  ri_health :: upstream_health
  ri_discovery :: route_discovery

type_synonym route_snapshot = "route_info obj"

record upstream_metrics =
  um_total :: int
  um_errors :: int
  um_latency_p50_ms :: real
  um_latency_p95_ms :: real
  um_latency_p99_ms :: real
  um_by_status :: "int obj"

record metrics_response =
  mr_window_s :: real
  mr_total :: int
  mr_errors :: int
  mr_error_rate :: real
  mr_latency_p50_ms :: real
  mr_latency_p95_ms :: real
  mr_latency_p99_ms :: real
  mr_per_upstream :: "upstream_metrics obj"
  mr_subscribers :: int
  mr_dropped_for_subscribers :: int
  mr_buffer_size :: int
  mr_buffer_max :: int
  mr_uptime_s :: "real option"

record health_response =
  hr_status :: string
  hr_upstreams :: "json obj"
  hr_telemetry :: "json obj"
  hr_uptime_s :: real
  hr_version :: string

record log_entry =
  le_timestamp :: real
  le_logger :: string
  le_level :: string
  le_message :: string
  le_upstream :: "string option"

section \<open>Catalog and discovery\<close>

record catalog_variable =
  cv_name :: string
  cv_description :: string
  cv_required :: bool
  cv_default :: "string option"
  cv_secret :: bool

record catalog_entry =
  ce_id :: string
  ce_name :: string
  ce_description :: string
  ce_category :: string
  ce_homepage :: string
  ce_transport :: string
  ce_install_hint :: string
  ce_tags :: "string list"
  ce_variables :: "catalog_variable list"
  ce_command :: "string option"
  ce_args :: "string list option"
  ce_url :: "string option"
  ce_env :: "string obj option"

record catalog_response =
  cr_version :: int
  cr_updated_at :: string
  cr_categories :: "string list"
  cr_entries :: "catalog_entry list"

record discovered_upstream =
  du_source_client :: string
  du_name :: string
  du_config :: "json obj"
  du_origin_path :: string
  du_warnings :: "string list"

record discovery_client =
  dc_client_id :: string
  dc_display_name :: string
  dc_config_path :: "string option"
  dc_detected :: bool
  dc_upstreams :: "discovered_upstream list"

record discovery_response =
  dr_clients :: "discovery_client list"

section \<open>Onboarding\<close>

type_synonym database_dialect = string

record onboarding_database_info =
  odi_current_url_masked :: string
  odi_current_dialect :: database_dialect
  odi_is_default :: bool
  odi_bootstrap_file_present :: bool
  odi_available_dialects :: "database_dialect list"

record onboarding_status =
  os_active :: bool
  os_completed :: bool
  os_expired :: bool
  os_required :: bool
  os_created_at :: "real option"
  os_admin_token_set_at :: "real option"
  os_first_upstream_at :: "real option"
  os_completed_at :: "real option"
  os_completed_by :: "string option"
  os_ttl_s :: "real option"
  os_expires_at :: "real option"
  os_database :: "onboarding_database_info option"

record onboarding_set_token_response =
  ost_applied :: bool
  ost_onboarding :: onboarding_status

record onboarding_database_request =
  odr_url :: "string option"
  odr_dialect :: "database_dialect option"
  odr_host :: "string option"
  odr_port :: "dec option"
  odr_database :: "string option"
  odr_user :: "string option"
  odr_password :: "string option"
  odr_sslmode :: "string option"
  odr_secrets_key_ack :: "bool option"

record onboarding_test_database_response =
  otd_ok :: bool
  otd_dialect :: "database_dialect option"
  otd_url_masked :: "string option"
  otd_error :: "string option"

datatype set_database_mode = HotSwap | RestartRequired

record onboarding_set_database_response =
  osd_ok :: bool
  osd_mode :: set_database_mode
  osd_onboarding :: onboarding_status

section \<open>Manual upstream registration\<close>

record oauth2_payload =
  op_issuer :: "string opt"
  op_authorization_endpoint :: "string opt"
  op_token_endpoint :: "string opt"
  op_registration_endpoint :: "string opt"
  op_client_id :: "string opt"
  op_client_secret :: "string opt"
  op_scopes :: "string list option"
  op_audience :: "string opt"
  op_redirect_uri :: "string opt"
  op_dynamic_registration :: "bool option"

datatype http_auth_payload =
    AuthNone
  | AuthBearer (ap_token: string)
  | AuthApiKey (ap_header: string) (ap_value: string)
  | AuthBasic (ap_username: string) (ap_password: string)
  | AuthOAuth2 oauth2_payload

record stdio_upstream_payload =
  sup_command :: string
  sup_args :: "string list"
  sup_env :: "string obj option"
  sup_queue_size :: "int option"

record http_upstream_payload =
  hup_url :: string
  hup_timeout_s :: "js_number option"
  hup_headers :: "string obj option"
  hup_auth :: "http_auth_payload opt"

datatype manual_upstream_config = StdioUp stdio_upstream_payload | HttpUp http_upstream_payload

record manual_upstream_request =
  mur_name :: string
  mur_config :: manual_upstream_config
  mur_replace :: bool

record upstream_status =
  us_health :: "json obj option"
  us_discovery :: "json obj option"

record manual_upstream_response =
  mures_applied :: bool
  mures_diff :: "json obj option"
  mures_error :: "string option"
  mures_warning :: "string option"
  mures_status :: "upstream_status option"

section \<open>Accounts\<close>

record providers_response =
  pr_providers :: "string list"
  pr_authy_enabled :: bool

record login_user =
  lu_id :: string
  lu_email :: string
  lu_name :: string
  lu_provider :: string

record login_response =
  lr_token :: string
  lr_user :: "login_user option"

record me_response =
  me_user_id :: int
  me_email :: string
  me_role :: string
  me_provider :: string
  me_auth_mode :: string

record user_row =
  ur_id :: int
  ur_email :: string
  ur_username :: "string option"
  ur_name :: "string option"
  ur_provider :: string
  ur_role :: string
  ur_created_at :: real
  ur_invited_by :: "int option"
  ur_activated_at :: "real option"
  ur_disabled_at :: "real option"

record invite_response =
  ir_id :: int
  ir_email :: string
  ir_role :: string
  ir_created_at :: real
  ir_expires_at :: real
  ir_consumed_at :: "real option"
  ir_invited_by :: "int option"
  ir_plaintext_token :: "string option"

record token_mapping_row =
  tm_id :: int
  tm_upstream :: string
  tm_user_id :: int
  tm_description :: string
  tm_created_at :: real
  tm_updated_at :: real
  tm_token_preview :: string

record pat_row =
  pat_id :: int
  pat_user_id :: int
  pat_name :: string
  pat_token_prefix :: string
  pat_created_at :: real
  pat_last_used_at :: "real option"
  pat_expires_at :: "real option"
  pat_revoked_at :: "real option"
  pat_plaintext :: "string option"

end
