(* ===== verification/ApiClient.thy ===== *)
theory ApiClient
  imports ApiTypes
begin

text \<open>
  \<open>frontend/src/api/client.ts\<close>: the token kept in the browser's \<open>localStorage\<close> and the three
  authenticated calls. \<open>localStorage\<close> is an object of strings that may refuse every access
  (\<open>ls_blocked\<close>) or every write (\<open>ls_full\<close>); the code swallows both exceptions. The network is the
  environment: a call builds an \<open>http_request\<close> and is settled by a \<open>fetch_result\<close>, which is a
  rejected \<open>fetch\<close> or a response whose body may be unreadable.
\<close>

section \<open>The token store\<close>

record local_storage =
  ls_items :: "string obj"
  ls_blocked :: bool
  ls_full :: bool

definition TOKEN_KEY :: string where
  "TOKEN_KEY = ''mcpxy.admin.token''"

definition getToken :: "local_storage \<Rightarrow> string option" where
  "getToken ls = (if ls_blocked ls then None else obj_get (ls_items ls) TOKEN_KEY)"

definition setToken :: "string option \<Rightarrow> local_storage \<Rightarrow> local_storage" where
  "setToken value ls =
     (if ls_blocked ls then ls
      else case value of
        None \<Rightarrow> ls\<lparr>ls_items := obj_del TOKEN_KEY (ls_items ls)\<rparr>
      | Some v \<Rightarrow>
          if v = [] then ls\<lparr>ls_items := obj_del TOKEN_KEY (ls_items ls)\<rparr>
          else if ls_full ls then ls
          else ls\<lparr>ls_items := obj_put TOKEN_KEY v (ls_items ls)\<rparr>)"

text \<open>\<open>Boolean(getToken())\<close>\<close>

definition have_token :: "local_storage \<Rightarrow> bool" where
  "have_token ls \<longleftrightarrow> (case getToken ls of Some t \<Rightarrow> t \<noteq> [] | None \<Rightarrow> False)"

definition empty_storage :: local_storage where
  "empty_storage = \<lparr>ls_items = [], ls_blocked = False, ls_full = False\<rparr>"

section \<open>Requests and responses\<close>

datatype http_method = GET | POST | DELETE

record http_request =
  rq_method :: http_method
  rq_path :: string
  rq_headers :: "string obj"
  rq_credentials :: bool
  rq_body :: "string option"

record http_response =
  rs_status :: int
  rs_status_text :: string
  rs_body :: "string option"
  rs_json_error :: string

datatype fetch_result = Rejected string | Answered http_response

definition rs_ok :: "http_response \<Rightarrow> bool" where
  "rs_ok res \<longleftrightarrow> 200 \<le> rs_status res \<and> rs_status res \<le> 299"

definition authHeaders :: "local_storage \<Rightarrow> string obj" where
  "authHeaders ls = (case getToken ls of
      Some token \<Rightarrow> if token = [] then [] else [(''Authorization'', ''Bearer '' @ token)]
    | None \<Rightarrow> [])"

text \<open>The error text of a failed response: the \<open>detail\<close> of a JSON body, else the body, else the
  status text.\<close>

definition safeText :: "http_response \<Rightarrow> string" where
  "safeText res = (case rs_body res of
      None \<Rightarrow> rs_status_text res
    | Some text \<Rightarrow>
        if text = [] then rs_status_text res
        else (case json_parse text of
                None \<Rightarrow> text
              | Some json \<Rightarrow>
                  (case json_str (json_get json ''detail'') of
                     Some d \<Rightarrow> d
                   | None \<Rightarrow> text)))"

text \<open>\<open>await res.json()\<close>: an unreadable or malformed body rejects with the engine's message.\<close>

definition res_json :: "http_response \<Rightarrow> js_error + json" where
  "res_json res = (case rs_body res of
      None \<Rightarrow> Inl (PlainErr (rs_json_error res))
    | Some text \<Rightarrow> (case json_parse text of
         None \<Rightarrow> Inl (PlainErr (rs_json_error res))
       | Some j \<Rightarrow> Inr j))"

definition get_request :: "local_storage \<Rightarrow> string \<Rightarrow> http_request" where
  "get_request ls path = \<lparr>rq_method = GET, rq_path = path,
     rq_headers = (''Accept'', ''application/json'') # authHeaders ls,
     rq_credentials = True, rq_body = None\<rparr>"

definition post_request :: "local_storage \<Rightarrow> string \<Rightarrow> json option \<Rightarrow> http_request" where
  "post_request ls path body = \<lparr>rq_method = POST, rq_path = path,
     rq_headers = (''Content-Type'', ''application/json'') # (''Accept'', ''application/json'') # authHeaders ls,
     rq_credentials = True,
     rq_body = Some (json_stringify (nullish body (JObj [])))\<rparr>"

definition delete_request :: "local_storage \<Rightarrow> string \<Rightarrow> http_request" where
  "delete_request ls path = \<lparr>rq_method = DELETE, rq_path = path,
     rq_headers = (''Accept'', ''application/json'') # authHeaders ls,
     rq_credentials = True, rq_body = None\<rparr>"

text \<open>What the three calls do once \<open>fetch\<close> settles, with the storage as it is at that moment.\<close>

definition settle :: "local_storage \<Rightarrow> fetch_result \<Rightarrow> local_storage \<times> (js_error + json)" where
  "settle ls r = (case r of
      Rejected m \<Rightarrow> (ls, Inl (PlainErr m))
    | Answered res \<Rightarrow>
        if \<not> rs_ok res then
          (if rs_status res = 401 \<and> have_token ls then setToken None ls else ls,
           Inl (ApiErr (rs_status res) (safeText res)))
        else (ls, res_json res))"

definition apiGet :: "string \<Rightarrow> (http_request \<Rightarrow> fetch_result) \<Rightarrow> local_storage \<Rightarrow>
    local_storage \<times> (js_error + json)" where
  "apiGet path fetch ls = settle ls (fetch (get_request ls path))"

definition apiPost :: "string \<Rightarrow> json option \<Rightarrow> (http_request \<Rightarrow> fetch_result) \<Rightarrow> local_storage \<Rightarrow>
    local_storage \<times> (js_error + json)" where
  "apiPost path body fetch ls = settle ls (fetch (post_request ls path body))"

definition apiDelete :: "string \<Rightarrow> (http_request \<Rightarrow> fetch_result) \<Rightarrow> local_storage \<Rightarrow>
    local_storage \<times> (js_error + json)" where
  "apiDelete path fetch ls = settle ls (fetch (delete_request ls path))"

definition logout :: "(http_request \<Rightarrow> fetch_result) \<Rightarrow> local_storage \<Rightarrow> local_storage" where
  "logout fetch ls = setToken None (fst (apiPost ''/admin/api/authy/logout'' (Some (JObj [])) fetch ls))"

text \<open>What a settled call leaves in the storage, read off the value its promise settles with: the code
  clears the token that is stored \<^emph>\<open>then\<close>, whether or not the request carried it.\<close>

definition after_call :: "(js_error + 'a) \<Rightarrow> local_storage \<Rightarrow> local_storage" where
  "after_call r ls = (case r of
      Inl (ApiErr code _) \<Rightarrow> if code = 401 \<and> have_token ls then setToken None ls else ls
    | _ \<Rightarrow> ls)"

section \<open>Facts about the token store\<close>

lemma getToken_setToken_Some:
  "\<not> ls_blocked ls \<Longrightarrow> \<not> ls_full ls \<Longrightarrow> v \<noteq> [] \<Longrightarrow> getToken (setToken (Some v) ls) = Some v"
  by (simp add: getToken_def setToken_def obj_simps)

lemma getToken_setToken_None [simp]: "getToken (setToken None ls) = None"
  by (simp add: getToken_def setToken_def obj_simps)

lemma getToken_setToken_Nil [simp]: "getToken (setToken (Some []) ls) = None"
  by (simp add: getToken_def setToken_def obj_simps)

lemma setToken_flags [simp]:
  "ls_blocked (setToken v ls) = ls_blocked ls" "ls_full (setToken v ls) = ls_full ls"
  by (simp_all add: setToken_def split: option.splits)

lemma setToken_other_keys:
  "k \<noteq> TOKEN_KEY \<Longrightarrow> obj_get (ls_items (setToken v ls)) k = obj_get (ls_items ls) k"
  by (simp add: setToken_def obj_simps split: option.splits)

lemma have_token_iff: "have_token ls \<longleftrightarrow> (\<exists>t. getToken ls = Some t \<and> t \<noteq> [])"
  by (auto simp: have_token_def split: option.splits)

lemma have_token_cleared [simp]: "\<not> have_token (setToken None ls)"
  by (simp add: have_token_def)

section \<open>Settling a call\<close>

lemma settle_storage:
  "fst (settle ls r) = (case r of
      Answered res \<Rightarrow> if rs_status res = 401 \<and> have_token ls then setToken None ls else ls
    | Rejected m \<Rightarrow> ls)"
  by (auto simp: settle_def rs_ok_def split: fetch_result.splits)

lemma settle_after_call: "fst (settle ls r) = after_call (snd (settle ls r)) ls"
  by (simp add: settle_def after_call_def res_json_def split: fetch_result.splits option.splits)

lemma after_call_simps [simp]:
  "after_call (Inr v) ls = ls"
  "after_call (Inl (PlainErr m)) ls = ls"
  "after_call (Inl (NonErr m)) ls = ls"
  by (simp_all add: after_call_def)

lemma have_token_after_call:
  "have_token (after_call r ls) \<longleftrightarrow> have_token ls \<and> (\<forall>m. r \<noteq> Inl (ApiErr 401 m))"
  by (auto simp: after_call_def split: sum.splits js_error.splits)

text \<open>The contract of an authenticated call, which each of the three satisfies: a 401 drops the
  token, nothing else writes the storage, and an error response is an \<open>ApiError\<close>.\<close>

locale api_call =
  fixes call :: "(http_request \<Rightarrow> fetch_result) \<Rightarrow> local_storage \<Rightarrow> local_storage \<times> (js_error + json)"
    and request :: "local_storage \<Rightarrow> http_request"
  assumes call_settle: "call fetch ls = settle ls (fetch (request ls))"
    and auth_sent: "getToken ls = Some t \<Longrightarrow> t \<noteq> [] \<Longrightarrow>
      obj_get (rq_headers (request ls)) ''Authorization'' = Some (''Bearer '' @ t)"
    and auth_absent: "\<not> have_token ls \<Longrightarrow> obj_get (rq_headers (request ls)) ''Authorization'' = None"
    and cookies: "rq_credentials (request ls)"
begin

lemma unauthorized_drops_token:
  "fetch (request ls) = Answered res \<Longrightarrow> rs_status res = 401 \<Longrightarrow> \<not> have_token (fst (call fetch ls))"
  by (simp add: call_settle settle_storage)

lemma keeps_storage_unless_401:
  "(\<forall>res. fetch (request ls) = Answered res \<longrightarrow> rs_status res \<noteq> 401) \<Longrightarrow> fst (call fetch ls) = ls"
  by (auto simp: call_settle settle_storage split: fetch_result.splits)

lemma error_response:
  "fetch (request ls) = Answered res \<Longrightarrow> \<not> rs_ok res \<Longrightarrow>
   snd (call fetch ls) = Inl (ApiErr (rs_status res) (safeText res))"
  by (simp add: call_settle settle_def)

lemma success_response:
  "fetch (request ls) = Answered res \<Longrightarrow> rs_ok res \<Longrightarrow>
   call fetch ls = (ls, res_json res)"
  by (simp add: call_settle settle_def)

lemma other_keys_kept:
  "k \<noteq> TOKEN_KEY \<Longrightarrow> obj_get (ls_items (fst (call fetch ls))) k = obj_get (ls_items ls) k"
  by (simp add: call_settle settle_storage setToken_other_keys split: fetch_result.splits)

end

lemma auth_header_get:
  "obj_get (authHeaders ls) ''Authorization'' =
     (if have_token ls then map_option ((@) ''Bearer '') (getToken ls) else None)"
  by (auto simp: authHeaders_def have_token_def split: option.splits)

lemma have_token_Some: "getToken ls = Some t \<Longrightarrow> t \<noteq> [] \<Longrightarrow> have_token ls"
  by (simp add: have_token_def)

interpretation get_call: api_call "apiGet path" "\<lambda>ls. get_request ls path"
  by unfold_locales
    (simp_all add: apiGet_def get_request_def auth_header_get have_token_Some)

interpretation post_call: api_call "apiPost path body" "\<lambda>ls. post_request ls path body"
  by unfold_locales
    (simp_all add: apiPost_def post_request_def auth_header_get have_token_Some)

interpretation delete_call: api_call "apiDelete path" "\<lambda>ls. delete_request ls path"
  by unfold_locales
    (simp_all add: apiDelete_def delete_request_def auth_header_get have_token_Some)

lemma safeText_json_detail:
  assumes "rs_body res = Some (jwrite sty 0 (JObj [(''detail'', JStr d)]))" and "json_writer sty"
  shows "safeText res = d"
proof -
  have "json_parse (jwrite sty 0 (JObj [(''detail'', JStr d)])) = Some (JObj [(''detail'', JStr d)])"
    by (rule json_writer.parse_write [OF assms(2)]) simp
  then show ?thesis using assms(1) by (simp add: safeText_def)
qed

section \<open>Properties\<close>

text \<open>C2: The token discipline of the three authenticated calls. The request carries the stored token as a
  bearer header exactly when there is one, and always the session cookie. The reply decides what
  happens to the token: a 401 drops it, and nothing else in the storage is ever written; every other
  reply leaves the storage alone. Logging out drops the token whatever the server answers.\<close>

theorem token_discipline:
  "(\<forall>q \<in> {get_request ls path, post_request ls path body, delete_request ls path}.
      rq_credentials q \<and> obj_get (rq_headers q) ''Authorization''
        = (if have_token ls then map_option ((@) ''Bearer '') (getToken ls) else None))
   \<and> (\<forall>call \<in> {apiGet path, apiPost path body, apiDelete path}.
        (case r of
           Answered res \<Rightarrow> if rs_status res = 401 then \<not> have_token (fst (call (\<lambda>q. r) ls)) else fst (call (\<lambda>q. r) ls) = ls
         | Rejected m \<Rightarrow> fst (call (\<lambda>q. r) ls) = ls)
        \<and> obj_get (ls_items (fst (call (\<lambda>q. r) ls))) k = (if k = TOKEN_KEY \<and> \<not> have_token (fst (call (\<lambda>q. r) ls)) \<and> have_token ls
             then None else obj_get (ls_items ls) k))
   \<and> getToken (logout fetch ls) = None"
proof -
  have settle: "(case r of
           Answered res \<Rightarrow> if rs_status res = 401 then \<not> have_token (fst (settle ls r)) else fst (settle ls r) = ls
         | Rejected m \<Rightarrow> fst (settle ls r) = ls)
      \<and> obj_get (ls_items (fst (settle ls r))) k = (if k = TOKEN_KEY \<and> \<not> have_token (fst (settle ls r)) \<and> have_token ls
             then None else obj_get (ls_items ls) k)"
  proof (cases r)
    case (Answered res)
    have "have_token ls \<Longrightarrow> \<not> ls_blocked ls" by (auto simp: have_token_def getToken_def split: if_splits)
    then show ?thesis using Answered by (auto simp: settle_storage setToken_def obj_simps have_token_def getToken_def)
  qed (simp add: settle_storage)
  have calls: "apiGet path (\<lambda>q. r) ls = settle ls r" "apiPost path body (\<lambda>q. r) ls = settle ls r"
      "apiDelete path (\<lambda>q. r) ls = settle ls r"
    by (simp_all add: apiGet_def apiPost_def apiDelete_def)
  show ?thesis
  proof (intro conjI [OF _ conjI])
    show "\<forall>q \<in> {get_request ls path, post_request ls path body, delete_request ls path}.
      rq_credentials q \<and> obj_get (rq_headers q) ''Authorization''
        = (if have_token ls then map_option ((@) ''Bearer '') (getToken ls) else None)"
      by (simp add: get_request_def post_request_def delete_request_def auth_header_get)
    show "getToken (logout fetch ls) = None" by (simp add: logout_def)
  qed (unfold ball_simps calls, intro conjI settle TrueI)
qed

theorem token_discipline_witness:
  "\<not> have_token (fst (apiGet ''/admin/api/config''
      (\<lambda>q. Answered \<lparr>rs_status = 401, rs_status_text = [], rs_body = None, rs_json_error = []\<rparr>)
      \<lparr>ls_items = [(TOKEN_KEY, ''t'')], ls_blocked = False, ls_full = False\<rparr>))"
  using token_discipline [of "\<lparr>ls_items = [(TOKEN_KEY, ''t'')], ls_blocked = False, ls_full = False\<rparr>" "''/admin/api/config''" None
      "Answered \<lparr>rs_status = 401, rs_status_text = [], rs_body = None, rs_json_error = []\<rparr>"]
  by simp

text \<open>C22: The message of a failed call is the server's own: for an error response whose body is the JSON
  document that the server's error handler writes, \<open>{"detail": d}\<close>, the call throws an \<open>ApiError\<close> with
  that status and exactly the text \<open>d\<close>, quotes, backslashes and control characters included.\<close>

theorem server_detail_shown:
  assumes "rs_status res < 200 \<or> 299 < rs_status res"
    and "rs_body res = Some (json_stringify (JObj [(''detail'', JStr d)]))"
  shows "snd (apiGet path (\<lambda>q. Answered res) ls) = Inl (ApiErr (rs_status res) d)
    \<and> snd (apiPost path body (\<lambda>q. Answered res) ls) = Inl (ApiErr (rs_status res) d)
    \<and> snd (apiDelete path (\<lambda>q. Answered res) ls) = Inl (ApiErr (rs_status res) d)"
proof -
  have "json_parse (json_stringify (JObj [(''detail'', JStr d)])) = Some (json_canon (JObj [(''detail'', JStr d)]))"
    by (rule parse_stringify) simp
  moreover have "json_stringify (JObj [(''detail'', JStr d)]) \<noteq> []"
    by (auto simp: json_stringify_def own_entries_def)
  moreover have "own_entries [(''detail'', JStr d)] = [(''detail'', JStr d)]" by (simp add: own_entries_def)
  ultimately have "safeText res = d"
    using assms(2) by (simp add: safeText_def)
  then show ?thesis
    using assms(1) by (auto simp: apiGet_def apiPost_def apiDelete_def settle_def rs_ok_def)
qed

theorem server_detail_shown_witness:
  "snd (apiGet ''/x'' (\<lambda>q. Answered \<lparr>rs_status = 400, rs_status_text = [],
      rs_body = Some (json_stringify (JObj [(''detail'', JStr [CHR 0x22, CHR 0x0A])])), rs_json_error = []\<rparr>)
      \<lparr>ls_items = [], ls_blocked = False, ls_full = False\<rparr>) = Inl (ApiErr 400 [CHR 0x22, CHR 0x0A])"
  using server_detail_shown [of "\<lparr>rs_status = 400, rs_status_text = [],
      rs_body = Some (json_stringify (JObj [(''detail'', JStr [CHR 0x22, CHR 0x0A])])), rs_json_error = []\<rparr>"
      "[CHR 0x22, CHR 0x0A]"] by simp

end
