(* ===== verification/View.thy ===== *)
theory View
  imports JsBase
begin

text \<open>
  What a component renders: a tree of texts, buttons and form controls. Buttons carry the name of
  the handler they call and the controls the name of the field they edit, so that a view is data
  and \<open>offers\<close>, the actions a user can take on it, computes. A disabled button or control offers
  nothing. Styling (\<open>className\<close>, icons, placeholders, layout elements) is left out; the order of
  the children and the conditions under which they are rendered are the code's.

  \<^item> \<open>Click b\<close> is a click on an enabled button (or the submission of its form, which the
    browser blocks while the submit button is disabled).
  \<^item> \<open>Edit f s\<close> is the \<open>onChange\<close> of an input, textarea or select with the new value \<open>s\<close>; a
    select only offers its options.
  \<^item> \<open>Toggle f\<close> is the \<open>onChange\<close> of a checkbox or radio button.
\<close>

datatype ('b, 'f) action = Click 'b | Edit 'f string | Toggle 'f

datatype ('b, 'f) view =
    Txt string
  | Box "('b, 'f) view list"
  | Button 'b bool "('b, 'f) view list"
  | Input 'f bool string
  | Choice 'f bool string "string list"
  | Check 'f bool bool
  | Link string "('b, 'f) view list"

text \<open>\<open>{cond && <X/>}\<close>\<close>

definition cond :: "bool \<Rightarrow> ('b, 'f) view \<Rightarrow> ('b, 'f) view" where
  "cond c v = (if c then v else Box [])"

fun opt_text :: "string option \<Rightarrow> ('b, 'f) view" where
  "opt_text None = Box []"
| "opt_text (Some s) = Txt s"

text \<open>\<open>{error && <div>{error}</div>}\<close>: an empty message renders nothing.\<close>

definition error_box :: "string option \<Rightarrow> ('b, 'f) view" where
  "error_box e = (case e of Some m \<Rightarrow> cond (m \<noteq> []) (Box [Txt m]) | None \<Rightarrow> Box [])"

fun offers :: "('b, 'f) view \<Rightarrow> ('b, 'f) action \<Rightarrow> bool" where
  "offers (Txt s) a = False"
| "offers (Box vs) a = list_ex (\<lambda>v. offers v a) vs"
| "offers (Button b dis vs) a = (\<not> dis \<and> a = Click b)"
| "offers (Input f dis s) a = (\<not> dis \<and> (case a of Edit g t \<Rightarrow> f = g | _ \<Rightarrow> False))"
| "offers (Choice f dis s opts) a = (\<not> dis \<and> (case a of Edit g t \<Rightarrow> f = g \<and> t \<in> set opts | _ \<Rightarrow> False))"
| "offers (Check f dis c) a = (\<not> dis \<and> a = Toggle f)"
| "offers (Link p vs) a = False"

fun texts :: "('b, 'f) view \<Rightarrow> string list" where
  "texts (Txt s) = [s]"
| "texts (Box vs) = concat (map texts vs)"
| "texts (Button b dis vs) = concat (map texts vs)"
| "texts (Input f dis s) = []"
| "texts (Choice f dis s opts) = []"
| "texts (Check f dis c) = []"
| "texts (Link p vs) = concat (map texts vs)"

fun links :: "('b, 'f) view \<Rightarrow> string list" where
  "links (Link p vs) = [p]"
| "links (Box vs) = concat (map links vs)"
| "links _ = []"

text \<open>The controls that show a text, with the text they show.\<close>

fun shown_fields :: "('b, 'f) view \<Rightarrow> ('f \<times> string) list" where
  "shown_fields (Box vs) = concat (map shown_fields vs)"
| "shown_fields (Input f dis s) = [(f, s)]"
| "shown_fields (Choice f dis s opts) = [(f, s)]"
| "shown_fields _ = []"

text \<open>The tick boxes, and whether each is ticked.\<close>

fun tick_boxes :: "('b, 'f) view \<Rightarrow> ('f \<times> bool) list" where
  "tick_boxes (Box vs) = concat (map tick_boxes vs)"
| "tick_boxes (Check f dis c) = [(f, c)]"
| "tick_boxes _ = []"

definition displays :: "('b, 'f) view \<Rightarrow> string \<Rightarrow> bool" where
  "displays v s \<longleftrightarrow> s \<in> set (texts v)"

lemma offers_cond [simp]: "offers (cond c v) a = (c \<and> offers v a)"
  by (simp add: cond_def)

lemma texts_cond [simp]: "texts (cond c v) = (if c then texts v else [])"
  by (simp add: cond_def)

lemma shown_fields_cond [simp]: "shown_fields (cond c v) = (if c then shown_fields v else [])"
  by (simp add: cond_def)

lemma tick_boxes_cond [simp]: "tick_boxes (cond c v) = (if c then tick_boxes v else [])"
  by (simp add: cond_def)

lemma tick_boxes_error_box [simp]: "tick_boxes (error_box e) = []"
  by (simp add: error_box_def split: option.splits)

lemma shown_fields_error_box [simp]: "shown_fields (error_box e) = []"
  by (simp add: error_box_def split: option.splits)

lemma offers_opt_text [simp]: "\<not> offers (opt_text o') a"
  by (cases o') simp_all

lemma offers_error_box [simp]: "\<not> offers (error_box e) a"
  by (simp add: error_box_def split: option.splits)

lemma texts_error_box: "texts (error_box e) = (case e of Some m \<Rightarrow> if m = [] then [] else [m] | None \<Rightarrow> [])"
  by (simp add: error_box_def split: option.splits)

lemma offers_map: "offers (Box (map h xs)) a = (\<exists>x \<in> set xs. offers (h x) a)"
  by (simp add: list_ex_iff)

lemma links_cond [simp]: "links (cond c v) = (if c then links v else [])"
  by (simp add: cond_def)

text \<open>A child component's view inside its parent's: its actions are renamed.\<close>

lemma offers_Input: "offers (Input x dis s) a \<longleftrightarrow> \<not> dis \<and> (\<exists>t. a = Edit x t)"
  by (cases a) auto

lemma offers_Choice: "offers (Choice x dis s opts) a \<longleftrightarrow> \<not> dis \<and> (\<exists>t \<in> set opts. a = Edit x t)"
  by (cases a) auto

lemma offers_map_view:
  assumes "inj f" and "inj g"
  shows "offers (map_view f g v) a \<longleftrightarrow> (\<exists>a'. a = map_action f g a' \<and> offers v a')"
proof (induction v)
  case (Box vs)
  then show ?case by (auto simp: list_ex_iff)
next
  case (Button b dis vs)
  have "Click (f b) = map_action f g a' \<longleftrightarrow> a' = Click b" for a'
    using assms by (cases a') (auto dest: injD)
  then show ?case by auto
next
  case (Input x dis s)
  have "(\<exists>t. a = Edit (g x) t) \<longleftrightarrow> (\<exists>a'. a = map_action f g a' \<and> (\<exists>t. a' = Edit x t))"
    by (metis action.map(2))
  then show ?case by (simp only: view.map offers_Input) blast
next
  case (Choice x dis s opts)
  have "(\<exists>t \<in> set opts. a = Edit (g x) t) \<longleftrightarrow> (\<exists>a'. a = map_action f g a' \<and> (\<exists>t \<in> set opts. a' = Edit x t))"
    by (metis action.map(2))
  then show ?case by (simp only: view.map offers_Choice) blast
next
  case (Check x dis c)
  have "Toggle (g x) = map_action f g a' \<longleftrightarrow> a' = Toggle x" for a'
    using assms by (cases a') (auto dest: injD)
  then show ?case by auto
qed simp_all

lemma shown_fields_map_view:
  "shown_fields (map_view f g v) = map (\<lambda>(x, s). (g x, s)) (shown_fields v)"
  by (induction v) (simp_all add: map_concat o_def cong: map_cong)

section \<open>Components that only render\<close>

text \<open>\<open>components/Card.tsx\<close>\<close>

definition StatCard :: "string \<Rightarrow> ('b, 'f) view \<Rightarrow> ('b, 'f) view option \<Rightarrow> ('b, 'f) view" where
  "StatCard label val hint = Box [Box [Txt label], Box [val],
     (case hint of Some h \<Rightarrow> Box [h] | None \<Rightarrow> Box [])]"

definition SectionCard :: "string \<Rightarrow> ('b, 'f) view \<Rightarrow> ('b, 'f) view list \<Rightarrow> ('b, 'f) view" where
  "SectionCard title act children = Box (Box [Txt title, act] # children)"

text \<open>\<open>components/Badge.tsx\<close>: the classes of a badge. A status that is none of the four falls back
  to the neutral style.\<close>

definition STATUS_STYLES :: "string obj" where
  "STATUS_STYLES = [
     (''ok'', ''border-ok/30 bg-ok/10 text-ok''),
     (''error'', ''border-err/30 bg-err/10 text-err''),
     (''timeout'', ''border-warn/30 bg-warn/10 text-warn''),
     (''denied'', ''border-denied/30 bg-denied/10 text-denied'')]"

definition status_badge_class :: "string \<Rightarrow> string" where
  "status_badge_class status =
     ''badge '' @ nullish (obj_get STATUS_STYLES status) ''border-surface-600 bg-surface-700 text-slate-300''"

definition StatusBadge :: "string \<Rightarrow> ('b, 'f) view" where
  "StatusBadge status = Txt status"

datatype tone = ToneDefault | ToneOk | ToneWarn | ToneErr | ToneAccent

fun tone_class :: "tone \<Rightarrow> string" where
  "tone_class ToneDefault = ''badge border-surface-600 bg-surface-700 text-slate-300''"
| "tone_class ToneOk = ''badge border-ok/30 bg-ok/10 text-ok''"
| "tone_class ToneWarn = ''badge border-warn/30 bg-warn/10 text-warn''"
| "tone_class ToneErr = ''badge border-err/30 bg-err/10 text-err''"
| "tone_class ToneAccent = ''badge border-accent-500/40 bg-accent-500/10 text-accent-400''"

definition Badge :: "tone \<Rightarrow> ('b, 'f) view list \<Rightarrow> ('b, 'f) view" where
  "Badge tn children = Box children"

lemma offers_SectionCard [simp]:
  "offers (SectionCard t act vs) a = (offers act a \<or> (\<exists>v \<in> set vs. offers v a))"
  by (auto simp: SectionCard_def list_ex_iff)

lemma offers_StatCard [simp]:
  "offers (StatCard l v h) a = (offers v a \<or> (\<exists>w. h = Some w \<and> offers w a))"
  by (auto simp: StatCard_def split: option.splits)

lemma offers_StatusBadge [simp]: "\<not> offers (StatusBadge s) a"
  by (simp add: StatusBadge_def)

lemma offers_Badge [simp]: "offers (Badge tn vs) a = (\<exists>v \<in> set vs. offers v a)"
  by (auto simp: Badge_def list_ex_iff)

end
