(* ===== verification/LoginGate.thy ===== *)
theory LoginGate
  imports ApiClient View
begin

text \<open>
  \<open>frontend/src/components/LoginGate.tsx\<close>. The state is the component's \<open>useState\<close> variables and the
  requests that have not settled; the world around it is the browser's storage, the page's location
  and the parent's \<open>onAuthed\<close> callback (\<open>gw_authed\<close> records that it was called). A handler that
  awaits is cut at the \<open>await\<close>: its first half adds a request, its second half is the reply event.
\<close>

section \<open>State\<close>

datatype gate_req = RqProviders | RqLegacy | RqLocal string string | RqFed string

record login_gate =
  lg_providers :: "providers_response option"
  lg_email :: string
  lg_password :: string
  lg_legacyToken :: string
  lg_error :: "string option"
  lg_busy :: bool
  lg_pending :: "gate_req list"

record gate_world =
  gw_gate :: login_gate
  gw_ls :: local_storage
  gw_authed :: bool
  gw_location :: "string option"

text \<open>The mount effect asks for the providers.\<close>

definition gate_init :: login_gate where
  "gate_init = \<lparr>lg_providers = None, lg_email = [], lg_password = [], lg_legacyToken = [],
     lg_error = None, lg_busy = False, lg_pending = [RqProviders]\<rparr>"

section \<open>Requests\<close>

definition gate_request :: "local_storage \<Rightarrow> gate_req \<Rightarrow> http_request" where
  "gate_request ls q = (case q of
      RqProviders \<Rightarrow> \<lparr>rq_method = GET, rq_path = ''/admin/api/authy/providers'',
        rq_headers = [(''Accept'', ''application/json'')], rq_credentials = False, rq_body = None\<rparr>
    | RqLegacy \<Rightarrow> get_request ls ''/admin/api/config''
    | RqLocal email password \<Rightarrow> post_request ls ''/admin/api/authy/login''
        (Some (JObj [(''email'', JStr email), (''password'', JStr password)]))
    | RqFed provider \<Rightarrow> post_request ls ''/admin/api/authy/login/start''
        (Some (JObj [(''provider'', JStr provider)])))"

section \<open>What is shown\<close>

definition isLegacy :: "login_gate \<Rightarrow> bool" where
  "isLegacy g = (case lg_providers g of None \<Rightarrow> True | Some p \<Rightarrow> \<not> pr_authy_enabled p)"

definition hasLocal :: "login_gate \<Rightarrow> bool" where
  "hasLocal g = (case lg_providers g of None \<Rightarrow> False | Some p \<Rightarrow> ''local'' \<in> set (pr_providers p))"

definition federated :: "login_gate \<Rightarrow> string list" where
  "federated g = filter (\<lambda>p. p \<noteq> ''local'')
     (case lg_providers g of None \<Rightarrow> [] | Some p \<Rightarrow> pr_providers p)"

definition provider_label :: "string \<Rightarrow> string" where
  "provider_label provider =
     (if provider = ''google'' then ''Google''
      else if provider = ''m365'' then ''Microsoft 365''
      else if starts_with ''sso'' provider then ''SSO''
      else provider)"

datatype gate_btn = BtnLegacy | BtnLocal | BtnFed string
datatype gate_field = FEmail | FPassword | FLegacyToken

definition gate_view :: "login_gate \<Rightarrow> (gate_btn, gate_field) view" where
  "gate_view g = Box [
     Box [Txt ''MCPxy Admin'',
       Txt (if isLegacy g then ''Sign in with your proxy admin token'' else ''Sign in to continue'')],
     error_box (lg_error g),
     (if isLegacy g then Box [
        Txt ''Admin token'', Input FLegacyToken False (lg_legacyToken g),
        Button BtnLegacy (lg_busy g) [Txt (if lg_busy g then ''Signing in...'' else ''Sign in'')]]
      else Box [
        cond (hasLocal g) (Box [
          Txt ''Email'', Input FEmail False (lg_email g),
          Txt ''Password'', Input FPassword False (lg_password g),
          Button BtnLocal (lg_busy g) [Txt (if lg_busy g then ''Signing in...'' else ''Sign in'')]]),
        cond (hasLocal g \<and> federated g \<noteq> []) (Txt ''or''),
        Box (map (\<lambda>p. Button (BtnFed p) (lg_busy g)
          [Txt ''Sign in with'', Txt (provider_label p)]) (federated g))])]"

section \<open>Handlers\<close>

abbreviation gate_upd :: "(login_gate \<Rightarrow> login_gate) \<Rightarrow> gate_world \<Rightarrow> gate_world" where
  "gate_upd h w \<equiv> w\<lparr>gw_gate := h (gw_gate w)\<rparr>"

definition gate_send :: "gate_req \<Rightarrow> login_gate \<Rightarrow> login_gate" where
  "gate_send q g = g\<lparr>lg_pending := lg_pending g @ [q]\<rparr>"

definition gate_settle :: "gate_req \<Rightarrow> login_gate \<Rightarrow> login_gate" where
  "gate_settle q g = g\<lparr>lg_pending := remove1 q (lg_pending g)\<rparr>"

definition providers_reply :: "js_error + providers_response option \<Rightarrow> gate_world \<Rightarrow> gate_world" where
  "providers_reply r w = (case r of
      Inr (Some p) \<Rightarrow> gate_upd (\<lambda>g. g\<lparr>lg_providers := Some p\<rparr>) w
    | _ \<Rightarrow> w)"

definition submitLegacy :: "gate_world \<Rightarrow> gate_world" where
  "submitLegacy w =
     gate_upd (gate_send RqLegacy)
       (gate_upd (\<lambda>g. g\<lparr>lg_busy := True, lg_error := None\<rparr>) w)
         \<lparr>gw_ls := setToken (str_or_null (lg_legacyToken (gw_gate w))) (gw_ls w)\<rparr>"

definition legacy_reply :: "js_error + json \<Rightarrow> gate_world \<Rightarrow> gate_world" where
  "legacy_reply r w = (case r of
      Inr _ \<Rightarrow> gate_upd (\<lambda>g. g\<lparr>lg_busy := False\<rparr>) (w\<lparr>gw_authed := True\<rparr>)
    | Inl err \<Rightarrow> gate_upd (\<lambda>g. g\<lparr>lg_error := Some (error_message_or ''Failed to authenticate.'' err),
                                 lg_busy := False\<rparr>)
        (w\<lparr>gw_ls := setToken None (after_call r (gw_ls w))\<rparr>))"

definition submitLocal :: "gate_world \<Rightarrow> gate_world" where
  "submitLocal w = gate_upd (\<lambda>g. gate_send (RqLocal (lg_email g) (lg_password g))
     (g\<lparr>lg_busy := True, lg_error := None\<rparr>)) w"

definition local_reply :: "js_error + login_response \<Rightarrow> gate_world \<Rightarrow> gate_world" where
  "local_reply r w = (case r of
      Inr result \<Rightarrow>
        gate_upd (\<lambda>g. g\<lparr>lg_busy := False\<rparr>)
          (w\<lparr>gw_ls := (if lr_token result \<noteq> [] then setToken (Some (lr_token result)) (gw_ls w) else gw_ls w),
             gw_authed := True\<rparr>)
    | Inl err \<Rightarrow>
        gate_upd (\<lambda>g. g\<lparr>lg_error := Some (api_message_or ''Login failed.'' err), lg_busy := False\<rparr>)
          (w\<lparr>gw_ls := after_call r (gw_ls w)\<rparr>))"

definition startFederated :: "string \<Rightarrow> gate_world \<Rightarrow> gate_world" where
  "startFederated provider w = gate_upd (\<lambda>g. gate_send (RqFed provider)
     (g\<lparr>lg_busy := True, lg_error := None\<rparr>)) w"

definition federated_reply :: "js_error + string \<Rightarrow> gate_world \<Rightarrow> gate_world" where
  "federated_reply r w = (case r of
      Inr authorization_url \<Rightarrow> w\<lparr>gw_location := Some authorization_url\<rparr>
    | Inl err \<Rightarrow>
        gate_upd (\<lambda>g. g\<lparr>lg_error := Some (api_message_or ''Login failed.'' err), lg_busy := False\<rparr>)
          (w\<lparr>gw_ls := after_call r (gw_ls w)\<rparr>))"

fun gate_edit :: "gate_field \<Rightarrow> string \<Rightarrow> login_gate \<Rightarrow> login_gate" where
  "gate_edit FEmail v g = g\<lparr>lg_email := v\<rparr>"
| "gate_edit FPassword v g = g\<lparr>lg_password := v\<rparr>"
| "gate_edit FLegacyToken v g = g\<lparr>lg_legacyToken := v\<rparr>"

section \<open>The machine\<close>

datatype gate_event =
    GAct "(gate_btn, gate_field) action"
  | GProviders "js_error + providers_response option"
  | GLegacy "js_error + json"
  | GLocal string string "js_error + login_response"
  | GFed string "js_error + string"

fun gate_req_of :: "gate_event \<Rightarrow> gate_req option" where
  "gate_req_of (GAct a) = None"
| "gate_req_of (GProviders r) = Some RqProviders"
| "gate_req_of (GLegacy r) = Some RqLegacy"
| "gate_req_of (GLocal e p r) = Some (RqLocal e p)"
| "gate_req_of (GFed p r) = Some (RqFed p)"

fun gate_handle :: "gate_event \<Rightarrow> gate_world \<Rightarrow> gate_world" where
  "gate_handle (GAct (Click BtnLegacy)) w = submitLegacy w"
| "gate_handle (GAct (Click BtnLocal)) w = submitLocal w"
| "gate_handle (GAct (Click (BtnFed p))) w = startFederated p w"
| "gate_handle (GAct (Edit f v)) w = gate_upd (gate_edit f v) w"
| "gate_handle (GAct (Toggle f)) w = w"
| "gate_handle (GProviders r) w = providers_reply r w"
| "gate_handle (GLegacy r) w = legacy_reply r w"
| "gate_handle (GLocal e p r) w = local_reply r w"
| "gate_handle (GFed p r) w = federated_reply r w"

definition gate_enabled :: "gate_world \<Rightarrow> gate_event \<Rightarrow> bool" where
  "gate_enabled w ev = (case ev of
      GAct a \<Rightarrow> offers (gate_view (gw_gate w)) a
    | _ \<Rightarrow> (case gate_req_of ev of Some q \<Rightarrow> q \<in> set (lg_pending (gw_gate w)) | None \<Rightarrow> False))"

definition gate_step :: "gate_event \<Rightarrow> gate_world \<Rightarrow> gate_world" where
  "gate_step ev w = gate_handle ev
     (case gate_req_of ev of Some q \<Rightarrow> gate_upd (gate_settle q) w | None \<Rightarrow> w)"

definition gate_start :: "local_storage \<Rightarrow> gate_world" where
  "gate_start ls = \<lparr>gw_gate = gate_init, gw_ls = ls, gw_authed = False, gw_location = None\<rparr>"

section \<open>What can be clicked\<close>

lemma gate_click:
  "offers (gate_view g) (Click b) \<longleftrightarrow> \<not> lg_busy g \<and> (case b of
      BtnLegacy \<Rightarrow> isLegacy g
    | BtnLocal \<Rightarrow> \<not> isLegacy g \<and> hasLocal g
    | BtnFed p \<Rightarrow> \<not> isLegacy g \<and> p \<in> set (federated g))"
  by (auto simp: gate_view_def list_ex_iff split: gate_btn.splits)

lemma gate_toggle: "\<not> offers (gate_view g) (Toggle f)"
  by (auto simp: gate_view_def list_ex_iff)

lemma federated_not_local: "p \<in> set (federated g) \<Longrightarrow> p \<noteq> ''local''"
  by (simp add: federated_def)

lemmas gate_handlers =
  providers_reply_def submitLegacy_def legacy_reply_def submitLocal_def local_reply_def
  startFederated_def federated_reply_def gate_send_def gate_settle_def

section \<open>One login at a time\<close>

definition logins :: "gate_world \<Rightarrow> gate_req list" where
  "logins w = filter (\<lambda>q. q \<noteq> RqProviders) (lg_pending (gw_gate w))"

text \<open>A login in flight keeps the buttons disabled, so there is never a second one; and the form is
  only left disabled by a navigation to the identity provider.\<close>

definition gate_inv :: "gate_world \<Rightarrow> bool" where
  "gate_inv w \<longleftrightarrow>
     (lg_busy (gw_gate w) \<longrightarrow> (\<exists>q. logins w = [q]) \<or> (logins w = [] \<and> gw_location w \<noteq> None))
     \<and> (\<not> lg_busy (gw_gate w) \<longrightarrow> logins w = [])"

lemma filter_remove1: "filter P (remove1 x xs) = (if P x then remove1 x (filter P xs) else filter P xs)"
  by (induction xs) auto

lemma logins_settle [simp]:
  "logins (gate_upd (gate_settle q) w) = (if q = RqProviders then logins w else remove1 q (logins w))"
  by (simp add: logins_def gate_settle_def filter_remove1)

lemma logins_pending: "q \<in> set (lg_pending (gw_gate w)) \<Longrightarrow> q \<noteq> RqProviders \<Longrightarrow> q \<in> set (logins w)"
  by (simp add: logins_def)

lemma gate_inv_reply:
  assumes inv: "gate_inv w" and q: "q \<in> set (lg_pending (gw_gate w))" and n: "q \<noteq> RqProviders"
  shows "logins w = [q] \<and> lg_busy (gw_gate w)"
  using inv logins_pending [OF q n] by (auto simp: gate_inv_def)

lemma gate_settle_fields [simp]:
  "lg_busy (gate_settle q g) = lg_busy g" "lg_error (gate_settle q g) = lg_error g"
  "lg_email (gate_settle q g) = lg_email g" "lg_password (gate_settle q g) = lg_password g"
  "lg_legacyToken (gate_settle q g) = lg_legacyToken g"
  "lg_providers (gate_settle q g) = lg_providers g"
  by (simp_all add: gate_settle_def)

lemma gate_inv_click:
  assumes "gate_inv w" and "\<not> lg_busy (gw_gate w)"
  shows "gate_inv (gate_handle (GAct (Click b)) w)"
  using assms by (cases b) (auto simp: gate_handlers gate_inv_def logins_def)

lemma gate_inv_edit: "gate_inv w \<Longrightarrow> gate_inv (gate_handle (GAct (Edit f v)) w)"
  by (cases f) (auto simp: gate_inv_def logins_def)

lemma logins_reply [simp]:
  "logins (providers_reply rp w) = logins w" "logins (legacy_reply rl w) = logins w"
  "logins (local_reply rc w) = logins w" "logins (federated_reply rf w) = logins w"
  by (simp_all add: logins_def providers_reply_def legacy_reply_def local_reply_def federated_reply_def
      split: sum.splits option.splits)

lemma busy_reply [simp]:
  "lg_busy (gw_gate (providers_reply rp w)) = lg_busy (gw_gate w)"
  "\<not> lg_busy (gw_gate (legacy_reply rl w))" "\<not> lg_busy (gw_gate (local_reply rc w))"
  "lg_busy (gw_gate (federated_reply rf w)) = (lg_busy (gw_gate w) \<and> \<not> (\<exists>e. rf = Inl e))"
  by (simp_all add: providers_reply_def legacy_reply_def local_reply_def federated_reply_def
      split: sum.splits option.splits)

lemma location_reply [simp]:
  "gw_location (providers_reply rp w) = gw_location w"
  "gw_location (federated_reply rf w) = (case rf of Inr u \<Rightarrow> Some u | Inl e \<Rightarrow> gw_location w)"
  by (simp_all add: providers_reply_def federated_reply_def split: sum.splits option.splits)

lemma gate_inv_step:
  assumes inv: "gate_inv w" and en: "gate_enabled w ev"
  shows "gate_inv (gate_step ev w)"
proof (cases ev)
  case (GAct a)
  show ?thesis
  proof (cases a)
    case (Click b)
    then show ?thesis
      using inv en GAct gate_inv_click by (simp add: gate_enabled_def gate_step_def gate_click)
  next
    case (Edit f v)
    then show ?thesis
      using gate_inv_edit [OF inv, of f v] GAct by (simp add: gate_step_def)
  next
    case (Toggle f)
    then show ?thesis using inv GAct by (simp add: gate_step_def)
  qed
next
  case (GProviders r)
  then show ?thesis using inv by (simp add: gate_step_def gate_inv_def)
next
  case (GLegacy r)
  then have "logins w = [RqLegacy] \<and> lg_busy (gw_gate w)"
    using inv en by (intro gate_inv_reply) (simp_all add: gate_enabled_def)
  then show ?thesis using GLegacy by (simp add: gate_step_def gate_inv_def)
next
  case (GLocal e p r)
  then have "logins w = [RqLocal e p] \<and> lg_busy (gw_gate w)"
    using inv en by (intro gate_inv_reply) (simp_all add: gate_enabled_def)
  then show ?thesis using GLocal by (simp add: gate_step_def gate_inv_def)
next
  case (GFed p r)
  then have "logins w = [RqFed p] \<and> lg_busy (gw_gate w)"
    using inv en by (intro gate_inv_reply) (simp_all add: gate_enabled_def)
  then show ?thesis using GFed by (cases r) (simp_all add: gate_step_def gate_inv_def)
qed

lemma gate_inv_start: "gate_inv (gate_start ls)"
  by (simp add: gate_inv_def gate_start_def gate_init_def logins_def)

interpretation gate: machine gate_enabled gate_step "gate_start ls" gate_inv
  by unfold_locales (auto intro: gate_inv_start gate_inv_step)

section \<open>What a login leaves behind\<close>

lemma setToken_None_after_call [simp]: "setToken None (after_call r ls) = setToken None ls"
  by (auto simp: after_call_def setToken_def delete_idem split: sum.splits js_error.splits)

lemma gate_settle_world [simp]:
  "gw_ls (gate_upd h w) = gw_ls w" "gw_authed (gate_upd h w) = gw_authed w"
  by simp_all

text \<open>While the probe of a pasted token is in flight nothing else writes the storage or calls the
  parent: the form is disabled, and no other login is pending.\<close>

definition probing :: "gate_world \<Rightarrow> bool" where
  "probing w \<longleftrightarrow> logins w = [RqLegacy] \<and> lg_busy (gw_gate w)"

lemma probing_step:
  assumes p: "probing w" and en: "gate_enabled w ev" and other: "\<And>r. ev \<noteq> GLegacy r"
  shows "probing (gate_step ev w) \<and> gw_ls (gate_step ev w) = gw_ls w
    \<and> gw_authed (gate_step ev w) = gw_authed w"
proof (cases ev)
  case (GAct a)
  show ?thesis
  proof (cases a)
    case (Click b)
    then show ?thesis using p en GAct by (simp add: gate_enabled_def gate_click probing_def)
  next
    case (Edit f v)
    then show ?thesis using p GAct by (cases f) (simp_all add: gate_step_def probing_def logins_def)
  next
    case (Toggle f)
    then show ?thesis using p GAct by (simp add: gate_step_def)
  qed
next
  case (GProviders r)
  then show ?thesis
    using p by (auto simp: gate_step_def probing_def providers_reply_def logins_def gate_settle_def
        filter_remove1 split: sum.split option.split)
qed (use p en other logins_pending [of _ w] in \<open>auto simp: gate_enabled_def probing_def\<close>)

lemma probing_run:
  "run gate_enabled gate_step w es = Some v \<Longrightarrow> probing w \<Longrightarrow> (\<And>r. GLegacy r \<notin> set es) \<Longrightarrow>
   probing v \<and> gw_ls v = gw_ls w \<and> gw_authed v = gw_authed w"
proof (induction es arbitrary: w)
  case (Cons ev es)
  have "\<And>r. ev \<noteq> GLegacy r" using Cons.prems(3) by fastforce
  moreover have "gate_enabled w ev" "run gate_enabled gate_step (gate_step ev w) es = Some v"
    using Cons.prems(1) by (simp_all split: if_splits)
  ultimately show ?case using probing_step [OF Cons.prems(2)] Cons.IH Cons.prems(3) by fastforce
qed simp

lemma submitLegacy_probing:
  "gate_inv w \<Longrightarrow> \<not> lg_busy (gw_gate w) \<Longrightarrow> probing (submitLegacy w)"
  by (simp add: submitLegacy_def probing_def logins_def gate_send_def gate_inv_def)

lemma getToken_pasted:
  "\<not> ls_blocked ls \<Longrightarrow> \<not> ls_full ls \<Longrightarrow> getToken (setToken (str_or_null t) ls) = str_or_null t"
  by (simp add: str_or_null_def getToken_setToken_Some)



text \<open>C14: In every state the login form can reach, at most one login request is in flight: a login
  button that can be clicked means that none is, and while the form is disabled either exactly one is
  or the browser is being sent to an identity provider.\<close>

theorem login_single_flight:
  assumes "reachable gate_enabled gate_step (gate_start ls) w"
  shows "(lg_busy (gw_gate w) \<longrightarrow> (\<exists>q. logins w = [q]) \<or> gw_location w \<noteq> None)
    \<and> (offers (gate_view (gw_gate w)) (Click b) \<longrightarrow> logins w = [])"
  using gate.reachable_inv [OF assms] by (auto simp: gate_inv_def gate_click)

theorem login_single_flight_witness:
  "\<exists>w. reachable gate_enabled gate_step (gate_start \<lparr>ls_items = [], ls_blocked = False, ls_full = False\<rparr>) w
     \<and> lg_busy (gw_gate w) \<and> ((\<exists>q. logins w = [q]) \<or> gw_location w \<noteq> None)"
proof -
  let ?s = "gate_start \<lparr>ls_items = [], ls_blocked = False, ls_full = False\<rparr>"
  let ?w = "gate_step (GAct (Click BtnLegacy)) ?s"
  have "gate_enabled ?s (GAct (Click BtnLegacy))" by code_simp
  then have r: "reachable gate_enabled gate_step ?s ?w" by (intro reachable.step reachable.start)
  moreover have "lg_busy (gw_gate ?w)" by code_simp
  ultimately show ?thesis using login_single_flight [OF r] by blast
qed

end
