(* ===== verification/AppShell.thy ===== *)
theory AppShell
  imports LoginGate
begin

text \<open>
  \<open>frontend/src/App.tsx\<close> and \<open>components/Sidebar.tsx\<close>: which screen the dashboard shows, and the
  authentication behind it. The state holds \<open>App\<close>'s \<open>useState\<close> variables, the requests in flight,
  the mounted \<open>LoginGate\<close> (with the requests a gate left behind when it was unmounted) and the
  browser's storage. \<open>ap_run\<close> numbers the runs of the \<open>[authed]\<close> effect: a reply to an earlier run
  finds its \<open>cancelled\<close> flag set. Effects run after the state changes of an event (\<open>commit\<close>); the
  application itself is never unmounted, and the double mount of React's development mode is not
  modelled. The wizard and the pages are machines of their own theories; here they only appear
  through what they do to the storage and the callbacks they make.
\<close>

section \<open>State\<close>

datatype app_req = AqStatus | AqCookieMe | AqMe nat | AqProbe nat | AqLogout

record app =
  ap_onboarding :: "onboarding_status option"
  ap_resolved :: bool
  ap_authed :: bool
  ap_checking :: bool
  ap_me :: "me_response option"
  ap_run :: nat
  ap_pending :: "app_req list"
  ap_gate :: login_gate
  ap_stale :: "gate_req list"
  ap_ls :: local_storage
  ap_location :: "string option"

definition idle_gate :: login_gate where
  "idle_gate = gate_init\<lparr>lg_pending := []\<rparr>"

text \<open>The state after the two mount effects: the first asks for the onboarding status, the second
  finds \<open>authed\<close> false.\<close>

definition app_mount :: "local_storage \<Rightarrow> app" where
  "app_mount ls = \<lparr>ap_onboarding = None, ap_resolved = False, ap_authed = False, ap_checking = False,
     ap_me = None, ap_run = 1, ap_pending = [AqStatus], ap_gate = idle_gate, ap_stale = [],
     ap_ls = ls, ap_location = None\<rparr>"

section \<open>Screens, routes and the sidebar\<close>

datatype screen = ScConnecting | ScOnboarding onboarding_status | ScLogin | ScChecking | ScDashboard bool

definition isAdmin :: "app \<Rightarrow> bool" where
  "isAdmin s = (case ap_me s of Some m \<Rightarrow> me_role m = ''admin'' | None \<Rightarrow> False)"

definition needs_onboarding :: "app \<Rightarrow> bool" where
  "needs_onboarding s = (case ap_onboarding s of Some b \<Rightarrow> os_required b | None \<Rightarrow> False)"

definition screen_of :: "app \<Rightarrow> screen" where
  "screen_of s =
     (if \<not> ap_resolved s then ScConnecting
      else if needs_onboarding s then ScOnboarding (the (ap_onboarding s))
      else if \<not> ap_authed s then ScLogin
      else if ap_checking s then ScChecking
      else ScDashboard (isAdmin s))"

datatype page = PgOverview | PgRoutes | PgGraph | PgTraffic | PgPolicies | PgConnect | PgBrowse
  | PgImport | PgLogs | PgConfig | PgTokens | PgUsers | PgTokenMappings

definition page_routes :: "bool \<Rightarrow> page obj" where
  "page_routes admin =
     [(''/overview'', PgOverview), (''/routes'', PgRoutes), (''/graph'', PgGraph),
      (''/traffic'', PgTraffic), (''/policies'', PgPolicies), (''/connect'', PgConnect),
      (''/browse'', PgBrowse), (''/import'', PgImport), (''/logs'', PgLogs), (''/config'', PgConfig),
      (''/tokens'', PgTokens)]
     @ (if admin then [(''/users'', PgUsers)] else [])
     @ (if admin then [(''/token-mappings'', PgTokenMappings)] else [])"

text \<open>The page behind a path; \<open>/\<close> and every other path navigate to \<open>/overview\<close>.\<close>

definition route_page :: "bool \<Rightarrow> string \<Rightarrow> page" where
  "route_page admin path = nullish (obj_get (page_routes admin) path)
     (nullish (obj_get (page_routes admin) ''/overview'') PgOverview)"

definition sidebar_items :: "(string \<times> string) list" where
  "sidebar_items = [(''/overview'', ''Overview''), (''/routes'', ''Routes''), (''/graph'', ''Graph''),
     (''/traffic'', ''Traffic''), (''/policies'', ''Policies''), (''/browse'', ''Browse''),
     (''/import'', ''Import''), (''/connect'', ''Connect''), (''/logs'', ''Logs''),
     (''/config'', ''Config''), (''/tokens'', ''Tokens'')]"

definition adminItems :: "(string \<times> string) list" where
  "adminItems = [(''/users'', ''Users''), (''/token-mappings'', ''Token Mappings'')]"

datatype sidebar_btn = BtnSignOut

definition Sidebar :: "bool \<Rightarrow> (sidebar_btn, unit) view" where
  "Sidebar admin = Box [
     Box [Txt ''M'', Txt ''MCPxy'', Txt ''Admin''],
     Box (map (\<lambda>(path, label). Link path [Txt label]) sidebar_items),
     cond admin (Box (map (\<lambda>(path, label). Link path [Txt label]) adminItems)),
     Button BtnSignOut False [Txt ''Sign out'']]"

section \<open>Handlers\<close>

definition app_send :: "app_req \<Rightarrow> app \<Rightarrow> app" where
  "app_send q s = s\<lparr>ap_pending := ap_pending s @ [q]\<rparr>"

definition app_settle :: "app_req \<Rightarrow> app \<Rightarrow> app" where
  "app_settle q s = s\<lparr>ap_pending := remove1 q (ap_pending s)\<rparr>"

definition status_reply :: "js_error + onboarding_status option \<Rightarrow> app \<Rightarrow> app" where
  "status_reply r s = (case r of
      Inr body \<Rightarrow>
        let s1 = s\<lparr>ap_onboarding := body, ap_resolved := True\<rparr>
        in if (case body of None \<Rightarrow> True | Some b \<Rightarrow> \<not> os_required b)
           then (if have_token (ap_ls s) then s1\<lparr>ap_authed := True, ap_checking := True\<rparr>
                 else app_send AqCookieMe s1)
           else s1
    | Inl _ \<Rightarrow> s\<lparr>ap_resolved := True, ap_authed := have_token (ap_ls s),
                ap_checking := have_token (ap_ls s)\<rparr>)"

definition cookie_me_reply :: "js_error + me_response \<Rightarrow> app \<Rightarrow> app" where
  "cookie_me_reply r s =
     (let s1 = s\<lparr>ap_ls := after_call r (ap_ls s)\<rparr>
      in case r of
        Inr data \<Rightarrow> s1\<lparr>ap_me := Some data, ap_authed := True, ap_checking := False\<rparr>
      | Inl _ \<Rightarrow> s1\<lparr>ap_authed := False, ap_checking := False\<rparr>)"

definition legacy_me :: me_response where
  "legacy_me = \<lparr>me_user_id = -1, me_email = ''admin'', me_role = ''admin'', me_provider = ''legacy'',
     me_auth_mode = ''legacy''\<rparr>"

definition me_reply :: "nat \<Rightarrow> js_error + me_response \<Rightarrow> app \<Rightarrow> app" where
  "me_reply n r s =
     (let s1 = s\<lparr>ap_ls := after_call r (ap_ls s)\<rparr>
      in if n \<noteq> ap_run s then s1
         else case r of
           Inr data \<Rightarrow> s1\<lparr>ap_me := Some data, ap_checking := False\<rparr>
         | Inl _ \<Rightarrow> app_send (AqProbe n) s1)"

definition probe_reply :: "nat \<Rightarrow> js_error + json \<Rightarrow> app \<Rightarrow> app" where
  "probe_reply n r s =
     (let s1 = s\<lparr>ap_ls := after_call r (ap_ls s)\<rparr>
      in if n \<noteq> ap_run s then s1
         else case r of
           Inr _ \<Rightarrow> s1\<lparr>ap_me := Some legacy_me, ap_checking := False\<rparr>
         | Inl _ \<Rightarrow> s1\<lparr>ap_authed := False, ap_checking := False\<rparr>)"

definition onComplete :: "onboarding_status \<Rightarrow> app \<Rightarrow> app" where
  "onComplete onboarding s = s\<lparr>
     ap_onboarding := Some (onboarding\<lparr>os_required := False, os_completed := True, os_active := False\<rparr>),
     ap_authed := have_token (ap_ls s), ap_checking := have_token (ap_ls s)\<rparr>"

definition onAuthed :: "app \<Rightarrow> app" where
  "onAuthed s = s\<lparr>ap_authed := True\<rparr>"

text \<open>\<open>logout().then(onSignOut)\<close>: the reply to the logout call, whatever it is, clears the token.\<close>

definition logout_reply :: "js_error + json \<Rightarrow> app \<Rightarrow> app" where
  "logout_reply r s = s\<lparr>ap_ls := setToken None (after_call r (ap_ls s)), ap_authed := False\<rparr>"

text \<open>The \<open>[authed]\<close> effect.\<close>

definition auth_effect :: "app \<Rightarrow> app" where
  "auth_effect s =
     (if \<not> ap_authed s then s\<lparr>ap_checking := False, ap_me := None, ap_run := Suc (ap_run s)\<rparr>
      else app_send (AqMe (Suc (ap_run s))) (s\<lparr>ap_run := Suc (ap_run s)\<rparr>))"

section \<open>The machine\<close>

text \<open>The gate is mounted exactly while its screen is shown. Unmounting forgets its state but not its
  requests: their replies can still write the token, the location and call \<open>onAuthed\<close>.\<close>

definition gate_mounted :: "app \<Rightarrow> bool" where
  "gate_mounted s \<longleftrightarrow> screen_of s = ScLogin"

definition remount :: "app \<Rightarrow> app \<Rightarrow> app" where
  "remount before s =
     (if gate_mounted before \<and> \<not> gate_mounted s
      then s\<lparr>ap_stale := ap_stale s @ lg_pending (ap_gate s), ap_gate := idle_gate\<rparr>
      else if \<not> gate_mounted before \<and> gate_mounted s then s\<lparr>ap_gate := gate_init\<rparr>
      else s)"

definition commit :: "app \<Rightarrow> app \<Rightarrow> app" where
  "commit before s = remount before (if ap_authed before \<noteq> ap_authed s then auth_effect s else s)"

definition with_gate :: "(gate_world \<Rightarrow> gate_world) \<Rightarrow> login_gate \<Rightarrow> app \<Rightarrow> app \<times> login_gate" where
  "with_gate h g s =
     (let w = h \<lparr>gw_gate = g, gw_ls = ap_ls s, gw_authed = False, gw_location = ap_location s\<rparr>;
          s1 = s\<lparr>ap_ls := gw_ls w, ap_location := gw_location w\<rparr>
      in (if gw_authed w then onAuthed s1 else s1, gw_gate w))"

datatype app_event =
    EStatus "js_error + onboarding_status option"
  | ECookieMe "js_error + me_response"
  | EMe nat "js_error + me_response"
  | EProbe nat "js_error + json"
  | ESignOut
  | ELogout "js_error + json"
  | EGate gate_event
  | EStale gate_event
  | EWizardToken string
  | EWizardDone
  | EPageReply "js_error + json"

fun app_req_of :: "app_event \<Rightarrow> app_req option" where
  "app_req_of (EStatus r) = Some AqStatus"
| "app_req_of (ECookieMe r) = Some AqCookieMe"
| "app_req_of (EMe n r) = Some (AqMe n)"
| "app_req_of (EProbe n r) = Some (AqProbe n)"
| "app_req_of (ELogout r) = Some AqLogout"
| "app_req_of _ = None"

fun app_handle :: "app_event \<Rightarrow> app \<Rightarrow> app" where
  "app_handle (EStatus r) s = status_reply r s"
| "app_handle (ECookieMe r) s = cookie_me_reply r s"
| "app_handle (EMe n r) s = me_reply n r s"
| "app_handle (EProbe n r) s = probe_reply n r s"
| "app_handle ESignOut s = app_send AqLogout s"
| "app_handle (ELogout r) s = logout_reply r s"
| "app_handle (EGate ev) s =
     (let (s', g) = with_gate (gate_step ev) (ap_gate s) s in s'\<lparr>ap_gate := g\<rparr>)"
| "app_handle (EStale ev) s =
     (let (s', g) = with_gate (gate_step ev) idle_gate s
      in s'\<lparr>ap_stale := (case gate_req_of ev of Some q \<Rightarrow> remove1 q (ap_stale s) | None \<Rightarrow> ap_stale s)\<rparr>)"
| "app_handle (EWizardToken t) s = s\<lparr>ap_ls := setToken (Some t) (ap_ls s)\<rparr>"
| "app_handle EWizardDone s = (case ap_onboarding s of Some b \<Rightarrow> onComplete b s | None \<Rightarrow> s)"
| "app_handle (EPageReply r) s = s\<lparr>ap_ls := after_call r (ap_ls s)\<rparr>"

definition app_enabled :: "app \<Rightarrow> app_event \<Rightarrow> bool" where
  "app_enabled s ev = (case ev of
      EGate e \<Rightarrow> gate_mounted s
        \<and> gate_enabled \<lparr>gw_gate = ap_gate s, gw_ls = ap_ls s, gw_authed = False, gw_location = ap_location s\<rparr> e
    | EStale e \<Rightarrow> (case gate_req_of e of Some q \<Rightarrow> q \<in> set (ap_stale s) | None \<Rightarrow> False)
    | EWizardToken t \<Rightarrow> (case screen_of s of ScOnboarding b \<Rightarrow> True | _ \<Rightarrow> False)
    | EWizardDone \<Rightarrow> (case screen_of s of ScOnboarding b \<Rightarrow> True | _ \<Rightarrow> False)
    | ESignOut \<Rightarrow> (case screen_of s of ScDashboard a \<Rightarrow> offers (Sidebar a) (Click BtnSignOut) | _ \<Rightarrow> False)
    | EPageReply r \<Rightarrow> (case screen_of s of ScDashboard a \<Rightarrow> True | _ \<Rightarrow> False)
    | _ \<Rightarrow> (case app_req_of ev of Some q \<Rightarrow> q \<in> set (ap_pending s) | None \<Rightarrow> False))"

definition app_step :: "app_event \<Rightarrow> app \<Rightarrow> app" where
  "app_step ev s = commit s (app_handle ev (case app_req_of ev of Some q \<Rightarrow> app_settle q s | None \<Rightarrow> s))"

section \<open>The current check\<close>

text \<open>\<open>checking\<close> is only true while the current run of the effect has a request in flight, so the
  "Connecting" screen always has a reply coming that ends it; a stored identity is only kept while
  the user is signed in; and nothing but the wizard is reachable before onboarding is over.\<close>

definition check_pending :: "app \<Rightarrow> bool" where
  "check_pending s \<longleftrightarrow> AqMe (ap_run s) \<in> set (ap_pending s) \<or> AqProbe (ap_run s) \<in> set (ap_pending s)"

definition checks :: "app \<Rightarrow> nat set" where
  "checks s = {n. AqMe n \<in> set (ap_pending s) \<or> AqProbe n \<in> set (ap_pending s)}"

definition auth_inv :: "app \<Rightarrow> bool" where
  "auth_inv s \<longleftrightarrow> (ap_checking s \<longrightarrow> ap_authed s \<and> check_pending s) \<and> (ap_me s \<noteq> None \<longrightarrow> ap_authed s)
     \<and> (\<forall>n \<in> checks s. n \<le> ap_run s \<and> (n = ap_run s \<longrightarrow> ap_authed s))"

definition quiet :: "app \<Rightarrow> bool" where
  "quiet s \<longleftrightarrow> \<not> ap_authed s \<and> ap_stale s = []"

definition app_inv :: "app \<Rightarrow> bool" where
  "app_inv s \<longleftrightarrow> auth_inv s
     \<and> (AqStatus \<in> set (ap_pending s) \<longrightarrow>
          ap_pending s = [AqStatus] \<and> \<not> ap_resolved s \<and> ap_onboarding s = None \<and> quiet s)
     \<and> (needs_onboarding s \<longrightarrow> ap_resolved s \<and> ap_pending s = [] \<and> quiet s)"

lemma app_inv_mount: "app_inv (app_mount ls)"
  by (simp add: app_inv_def auth_inv_def quiet_def checks_def app_mount_def check_pending_def
      needs_onboarding_def)

lemmas inv_defs = app_inv_def auth_inv_def quiet_def checks_def check_pending_def

text \<open>Only the fields of the check matter for \<open>auth_inv\<close>.\<close>

lemma auth_inv_cong:
  "ap_checking s = ap_checking t \<Longrightarrow> ap_authed s = ap_authed t \<Longrightarrow> ap_me s = ap_me t \<Longrightarrow>
   ap_run s = ap_run t \<Longrightarrow> ap_pending s = ap_pending t \<Longrightarrow> auth_inv s = auth_inv t"
  by (simp add: auth_inv_def checks_def check_pending_def)

lemma remount_fields [simp]:
  "ap_checking (remount b s) = ap_checking s" "ap_authed (remount b s) = ap_authed s"
  "ap_me (remount b s) = ap_me s" "ap_run (remount b s) = ap_run s"
  "ap_pending (remount b s) = ap_pending s" "ap_onboarding (remount b s) = ap_onboarding s"
  "ap_resolved (remount b s) = ap_resolved s" "ap_ls (remount b s) = ap_ls s"
  by (simp_all add: remount_def)

lemma auth_effect_fields [simp]:
  "ap_authed (auth_effect s) = ap_authed s" "ap_onboarding (auth_effect s) = ap_onboarding s"
  "ap_resolved (auth_effect s) = ap_resolved s" "ap_ls (auth_effect s) = ap_ls s"
  "ap_stale (auth_effect s) = ap_stale s"
  by (simp_all add: auth_effect_def app_send_def)

lemma needs_cong: "ap_onboarding s = ap_onboarding t \<Longrightarrow> needs_onboarding s = needs_onboarding t"
  by (simp add: needs_onboarding_def)

lemma auth_inv_effect: "\<forall>n \<in> checks s. n \<le> ap_run s \<Longrightarrow> auth_inv (auth_effect s)"
  by (auto simp: auth_effect_def app_send_def inv_defs)

lemma commit_auth_inv:
  assumes "\<forall>n \<in> checks s. n \<le> ap_run s"
    and "ap_authed b = ap_authed s \<Longrightarrow> auth_inv s"
  shows "auth_inv (commit b s)"
proof -
  have "auth_inv (if ap_authed b \<noteq> ap_authed s then auth_effect s else s)"
    using assms auth_inv_effect by auto
  then show ?thesis
    unfolding commit_def by (subst auth_inv_cong [where t = "if ap_authed b \<noteq> ap_authed s then auth_effect s else s"]) simp_all
qed

lemma commit_inv:
  assumes "\<forall>n \<in> checks s. n \<le> ap_run s" and "ap_authed b = ap_authed s \<Longrightarrow> auth_inv s"
    and "AqStatus \<notin> set (ap_pending s)"
    and "needs_onboarding s \<Longrightarrow> ap_resolved s \<and> ap_pending s = [] \<and> quiet s \<and> \<not> ap_authed b \<and> \<not> gate_mounted b"
  shows "app_inv (commit b s)"
proof -
  have n: "needs_onboarding (commit b s) = needs_onboarding s"
    by (rule needs_cong) (simp add: commit_def)
  have "AqStatus \<notin> set (ap_pending (commit b s))"
    using assms(3) by (auto simp: commit_def auth_effect_def app_send_def)
  moreover have "commit b s = remount b s" if "needs_onboarding s"
    using assms(4) [OF that] by (simp add: commit_def quiet_def)
  moreover have "ap_stale (remount b s) = ap_stale s" if "needs_onboarding s"
    using assms(4) [OF that] by (simp add: remount_def)
  ultimately show ?thesis
    using commit_auth_inv [OF assms(1,2)] assms(4) n by (auto simp: app_inv_def quiet_def)
qed

lemma with_gate_fields:
  "ap_onboarding (fst (with_gate h g s)) = ap_onboarding s" "ap_resolved (fst (with_gate h g s)) = ap_resolved s"
  "ap_me (fst (with_gate h g s)) = ap_me s" "ap_run (fst (with_gate h g s)) = ap_run s"
  "ap_pending (fst (with_gate h g s)) = ap_pending s" "ap_checking (fst (with_gate h g s)) = ap_checking s"
  "ap_stale (fst (with_gate h g s)) = ap_stale s"
  by (simp_all add: with_gate_def Let_def onAuthed_def)

lemma app_inv_signal:
  assumes inv: "app_inv s" and st: "AqStatus \<notin> set (ap_pending s)" and no: "\<not> needs_onboarding s"
    and same: "ap_onboarding t = ap_onboarding s" "ap_me t = ap_me s" "ap_run t = ap_run s"
      "ap_checking t = ap_checking s"
    and pend: "checks t = checks s" "check_pending t = check_pending s" "AqStatus \<notin> set (ap_pending t)"
  shows "app_inv (commit s t)"
proof (rule commit_inv)
  show "\<forall>n \<in> checks t. n \<le> ap_run t"
    using inv pend same by (auto simp: app_inv_def auth_inv_def)
  show "auth_inv t" if "ap_authed s = ap_authed t"
    using inv that pend same by (simp add: app_inv_def auth_inv_def)
  show "AqStatus \<notin> set (ap_pending t)" by (rule pend)
  show "ap_resolved t \<and> ap_pending t = [] \<and> quiet t \<and> \<not> ap_authed s \<and> \<not> gate_mounted s"
    if "needs_onboarding t"
    using that no needs_cong [OF same(1)] by simp
qed

lemma gate_mounted_iff:
  "gate_mounted s \<longleftrightarrow> ap_resolved s \<and> \<not> needs_onboarding s \<and> \<not> ap_authed s"
  by (simp add: gate_mounted_def screen_of_def)

lemma status_not_pending:
  assumes "app_inv s" and "ap_resolved s \<or> ap_stale s \<noteq> [] \<or> ap_pending s \<noteq> [AqStatus]"
  shows "AqStatus \<notin> set (ap_pending s)"
  using assms by (auto simp: app_inv_def quiet_def)

lemma app_inv_gate:
  assumes inv: "app_inv s" and en: "app_enabled s (EGate ev)"
  shows "app_inv (app_step (EGate ev) s)"
proof -
  have m: "gate_mounted s" using en by (simp add: app_enabled_def)
  have st: "AqStatus \<notin> set (ap_pending s)"
    using m by (intro status_not_pending [OF inv]) (simp add: gate_mounted_iff)
  let ?t = "(fst (with_gate (gate_step ev) (ap_gate s) s))\<lparr>ap_gate := snd (with_gate (gate_step ev) (ap_gate s) s)\<rparr>"
  have "app_inv (commit s ?t)"
    using m by (intro app_inv_signal [OF inv st])
      (simp_all add: with_gate_fields gate_mounted_iff checks_def check_pending_def st)
  then show ?thesis by (simp add: app_step_def case_prod_unfold Let_def)
qed

lemma app_inv_stale:
  assumes inv: "app_inv s" and en: "app_enabled s (EStale ev)"
  shows "app_inv (app_step (EStale ev) s)"
proof -
  have m: "ap_stale s \<noteq> []" using en by (auto simp: app_enabled_def split: option.splits)
  have st: "AqStatus \<notin> set (ap_pending s)"
    using m by (intro status_not_pending [OF inv]) simp
  have no: "\<not> needs_onboarding s" using inv m by (auto simp: app_inv_def quiet_def)
  let ?t = "(fst (with_gate (gate_step ev) idle_gate s))
    \<lparr>ap_stale := (case gate_req_of ev of Some q \<Rightarrow> remove1 q (ap_stale s) | None \<Rightarrow> ap_stale s)\<rparr>"
  have "app_inv (commit s ?t)"
    using m by (intro app_inv_signal [OF inv st no])
      (simp_all add: with_gate_fields checks_def check_pending_def st)
  then show ?thesis by (simp add: app_step_def case_prod_unfold Let_def)
qed

text \<open>A reply to one of the application's own requests other than the status.\<close>

lemma reply_facts:
  assumes inv: "app_inv s" and q: "q \<in> set (ap_pending s)" and ns: "q \<noteq> AqStatus"
  shows "AqStatus \<notin> set (ap_pending s)" "\<not> needs_onboarding s" "AqStatus \<notin> set (remove1 q (ap_pending s))"
    and "checks (app_settle q s) \<subseteq> checks s"
proof -
  show a: "AqStatus \<notin> set (ap_pending s)" using inv q ns by (auto simp: app_inv_def)
  show "\<not> needs_onboarding s" using inv q by (auto simp: app_inv_def)
  show "AqStatus \<notin> set (remove1 q (ap_pending s))" using a notin_set_remove1 by metis
  show "checks (app_settle q s) \<subseteq> checks s"
    using set_remove1_subset [of q "ap_pending s"] by (auto simp: checks_def app_settle_def)
qed

lemma app_inv_reply:
  assumes inv: "app_inv s" and q: "q \<in> set (ap_pending s)" and ns: "q \<noteq> AqStatus"
    and ob: "ap_onboarding t = ap_onboarding s"
    and run: "ap_run t = ap_run s"
    and pend: "ap_pending t = remove1 q (ap_pending s) \<or> (\<exists>n \<in> checks s. ap_pending t = remove1 q (ap_pending s) @ [AqProbe n])"
    and keep: "ap_authed s = ap_authed t \<Longrightarrow> (ap_checking t \<longrightarrow> ap_authed t \<and> check_pending t) \<and> (ap_me t \<noteq> None \<longrightarrow> ap_authed t)"
  shows "app_inv (commit s t)"
proof -
  have sub: "checks t \<subseteq> checks s"
    using pend set_remove1_subset [of q "ap_pending s"] by (auto simp: checks_def)
  show ?thesis
  proof (rule commit_inv)
    show "\<forall>n \<in> checks t. n \<le> ap_run t"
      using inv sub run by (auto simp: app_inv_def auth_inv_def)
    show "auth_inv t" if "ap_authed s = ap_authed t"
      using keep [OF that] inv sub run that by (auto simp: app_inv_def auth_inv_def)
    show "AqStatus \<notin> set (ap_pending t)" using pend reply_facts(3) [OF inv q ns] by auto
    show "ap_resolved t \<and> ap_pending t = [] \<and> quiet t \<and> \<not> ap_authed s \<and> \<not> gate_mounted s" if "needs_onboarding t"
      using that needs_cong [OF ob] reply_facts(2) [OF inv q ns] by simp
  qed
qed

lemma app_inv_status:
  assumes inv: "app_inv s" and q: "AqStatus \<in> set (ap_pending s)"
  shows "app_inv (app_step (EStatus r) s)"
proof -
  have f: "ap_pending s = [AqStatus]" "\<not> ap_resolved s" "\<not> ap_authed s" "ap_onboarding s = None" "ap_stale s = []"
    "\<not> ap_checking s" "ap_me s = None"
    using inv q by (auto simp: app_inv_def auth_inv_def quiet_def)
  have "app_inv (commit s (status_reply r (app_settle AqStatus s)))"
    by (rule commit_inv)
      (use f in \<open>auto simp: status_reply_def app_settle_def app_send_def inv_defs needs_onboarding_def
        gate_mounted_iff Let_def split: sum.splits option.splits if_splits\<close>)
  then show ?thesis by (simp add: app_step_def)
qed

lemma check_pending_settle:
  "q \<noteq> AqMe (ap_run s) \<Longrightarrow> q \<noteq> AqProbe (ap_run s) \<Longrightarrow>
   check_pending (app_settle q s) = check_pending s"
  by (simp add: check_pending_def app_settle_def)

lemma app_inv_own_reply:
  assumes inv: "app_inv s" and en: "app_enabled s ev" and q: "app_req_of ev = Some q" and ns: "q \<noteq> AqStatus"
  shows "app_inv (app_step ev s)"
proof -
  have p: "q \<in> set (ap_pending s)" using en q by (cases ev) (auto simp: app_enabled_def)
  have auth: "(ap_checking s \<longrightarrow> ap_authed s \<and> check_pending s) \<and> (ap_me s \<noteq> None \<longrightarrow> ap_authed s)"
    and cur: "\<And>n. n \<in> checks s \<Longrightarrow> n = ap_run s \<Longrightarrow> ap_authed s"
    using inv by (auto simp: app_inv_def auth_inv_def)
  let ?t = "app_handle ev (app_settle q s)"
  have "app_inv (commit s ?t)"
  proof (rule app_inv_reply [OF inv p ns])
    show "ap_onboarding ?t = ap_onboarding s" "ap_run ?t = ap_run s"
      using q ns by (cases ev; auto simp: cookie_me_reply_def me_reply_def probe_reply_def logout_reply_def
          app_settle_def app_send_def Let_def split: sum.splits)+
    show "ap_pending ?t = remove1 q (ap_pending s)
        \<or> (\<exists>n \<in> checks s. ap_pending ?t = remove1 q (ap_pending s) @ [AqProbe n])"
      using q ns p by (cases ev) (auto simp: cookie_me_reply_def me_reply_def probe_reply_def logout_reply_def
          app_settle_def app_send_def checks_def Let_def split: sum.splits)
    show "(ap_checking ?t \<longrightarrow> ap_authed ?t \<and> check_pending ?t) \<and> (ap_me ?t \<noteq> None \<longrightarrow> ap_authed ?t)"
      if "ap_authed s = ap_authed ?t"
    proof (cases ev)
      case (EMe n r)
      have "n \<in> checks s" using p q EMe by (simp add: checks_def)
      then show ?thesis
        using auth cur [of n] EMe q by (auto simp: me_reply_def app_settle_def app_send_def check_pending_def
            Let_def split: sum.splits)
    next
      case (EProbe n r)
      have "n \<in> checks s" using p q EProbe by (simp add: checks_def)
      show ?thesis
      proof (cases "n = ap_run s")
        case True
        have a: "ap_authed s" by (rule cur [OF \<open>n \<in> checks s\<close> True])
        have "ap_authed (probe_reply n r (app_settle q s))" using that a EProbe by simp
        then have "\<not> ap_checking (probe_reply n r (app_settle q s))"
          using True by (cases r) (simp_all add: probe_reply_def app_settle_def Let_def)
        then show ?thesis using a that EProbe by simp
      next
        case False
        have "q = AqProbe n" using q EProbe by simp
        with False have "check_pending (probe_reply n r (app_settle q s)) = check_pending s"
          by (simp add: probe_reply_def check_pending_def app_settle_def Let_def)
        then show ?thesis
          using auth EProbe q False by (simp add: probe_reply_def app_settle_def Let_def)
      qed
    next
      case (ECookieMe r)
      then show ?thesis
        using auth q that by (cases r) (simp_all add: cookie_me_reply_def app_settle_def Let_def)
    next
      case (ELogout r)
      then show ?thesis using auth q that by (simp add: logout_reply_def app_settle_def)
    qed (use q ns in simp_all)
  qed
  then show ?thesis using q by (simp add: app_step_def)
qed

lemma dashboard_facts:
  assumes "app_inv s" and "screen_of s = ScDashboard a"
  shows "AqStatus \<notin> set (ap_pending s)" "\<not> needs_onboarding s"
proof -
  have "ap_resolved s \<and> \<not> needs_onboarding s" using assms(2) by (simp add: screen_of_def split: if_splits)
  then show "AqStatus \<notin> set (ap_pending s)" "\<not> needs_onboarding s"
    using status_not_pending [OF assms(1)] by blast+
qed

lemma wizard_facts:
  assumes "app_inv s" and "screen_of s = ScOnboarding b"
  shows "needs_onboarding s \<and> ap_resolved s \<and> ap_pending s = [] \<and> quiet s \<and> ap_onboarding s = Some b"
proof -
  have n: "needs_onboarding s" using assms(2) by (simp add: screen_of_def split: if_splits)
  then have "ap_resolved s \<and> ap_pending s = [] \<and> quiet s" using assms(1) by (simp add: app_inv_def)
  moreover have "ap_onboarding s = Some b"
    using n assms(2) by (cases "ap_onboarding s") (simp_all add: screen_of_def needs_onboarding_def split: if_splits)
  ultimately show ?thesis using n by simp
qed

lemma app_inv_storage: "app_inv (s\<lparr>ap_ls := x\<rparr>) = app_inv s"
  by (simp add: inv_defs needs_onboarding_def)

lemma commit_storage: "commit s (s\<lparr>ap_ls := x\<rparr>) = s\<lparr>ap_ls := x\<rparr>"
proof -
  have "gate_mounted (s\<lparr>ap_ls := x\<rparr>) = gate_mounted s"
    by (simp add: gate_mounted_iff needs_onboarding_def)
  then show ?thesis by (simp add: commit_def remount_def)
qed

lemma app_inv_wizard_token: "app_inv s \<Longrightarrow> app_inv (app_step (EWizardToken t) s)"
  by (simp add: app_step_def commit_storage app_inv_storage)

lemma app_inv_page_reply: "app_inv s \<Longrightarrow> app_inv (app_step (EPageReply r) s)"
  by (simp add: app_step_def commit_storage app_inv_storage)

lemma app_inv_wizard_done:
  assumes inv: "app_inv s" and sc: "screen_of s = ScOnboarding b"
  shows "app_inv (app_step EWizardDone s)"
proof -
  have f: "ap_resolved s" "ap_pending s = []" "\<not> ap_authed s" "ap_stale s = []" "ap_onboarding s = Some b"
    "ap_me s = None"
    using wizard_facts [OF inv sc] inv by (auto simp: quiet_def app_inv_def auth_inv_def)
  have "app_inv (commit s (onComplete b s))"
    by (rule commit_inv) (use f in \<open>auto simp: onComplete_def inv_defs needs_onboarding_def\<close>)
  then show ?thesis using f by (simp add: app_step_def)
qed

lemma app_inv_sign_out:
  assumes inv: "app_inv s" and sc: "screen_of s = ScDashboard a"
  shows "app_inv (app_step ESignOut s)"
proof -
  have "app_inv (commit s (app_send AqLogout s))"
    by (rule app_inv_signal [OF inv dashboard_facts [OF inv sc]])
      (use dashboard_facts [OF inv sc] in \<open>auto simp: app_send_def checks_def check_pending_def\<close>)
  then show ?thesis by (simp add: app_step_def)
qed

lemma app_inv_step: "app_inv s \<Longrightarrow> app_enabled s ev \<Longrightarrow> app_inv (app_step ev s)"
proof (cases ev)
  case (EStatus r)
  assume "app_inv s" "app_enabled s ev"
  then show ?thesis using EStatus app_inv_status by (simp add: app_enabled_def)
next
  case ESignOut
  assume "app_inv s" "app_enabled s ev"
  then show ?thesis using ESignOut app_inv_sign_out by (auto simp: app_enabled_def split: screen.splits)
next
  case EWizardDone
  assume "app_inv s" "app_enabled s ev"
  then show ?thesis using EWizardDone app_inv_wizard_done by (auto simp: app_enabled_def split: screen.splits)
qed (use app_inv_own_reply app_inv_gate app_inv_stale app_inv_wizard_token app_inv_page_reply in auto)

interpretation app: machine app_enabled app_step "app_mount ls" app_inv
  by unfold_locales (auto intro: app_inv_mount app_inv_step)

section \<open>Where the identity comes from\<close>

text \<open>An event that vouches for an identity in run \<open>n\<close> of the effect: the identity endpoint's answer to
  the start-up request, its answer to the request of this run, or the answer to this run's probe.\<close>

fun vouches :: "nat \<Rightarrow> app_event \<Rightarrow> me_response \<Rightarrow> bool" where
  "vouches n (ECookieMe (Inr m')) m \<longleftrightarrow> m = m'"
| "vouches n (EMe k (Inr m')) m \<longleftrightarrow> k = n \<and> m = m'"
| "vouches n (EProbe k (Inr v)) m \<longleftrightarrow> k = n \<and> m = legacy_me"
| "vouches n _ m \<longleftrightarrow> False"

text \<open>The identity shown in \<open>s\<close> has been the application's from the event \<open>ev\<close> on, through all of \<open>vs\<close>,
  without a sign-out and in one run of the effect.\<close>

definition held_since :: "local_storage \<Rightarrow> app_event list \<Rightarrow> app_event list \<Rightarrow> app \<Rightarrow> me_response \<Rightarrow> bool" where
  "held_since ls us vs s m \<longleftrightarrow> (\<forall>ws zs t. vs = ws @ zs \<longrightarrow>
     run app_enabled app_step (app_mount ls) (us @ ws) = Some t \<longrightarrow>
     ap_authed t \<and> ap_run t = ap_run s \<and> ap_me t = Some m)"

lemma me_handle:
  assumes "ap_me (app_handle ev s) \<noteq> ap_me s" and "ap_me (app_handle ev s) = Some m"
  shows "vouches (ap_run s) ev m
    \<and> ((\<exists>r. ev = ECookieMe r) \<or> ap_authed (app_handle ev s) = ap_authed s)"
proof (cases ev)
  case (EStatus r)
  then show ?thesis using assms
    by (auto simp: status_reply_def app_send_def Let_def split: sum.splits option.splits if_splits)
next
  case (ECookieMe r)
  then show ?thesis using assms by (cases r) (simp_all add: cookie_me_reply_def Let_def)
next
  case (EMe n r)
  then show ?thesis using assms
    by (cases r) (auto simp: me_reply_def app_send_def Let_def split: if_splits)
next
  case (EProbe n r)
  then show ?thesis using assms by (cases r) (auto simp: probe_reply_def Let_def split: if_splits)
next
  case (EGate e)
  then show ?thesis using assms by (simp add: case_prod_unfold with_gate_fields Let_def)
next
  case (EStale e)
  then show ?thesis using assms by (simp add: case_prod_unfold with_gate_fields Let_def)
next
  case EWizardDone
  then show ?thesis using assms by (simp add: onComplete_def split: option.splits)
qed (use assms in \<open>simp_all add: app_send_def logout_reply_def\<close>)

lemma settle_fields:
  "ap_me (case q of Some q \<Rightarrow> app_settle q s | None \<Rightarrow> s) = ap_me s"
  "ap_run (case q of Some q \<Rightarrow> app_settle q s | None \<Rightarrow> s) = ap_run s"
  "ap_authed (case q of Some q \<Rightarrow> app_settle q s | None \<Rightarrow> s) = ap_authed s"
  by (simp_all add: app_settle_def split: option.split)

lemma commit_me:
  assumes "ap_me (commit b s) = Some m"
  shows "ap_me s = Some m \<and> ap_authed (commit b s) = ap_authed s
    \<and> (ap_authed b \<noteq> ap_authed s \<longrightarrow> ap_authed s)
    \<and> (ap_authed b = ap_authed s \<longrightarrow> ap_run (commit b s) = ap_run s)"
  using assms by (auto simp: commit_def auth_effect_def app_send_def split: if_splits)

lemma app_handle_run: "ap_run (app_handle ev s) = ap_run s"
  by (cases ev) (auto simp: status_reply_def cookie_me_reply_def me_reply_def probe_reply_def
      logout_reply_def onComplete_def app_send_def case_prod_unfold with_gate_fields Let_def
      split: sum.splits option.splits)

text \<open>One step: the identity is new and the event vouches for it, or nothing changed.\<close>

lemma me_step:
  assumes inv: "app_inv t" and me: "ap_me (app_step ev t) = Some m"
  shows "vouches (ap_run (app_step ev t)) ev m
    \<or> (ap_me t = Some m \<and> ap_run (app_step ev t) = ap_run t)"
proof -
  let ?t = "case app_req_of ev of Some q \<Rightarrow> app_settle q t | None \<Rightarrow> t"
  let ?u = "app_handle ev ?t"
  have c: "ap_me ?u = Some m" "ap_authed t \<noteq> ap_authed ?u \<Longrightarrow> ap_authed ?u"
      "ap_authed t = ap_authed ?u \<Longrightarrow> ap_run (app_step ev t) = ap_run t"
    using commit_me [OF me [unfolded app_step_def]] by (auto simp: app_step_def app_handle_run settle_fields)
  show ?thesis
  proof (cases "ap_me ?u = ap_me ?t")
    case True
    then have "ap_me t = Some m" using c(1) by (simp add: settle_fields)
    moreover from this have "ap_authed t" using inv by (simp add: app_inv_def auth_inv_def)
    ultimately show ?thesis using c(2,3) by auto
  next
    case False
    have v: "vouches (ap_run t) ev m" "(\<exists>r. ev = ECookieMe r) \<or> ap_authed ?u = ap_authed t"
      using me_handle [OF False c(1)] by (simp_all add: settle_fields)
    show ?thesis
    proof (cases "\<exists>r. ev = ECookieMe r")
      case True
      then obtain r where "ev = ECookieMe r" by blast
      with v(1) show ?thesis by (cases r) simp_all
    qed (use v c(3) in auto)
  qed
qed

lemma identity_held:
  "run app_enabled app_step (app_mount ls) es = Some s \<Longrightarrow> ap_me s = Some m \<Longrightarrow>
   \<exists>us ev vs. es = us @ ev # vs \<and> vouches (ap_run s) ev m \<and> held_since ls (us @ [ev]) vs s m"
proof (induction es arbitrary: s rule: rev_induct)
  case Nil
  then show ?case by (auto simp: app_mount_def)
next
  case (snoc ev es)
  then obtain t where t: "run app_enabled app_step (app_mount ls) es = Some t" "s = app_step ev t"
    by (auto simp: run_append split: option.splits if_splits)
  have inv: "app_inv t" by (rule app.run_inv [OF t(1)])
  have auth: "ap_authed s" using app.run_inv [OF snoc.prems(1)] snoc.prems(2) by (simp add: app_inv_def auth_inv_def)
  consider "vouches (ap_run s) ev m" | "ap_me t = Some m" "ap_run s = ap_run t"
    using me_step [OF inv] snoc.prems(2) t(2) by blast
  then show ?case
  proof cases
    case 1
    have "held_since ls (es @ [ev]) [] s m"
      using snoc.prems auth by (simp add: held_since_def)
    with 1 show ?thesis by blast
  next
    case 2
    then obtain us e vs where h: "es = us @ e # vs" "vouches (ap_run t) e m" "held_since ls (us @ [e]) vs t m"
      using snoc.IH [OF t(1)] by blast
    have "held_since ls (us @ [e]) (vs @ [ev]) s m"
      unfolding held_since_def
    proof (intro allI impI)
      fix ws zs u
      assume w: "vs @ [ev] = ws @ zs" "run app_enabled app_step (app_mount ls) ((us @ [e]) @ ws) = Some u"
      show "ap_authed u \<and> ap_run u = ap_run s \<and> ap_me u = Some m"
      proof (cases zs rule: rev_cases)
        case Nil
        then have "u = s" using w snoc.prems(1) h(1) by simp
        then show ?thesis using auth snoc.prems(2) by simp
      next
        case (snoc zs' x)
        then have "vs = ws @ zs'" using w(1) by simp
        then show ?thesis using h(3) w(2) 2(2) unfolding held_since_def by metis
      qed
    qed
    then show ?thesis using h(1,2) 2(2) by (intro exI [of _ us] exI [of _ e] exI [of _ "vs @ [ev]"]) simp
  qed
qed

section \<open>Properties\<close>

definition admin_me :: me_response where
  "admin_me = \<lparr>me_user_id = 7, me_email = ''a@b'', me_role = ''admin'', me_provider = ''local'',
     me_auth_mode = ''authy''\<rparr>"

text \<open>C1: The administrator's dashboard, with the Users and Token Mappings pages and their sidebar
  links, is shown only on a reply of the server that vouches for it and that still counts: the
  identity endpoint answered the request of the current sign-in (the current run of the identity
  effect) or the start-up request made for the session cookie with the role \<open>admin\<close>, or the config
  endpoint answered the probe of the current sign-in for legacy bearer tokens. From that reply on the
  user has been signed in without a break, in the same run, with that identity: a reply from before
  the last sign-out never shows it. This holds for every interleaving of the user's actions and the
  replies. (The start-up request belongs to no run: its reply counts when it arrives.)\<close>

theorem admin_dashboard_vouched:
  assumes "run app_enabled app_step (app_mount ls) es = Some s"
    and "screen_of s = ScDashboard True"
  shows "\<exists>us ev vs m. es = us @ ev # vs \<and> me_role m = ''admin''
    \<and> (ev = ECookieMe (Inr m) \<or> ev = EMe (ap_run s) (Inr m)
       \<or> (m = legacy_me \<and> (\<exists>v. ev = EProbe (ap_run s) (Inr v))))
    \<and> (\<forall>ws zs t. vs = ws @ zs \<longrightarrow>
         run app_enabled app_step (app_mount ls) (us @ ev # ws) = Some t \<longrightarrow>
         ap_authed t \<and> ap_run t = ap_run s \<and> ap_me t = Some m)"
proof -
  obtain m where m: "ap_me s = Some m" "me_role m = ''admin''"
    using assms(2) by (auto simp: screen_of_def isAdmin_def split: if_splits option.splits)
  obtain us ev vs where h: "es = us @ ev # vs" "vouches (ap_run s) ev m" "held_since ls (us @ [ev]) vs s m"
    using identity_held [OF assms(1) m(1)] by blast
  have "ev = ECookieMe (Inr m) \<or> ev = EMe (ap_run s) (Inr m)
       \<or> (m = legacy_me \<and> (\<exists>v. ev = EProbe (ap_run s) (Inr v)))"
    using h(2) by (cases "(ap_run s, ev, m)" rule: vouches.cases) simp_all
  then show ?thesis
    using h(1,3) m(2) unfolding held_since_def append_assoc append_Cons append_Nil by blast
qed

theorem admin_dashboard_vouched_witness:
  "\<exists>s. run app_enabled app_step (app_mount empty_storage) [EStatus (Inr None), ECookieMe (Inr admin_me)] = Some s
     \<and> screen_of s = ScDashboard True
     \<and> (\<exists>us ev vs m. [EStatus (Inr None), ECookieMe (Inr admin_me)] = us @ ev # vs \<and> me_role m = ''admin''
         \<and> (ev = ECookieMe (Inr m) \<or> ev = EMe (ap_run s) (Inr m)
            \<or> (m = legacy_me \<and> (\<exists>v. ev = EProbe (ap_run s) (Inr v)))))"
proof -
  let ?es = "[EStatus (Inr None), ECookieMe (Inr admin_me)]"
  let ?s = "app_step (ECookieMe (Inr admin_me)) (app_step (EStatus (Inr None)) (app_mount empty_storage))"
  have r: "run app_enabled app_step (app_mount empty_storage) ?es = Some ?s" by code_simp
  moreover have sc: "screen_of ?s = ScDashboard True" by code_simp
  ultimately show ?thesis using admin_dashboard_vouched [OF r sc] by blast
qed

text \<open>C12: The screen that waits for the identity check is never a dead end: whenever it is shown a
  request of the current check is in flight. A successful reply to it ends in the dashboard, a
  failed identity call starts the config probe, and a failed probe ends at the login form.\<close>

theorem checking_screen_ends:
  assumes "reachable app_enabled app_step (app_mount ls) s" and "screen_of s = ScChecking"
  shows "(AqMe (ap_run s) \<in> set (ap_pending s) \<or> AqProbe (ap_run s) \<in> set (ap_pending s))
    \<and> screen_of (app_step (EMe (ap_run s) (Inr m)) s) = ScDashboard (me_role m = ''admin'')
    \<and> AqProbe (ap_run s) \<in> set (ap_pending (app_step (EMe (ap_run s) (Inl e)) s))
    \<and> screen_of (app_step (EProbe (ap_run s) (Inr v)) s) = ScDashboard True
    \<and> screen_of (app_step (EProbe (ap_run s) (Inl e)) s) = ScLogin"
proof -
  have f: "ap_resolved s" "\<not> needs_onboarding s" "ap_authed s" "ap_checking s"
    using assms(2) by (auto simp: screen_of_def split: if_splits)
  have "check_pending s"
    using app.reachable_inv [OF assms(1)] f by (simp add: app_inv_def auth_inv_def)
  then show ?thesis
    using f by (auto simp: check_pending_def app_step_def commit_def remount_def gate_mounted_iff
        me_reply_def probe_reply_def app_settle_def app_send_def auth_effect_def screen_of_def
        needs_onboarding_def isAdmin_def legacy_me_def Let_def)
qed

theorem checking_screen_ends_witness:
  "\<exists>s. reachable app_enabled app_step (app_mount \<lparr>ls_items = [(TOKEN_KEY, ''t'')], ls_blocked = False, ls_full = False\<rparr>) s
     \<and> screen_of s = ScChecking
     \<and> screen_of (app_step (EMe (ap_run s) (Inr admin_me)) s) = ScDashboard True"
proof -
  let ?m = "app_mount \<lparr>ls_items = [(TOKEN_KEY, ''t'')], ls_blocked = False, ls_full = False\<rparr>"
  let ?s = "app_step (EStatus (Inr None)) ?m"
  have "app_enabled ?m (EStatus (Inr None))" by code_simp
  then have r: "reachable app_enabled app_step ?m ?s" by (intro reachable.step reachable.start)
  moreover have sc: "screen_of ?s = ScChecking" by code_simp
  moreover have "screen_of (app_step (EMe (ap_run ?s) (Inr admin_me)) ?s) = ScDashboard (me_role admin_me = ''admin'')"
    using checking_screen_ends [OF r sc] by blast
  moreover have "me_role admin_me = ''admin''" by (simp add: admin_me_def)
  ultimately show ?thesis by (intro exI [of _ ?s]) simp
qed

lemma sidebar_links: "links (Sidebar admin) = map fst sidebar_items @ (if admin then map fst adminItems else [])"
  by (simp add: Sidebar_def sidebar_items_def adminItems_def)

lemma route_page_unknown: "path \<notin> set (map fst (page_routes admin)) \<Longrightarrow> route_page admin path = PgOverview"
proof -
  assume "path \<notin> set (map fst (page_routes admin))"
  then have "obj_get (page_routes admin) path = None" by (simp add: map_of_eq_None_iff)
  then show ?thesis by (simp add: route_page_def nullish_def page_routes_def)
qed

lemma route_page_plain: "route_page False path \<notin> {PgUsers, PgTokenMappings}"
  by (simp add: route_page_def nullish_def page_routes_def)

lemma route_page_users: "route_page True ''/users'' = PgUsers"
  by code_simp

text \<open>The sidebar and the router agree: the links it shows are exactly the paths that have a page
  for this user, each once, and every other path falls back to the overview. The two
  administration pages are routed only for an administrator.\<close>

theorem sidebar_routes:
  "links (Sidebar admin) \<noteq> [] \<and> distinct (links (Sidebar admin))
   \<and> set (links (Sidebar admin)) = set (map fst (page_routes admin))
   \<and> (\<forall>path. path \<in> set (links (Sidebar admin)) \<or> route_page admin path = PgOverview)
   \<and> ((\<exists>path. route_page admin path \<in> {PgUsers, PgTokenMappings}) \<longleftrightarrow> admin)"
proof -
  have "set (links (Sidebar admin)) = set (map fst (page_routes admin))"
    by (cases admin) (auto simp: sidebar_links sidebar_items_def adminItems_def page_routes_def)
  moreover have "distinct (links (Sidebar admin)) \<and> links (Sidebar admin) \<noteq> []"
    by (cases admin) (simp_all add: sidebar_links sidebar_items_def adminItems_def)
  ultimately show ?thesis
    using route_page_unknown [of _ admin] route_page_plain route_page_users by (cases admin) auto
qed

text \<open>The run of a user who signs in with a pasted token while the start-up identity request is still
  unanswered, state by state.\<close>

definition late_login :: "onboarding_status \<Rightarrow> string \<Rightarrow> json \<Rightarrow> me_response \<Rightarrow> app_event list" where
  "late_login b p v m = [EStatus (Inr (Some b)), EGate (GAct (Edit FLegacyToken p)),
     EGate (GAct (Click BtnLegacy)), EGate (GLegacy (Inr v)), EMe 2 (Inr m)]"

definition signing :: "onboarding_status \<Rightarrow> local_storage \<Rightarrow> string \<Rightarrow> bool \<Rightarrow> gate_req list \<Rightarrow> app" where
  "signing b ls p bz pend = (app_mount ls)\<lparr>ap_onboarding := Some b, ap_resolved := True, ap_pending := [AqCookieMe],
     ap_gate := gate_init\<lparr>lg_legacyToken := p, lg_busy := bz, lg_pending := pend\<rparr>\<rparr>"

definition signed_in :: "onboarding_status \<Rightarrow> local_storage \<Rightarrow> me_response option \<Rightarrow> app_req list \<Rightarrow> app" where
  "signed_in b ls m pend = (app_mount ls)\<lparr>ap_onboarding := Some b, ap_resolved := True, ap_authed := True, ap_me := m, ap_run := 2,
     ap_pending := pend, ap_stale := [RqProviders]\<rparr>"

lemmas app_eval = app_step_def app_enabled_def signing_def signed_in_def app_mount_def with_gate_def
  gate_step_def gate_enabled_def gate_click gate_init_def commit_def remount_def gate_mounted_def screen_of_def
  needs_onboarding_def Let_def

lemma late_status:
  assumes "getToken ls = None" and "\<not> os_required b"
  shows "app_enabled (app_mount ls) (EStatus (Inr (Some b)))"
    and "app_step (EStatus (Inr (Some b))) (app_mount ls) = signing b ls [] False [RqProviders]"
  using assms by (simp_all add: app_eval app_settle_def status_reply_def have_token_def app_send_def)

lemma late_type:
  assumes "\<not> os_required b"
  shows "app_enabled (signing b ls q False pend) (EGate (GAct (Edit FLegacyToken p)))"
  "app_step (EGate (GAct (Edit FLegacyToken p))) (signing b ls q False pend) = signing b ls p False pend"
  using assms by (simp_all add: app_eval gate_view_def isLegacy_def)

lemma late_press:
  assumes "\<not> os_required b"
  shows "app_enabled (signing b ls p False pend) (EGate (GAct (Click BtnLegacy)))"
  "app_step (EGate (GAct (Click BtnLegacy))) (signing b ls p False pend) =
     signing b (setToken (str_or_null p) ls) p True (pend @ [RqLegacy])"
  using assms by (simp_all add: app_eval submitLegacy_def gate_send_def isLegacy_def)

lemma late_accept:
  assumes "\<not> os_required b"
  shows "app_enabled (signing b ls p True [RqProviders, RqLegacy]) (EGate (GLegacy (Inr v)))"
  "app_step (EGate (GLegacy (Inr v))) (signing b ls p True [RqProviders, RqLegacy]) =
     signed_in b ls None [AqCookieMe, AqMe 2]"
  using assms by (simp_all add: app_eval legacy_reply_def gate_settle_def onAuthed_def auth_effect_def app_send_def
      idle_gate_def)

lemma late_identity:
  assumes "\<not> os_required b"
  shows "app_enabled (signed_in b ls None [AqCookieMe, AqMe 2]) (EMe 2 (Inr m))"
  "app_step (EMe 2 (Inr m)) (signed_in b ls None [AqCookieMe, AqMe 2]) = signed_in b ls (Some m) [AqCookieMe]"
  using assms by (simp_all add: app_eval me_reply_def app_settle_def)

lemma late_refusal:
  assumes "\<not> os_required b"
  shows "app_enabled (signed_in b ls (Some m) [AqCookieMe]) (ECookieMe (Inl (ApiErr 401 msg)))"
  "screen_of (app_step (ECookieMe (Inl (ApiErr 401 msg))) (signed_in b ls (Some m) [AqCookieMe])) = ScLogin"
  "ap_ls (app_step (ECookieMe (Inl (ApiErr 401 msg))) (signed_in b ls (Some m) [AqCookieMe]))
     = after_call (Inl (ApiErr 401 msg) :: js_error + me_response) ls"
  using assms by (simp_all add: app_eval cookie_me_reply_def app_settle_def auth_effect_def)

lemma late_screens:
  assumes "\<not> os_required b"
  shows "screen_of (signing b ls p bz pend) = ScLogin" "ap_ls (signing b ls p bz pend) = ls"
  "ap_pending (signing b ls p bz pend) = [AqCookieMe]"
  "screen_of (signed_in b ls (Some m) q) = ScDashboard (me_role m = ''admin'')" "ap_ls (signed_in b ls x q) = ls"
  using assms by (simp_all add: signing_def signed_in_def app_mount_def screen_of_def needs_onboarding_def isAdmin_def)

lemma late_run:
  "getToken ls = None \<Longrightarrow> \<not> os_required b \<Longrightarrow> run app_enabled app_step (app_mount ls) (late_login b p v m @ es) =
     run app_enabled app_step (signed_in b (setToken (str_or_null p) ls) (Some m) [AqCookieMe]) es"
  by (simp add: late_login_def late_status late_type late_press late_accept late_identity)

definition done_status :: onboarding_status where
  "done_status = \<lparr>os_active = False, os_completed = True, os_expired = False, os_required = False,
     os_created_at = None, os_admin_token_set_at = None, os_first_upstream_at = None, os_completed_at = None,
     os_completed_by = None, os_ttl_s = None, os_expires_at = None, os_database = None\<rparr>"

text \<open>C36: The identity request sent at start-up for a session cookie outlives a sign-in and can undo it.
  The run: the browser holds no token, so the application asks who the cookie belongs to and shows the
  login form; the user pastes a token, the server accepts it and answers the identity request of this
  sign-in, and the dashboard is shown with the token stored, the start-up request still unanswered.
  If that request, which was sent without the token, is now answered with 401, the client drops the
  token stored since and the application returns to the login form.\<close>

theorem stale_cookie_reply_signs_out:
  assumes "getToken ls = None" and "\<not> ls_blocked ls" and "\<not> ls_full ls" and "p \<noteq> []"
    and "\<not> os_required b"
  shows "\<exists>s0 s t. run app_enabled app_step (app_mount ls) [EStatus (Inr (Some b))] = Some s0
    \<and> AqCookieMe \<in> set (ap_pending s0) \<and> authHeaders (ap_ls s0) = [] \<and> screen_of s0 = ScLogin
    \<and> run app_enabled app_step (app_mount ls) (late_login b p v m) = Some s
    \<and> screen_of s = ScDashboard (me_role m = ''admin'') \<and> getToken (ap_ls s) = Some p
    \<and> run app_enabled app_step (app_mount ls)
         (late_login b p v m @ [ECookieMe (Inl (ApiErr 401 msg))]) = Some t
    \<and> screen_of t = ScLogin \<and> getToken (ap_ls t) = None"
proof -
  let ?start = "signing b ls [] False [RqProviders]"
  let ?ls = "setToken (str_or_null p) ls"
  let ?s = "signed_in b ?ls (Some m) [AqCookieMe]"
  let ?t = "app_step (ECookieMe (Inl (ApiErr 401 msg))) ?s"
  have tok: "getToken ?ls = Some p" using getToken_pasted [OF assms(2,3), of p] assms(4) by (simp add: str_or_null_def)
  then have "getToken (ap_ls ?t) = None" using assms(4) by (simp add: late_refusal [OF assms(5)] after_call_def have_token_def)
  moreover have "run app_enabled app_step (app_mount ls) (late_login b p v m) = Some ?s"
    using late_run [OF assms(1,5), of p v m "[]"] by simp
  moreover have "run app_enabled app_step (app_mount ls)
      (late_login b p v m @ [ECookieMe (Inl (ApiErr 401 msg))]) = Some ?t"
    by (simp add: late_run [OF assms(1,5)] late_refusal(1) [OF assms(5)])
  moreover have "run app_enabled app_step (app_mount ls) [EStatus (Inr (Some b))] = Some ?start"
    by (simp add: late_status [OF assms(1,5)])
  moreover have "authHeaders ls = []" using assms(1) by (simp add: authHeaders_def)
  ultimately show ?thesis
    using tok late_refusal(2) [OF assms(5), of msg ?ls m]
    by (intro exI [of _ ?start] exI [of _ ?s] exI [of _ ?t]) (simp add: late_screens [OF assms(5)])
qed

theorem stale_cookie_reply_signs_out_witness:
  "\<exists>s t. run app_enabled app_step (app_mount empty_storage) (late_login done_status ''secret'' JNull admin_me) = Some s
     \<and> screen_of s = ScDashboard True \<and> getToken (ap_ls s) = Some ''secret''
     \<and> run app_enabled app_step (app_mount empty_storage)
         (late_login done_status ''secret'' JNull admin_me @ [ECookieMe (Inl (ApiErr 401 []))]) = Some t
     \<and> screen_of t = ScLogin \<and> getToken (ap_ls t) = None"
proof -
  have e: "getToken empty_storage = None" "\<not> ls_blocked empty_storage" "\<not> ls_full empty_storage" by code_simp+
  have d: "\<not> os_required done_status" by code_simp
  have "me_role admin_me = ''admin''" by (simp add: admin_me_def)
  then show ?thesis
    using stale_cookie_reply_signs_out [OF e _ d, of "''secret''" JNull admin_me "[]"] by auto
qed

end
