(* ===== verification/ManualUpstream.thy ===== *)
theory ManualUpstream
  imports ApiClient View
begin

text \<open>
  \<open>frontend/src/components/AddManuallyDialog.tsx\<close>: the form that registers an upstream by hand, the
  payload it builds and the request it sends; and, from the other end of that request, what
  \<open>config.py\<close> and \<open>discovery/registration.py\<close> accept. \<open>canSubmit\<close> is the enabling condition of the
  submit button, \<open>buildPayload\<close> the translation of the form, \<open>submit\<close> and \<open>submit_reply\<close> the two halves
  of the handler around its \<open>await\<close> (the name the request was sent with is captured by it).
\<close>

section \<open>Key-value rows\<close>

record key_value =
  kv_key :: string
  kv_value :: string

definition emptyKv :: key_value where
  "emptyKv = \<lparr>kv_key = [], kv_value = []\<rparr>"

definition kvToRecord :: "key_value list \<Rightarrow> string obj" where
  "kvToRecord items = fold (\<lambda>it out. let k = js_trim (kv_key it)
     in if k = [] then out else obj_assign k (kv_value it) out) items []"

text \<open>The three handlers of \<open>KeyValueEditor\<close>.\<close>

definition kv_update :: "nat \<Rightarrow> (key_value \<Rightarrow> key_value) \<Rightarrow> key_value list \<Rightarrow> key_value list" where
  "kv_update idx patch items = (if idx < length items then items[idx := patch (items ! idx)] else items)"

definition kv_remove :: "nat \<Rightarrow> key_value list \<Rightarrow> key_value list" where
  "kv_remove idx items =
     (let next_items = take idx items @ drop (Suc idx) items
      in if next_items \<noteq> [] then next_items else [emptyKv])"

definition kv_add :: "key_value list \<Rightarrow> key_value list" where
  "kv_add items = items @ [emptyKv]"

section \<open>The form\<close>

datatype transport = Stdio | Http
datatype auth_type = AtNone | AtBearer | AtApiKey | AtBasic | AtOAuth2

record add_form =
  am_name :: string
  am_transport :: transport
  am_command :: string
  am_argsText :: string
  am_stdioEnv :: "key_value list"
  am_queueSize :: string
  am_url :: string
  am_timeoutS :: string
  am_httpHeaders :: "key_value list"
  am_authType :: auth_type
  am_bearerToken :: string
  am_apiKeyHeader :: string
  am_apiKeyValue :: string
  am_basicUser :: string
  am_basicPass :: string
  am_oauthIssuer :: string
  am_oauthAuthEndpoint :: string
  am_oauthTokenEndpoint :: string
  am_oauthClientId :: string
  am_oauthClientSecret :: string
  am_oauthScopes :: string
  am_oauthDynamicReg :: bool
  am_busy :: bool
  am_error :: "string option"
  am_result :: "string option"
  am_warning :: "string option"
  am_replace :: bool
  am_pending :: "manual_upstream_request list"

definition add_form_init :: add_form where
  "add_form_init = \<lparr>am_name = [], am_transport = Stdio, am_command = [], am_argsText = [],
     am_stdioEnv = [emptyKv], am_queueSize = [], am_url = [], am_timeoutS = [],
     am_httpHeaders = [emptyKv], am_authType = AtNone, am_bearerToken = [],
     am_apiKeyHeader = ''X-Api-Key'', am_apiKeyValue = [], am_basicUser = [], am_basicPass = [],
     am_oauthIssuer = [], am_oauthAuthEndpoint = [], am_oauthTokenEndpoint = [],
     am_oauthClientId = [], am_oauthClientSecret = [], am_oauthScopes = [],
     am_oauthDynamicReg = False, am_busy = False, am_error = None, am_result = None,
     am_warning = None, am_replace = False, am_pending = []\<rparr>"

text \<open>\<open>NAME_RE\<close>\<close>

definition is_alpha :: "char \<Rightarrow> bool" where
  "is_alpha c \<longleftrightarrow> (let n = (of_char c :: nat) in (65 \<le> n \<and> n \<le> 90) \<or> (97 \<le> n \<and> n \<le> 122))"

definition name_start :: "char \<Rightarrow> bool" where
  "name_start c \<longleftrightarrow> is_alpha c \<or> is_digit c \<or> c = CHR ''_''"

definition name_matches :: "string \<Rightarrow> bool" where
  "name_matches s = (case s of [] \<Rightarrow> False
     | c # cs \<Rightarrow> name_start c \<and> (\<forall>d \<in> set cs. name_start d \<or> d = CHR ''-''))"

definition canSubmit :: "add_form \<Rightarrow> bool" where
  "canSubmit f \<longleftrightarrow> name_matches (am_name f) \<and>
     (case am_transport f of
        Stdio \<Rightarrow> js_trim (am_command f) \<noteq> []
      | Http \<Rightarrow>
          js_trim (am_url f) \<noteq> []
          \<and> \<not> (am_authType f = AtBearer \<and> am_bearerToken f = [])
          \<and> \<not> (am_authType f = AtApiKey \<and> (am_apiKeyHeader f = [] \<or> am_apiKeyValue f = []))
          \<and> \<not> (am_authType f = AtBasic \<and> am_basicUser f = [])
          \<and> \<not> (am_authType f = AtOAuth2 \<and>
               (am_oauthIssuer f = [] \<and> \<not> (am_oauthAuthEndpoint f \<noteq> [] \<and> am_oauthTokenEndpoint f \<noteq> [])
                \<or> am_oauthClientId f = [] \<and> \<not> am_oauthDynamicReg f)))"

section \<open>The payload\<close>

definition or_null :: "string \<Rightarrow> string opt" where
  "or_null s = (if s = [] then Null else Val s)"

text \<open>\<open>Undefined\<close> leaves the property out of the configuration.\<close>

definition buildAuthPayload :: "add_form \<Rightarrow> http_auth_payload opt" where
  "buildAuthPayload f = (case am_authType f of
      AtNone \<Rightarrow> Undefined
    | AtBearer \<Rightarrow> Val (AuthBearer (am_bearerToken f))
    | AtApiKey \<Rightarrow> Val (AuthApiKey (am_apiKeyHeader f) (am_apiKeyValue f))
    | AtBasic \<Rightarrow> Val (AuthBasic (am_basicUser f) (am_basicPass f))
    | AtOAuth2 \<Rightarrow> Val (AuthOAuth2 \<lparr>
        op_issuer = or_null (am_oauthIssuer f),
        op_authorization_endpoint = or_null (am_oauthAuthEndpoint f),
        op_token_endpoint = or_null (am_oauthTokenEndpoint f),
        op_registration_endpoint = Undefined,
        op_client_id = or_null (am_oauthClientId f),
        op_client_secret = or_null (am_oauthClientSecret f),
        op_scopes = Some (filter (\<lambda>s. s \<noteq> [])
          (map js_trim (split_runs (\<lambda>c. c = CHR '','' \<or> js_ws c) (am_oauthScopes f)))),
        op_audience = Undefined,
        op_redirect_uri = Undefined,
        op_dynamic_registration = Some (am_oauthDynamicReg f)\<rparr>))"

definition args_of :: "string \<Rightarrow> string list" where
  "args_of argsText = filter (\<lambda>s. s \<noteq> []) (map js_trim (split_char (CHR 0x0A) argsText))"

definition non_empty_obj :: "string obj \<Rightarrow> string obj option" where
  "non_empty_obj m = (if m = [] then None else Some m)"

definition buildPayload :: "add_form \<Rightarrow> manual_upstream_config option" where
  "buildPayload f = (case am_transport f of
      Stdio \<Rightarrow> Some (StdioUp \<lparr>
        sup_command = js_trim (am_command f),
        sup_args = args_of (am_argsText f),
        sup_env = non_empty_obj (kvToRecord (am_stdioEnv f)),
        sup_queue_size = (case parse_int (am_queueSize f) of
            Some qs \<Rightarrow> if qs > 0 then Some qs else None | None \<Rightarrow> None)\<rparr>)
    | Http \<Rightarrow> Some (HttpUp \<lparr>
        hup_url = js_trim (am_url f),
        hup_timeout_s = positive_number (parse_float (am_timeoutS f)),
        hup_headers = non_empty_obj (kvToRecord (am_httpHeaders f)),
        hup_auth = buildAuthPayload f\<rparr>))"

section \<open>The request body\<close>

text \<open>The object literals of \<open>buildPayload\<close> with their properties in the order they are created, as
  \<open>JSON.stringify\<close> sees them: an \<open>undefined\<close> property is left out, a non-finite number is \<open>null\<close>.\<close>

definition jprop :: "string \<Rightarrow> json option \<Rightarrow> (string \<times> json) list" where
  "jprop k v = (case v of Some j \<Rightarrow> [(k, j)] | None \<Rightarrow> [])"

fun opt_json :: "('a \<Rightarrow> json) \<Rightarrow> 'a opt \<Rightarrow> json option" where
  "opt_json h Undefined = None"
| "opt_json h Null = Some JNull"
| "opt_json h (Val a) = Some (h a)"

definition str_obj_json :: "string obj \<Rightarrow> json" where
  "str_obj_json m = JObj (map (\<lambda>(k, v). (k, JStr v)) (own_entries m))"

fun number_json :: "js_number \<Rightarrow> json" where
  "number_json (Finite d) = JNum d"
| "number_json _ = JNull"

definition int_json :: "int \<Rightarrow> json" where
  "int_json i = JNum (mk_dec i 0)"

fun auth_json :: "http_auth_payload \<Rightarrow> json" where
  "auth_json AuthNone = JObj [(''type'', JStr ''none'')]"
| "auth_json (AuthBearer t) = JObj [(''type'', JStr ''bearer''), (''token'', JStr t)]"
| "auth_json (AuthApiKey h v) = JObj [(''type'', JStr ''api_key''), (''header'', JStr h), (''value'', JStr v)]"
| "auth_json (AuthBasic u p) = JObj [(''type'', JStr ''basic''), (''username'', JStr u), (''password'', JStr p)]"
| "auth_json (AuthOAuth2 o') = JObj ((''type'', JStr ''oauth2'')
     # jprop ''issuer'' (opt_json JStr (op_issuer o'))
     @ jprop ''authorization_endpoint'' (opt_json JStr (op_authorization_endpoint o'))
     @ jprop ''token_endpoint'' (opt_json JStr (op_token_endpoint o'))
     @ jprop ''client_id'' (opt_json JStr (op_client_id o'))
     @ jprop ''client_secret'' (opt_json JStr (op_client_secret o'))
     @ jprop ''scopes'' (map_option (\<lambda>ss. JArr (map JStr ss)) (op_scopes o'))
     @ jprop ''dynamic_registration'' (map_option JBool (op_dynamic_registration o')))"

fun config_json :: "manual_upstream_config \<Rightarrow> json" where
  "config_json (StdioUp c) = JObj ([(''type'', JStr ''stdio''), (''command'', JStr (sup_command c)),
     (''args'', JArr (map JStr (sup_args c)))]
     @ jprop ''env'' (map_option str_obj_json (sup_env c))
     @ jprop ''queue_size'' (map_option int_json (sup_queue_size c)))"
| "config_json (HttpUp c) = JObj ([(''type'', JStr ''http''), (''url'', JStr (hup_url c))]
     @ jprop ''timeout_s'' (map_option number_json (hup_timeout_s c))
     @ jprop ''headers'' (map_option str_obj_json (hup_headers c))
     @ jprop ''auth'' (opt_json auth_json (hup_auth c)))"

definition manual_request_json :: "manual_upstream_request \<Rightarrow> json" where
  "manual_request_json b = JObj [(''name'', JStr (mur_name b)), (''config'', config_json (mur_config b)),
     (''replace'', JBool (mur_replace b))]"

section \<open>Submitting\<close>

definition quoted :: "string \<Rightarrow> string" where
  "quoted name = [CHR 0x27] @ name @ [CHR 0x27]"

definition submit :: "add_form \<Rightarrow> add_form" where
  "submit f =
     (let f1 = f\<lparr>am_error := None, am_result := None, am_warning := None\<rparr>
      in case buildPayload f of
           None \<Rightarrow> f1\<lparr>am_error := Some ''could not build upstream payload''\<rparr>
         | Some config \<Rightarrow> f1\<lparr>am_busy := True, am_pending := am_pending f @
             [\<lparr>mur_name = am_name f, mur_config = config, mur_replace = am_replace f\<rparr>]\<rparr>)"

definition submit_request :: "local_storage \<Rightarrow> manual_upstream_request \<Rightarrow> http_request" where
  "submit_request ls b = post_request ls ''/admin/api/upstreams'' (Some (manual_request_json b))"

text \<open>The rest of \<open>submit\<close> for the request that carried \<open>b\<close>; the second component is the name with
  which \<open>onInstalled\<close> is called, if it is.\<close>

definition submit_reply :: "manual_upstream_request \<Rightarrow> js_error + manual_upstream_response \<Rightarrow> add_form \<Rightarrow>
    add_form \<times> string option" where
  "submit_reply b r f =
     (let f0 = f\<lparr>am_pending := remove1 b (am_pending f)\<rparr>; name = mur_name b
      in case r of
        Inr res \<Rightarrow>
          if mures_applied res then
            ((case mures_warning res of
                Some w \<Rightarrow> if w \<noteq> []
                  then f0\<lparr>am_result := Some (''Registered upstream '' @ quoted name @ '', but it may not be working:''),
                         am_warning := Some w\<rparr>
                  else f0\<lparr>am_result := Some (''Registered upstream '' @ quoted name @ ''.'')\<rparr>
              | None \<Rightarrow> f0\<lparr>am_result := Some (''Registered upstream '' @ quoted name @ ''.'')\<rparr>)\<lparr>am_busy := False\<rparr>,
             Some name)
          else (f0\<lparr>am_error := Some (case mures_error res of
                  Some e \<Rightarrow> str_or e ''registration returned applied=false''
                | None \<Rightarrow> ''registration returned applied=false''), am_busy := False\<rparr>, None)
      | Inl e \<Rightarrow> (f0\<lparr>am_error := Some (case e of
              ApiErr code m \<Rightarrow> show_int code @ '': '' @ m
            | _ \<Rightarrow> error_text e), am_busy := False\<rparr>, None))"

section \<open>What is shown\<close>

datatype kv_set = StdioEnv | HttpHeaders

datatype am_btn = BtnX | BtnClose | BtnTransport transport | BtnAuth auth_type | BtnSubmit
  | BtnKvRemove kv_set nat | BtnKvAdd kv_set

datatype am_field = FName | FCommand | FArgs | FQueue | FUrl | FTimeout | FBearer | FKeyHeader | FKeyValue
  | FBasicUser | FBasicPass | FIssuer | FAuthEndpoint | FTokenEndpoint | FClientId | FClientSecret
  | FScopes | FDynamicReg | FReplace | FKvKey kv_set nat | FKvValue kv_set nat

type_synonym am_view = "(am_btn, am_field) view"

definition Field :: "string \<Rightarrow> string option \<Rightarrow> am_view list \<Rightarrow> am_view" where
  "Field label hint children = Box (Txt label # children @ [opt_text hint])"

definition KeyValueEditor :: "kv_set \<Rightarrow> string \<Rightarrow> string option \<Rightarrow> key_value list \<Rightarrow> am_view" where
  "KeyValueEditor k label hint items = Box [Txt label,
     Box (map (\<lambda>(idx, it). Box [Input (FKvKey k idx) False (kv_key it), Input (FKvValue k idx) False (kv_value it),
       Button (BtnKvRemove k idx) False []]) (enumerate 0 items)),
     Button (BtnKvAdd k) False [Txt ''Add row''],
     opt_text hint]"

definition oauth_fields :: "add_form \<Rightarrow> am_view" where
  "oauth_fields f = Box [
     Field ''Issuer URL (preferred)'' None [Input FIssuer False (am_oauthIssuer f)],
     Field ''Authorization endpoint (override)'' None [Input FAuthEndpoint False (am_oauthAuthEndpoint f)],
     Field ''Token endpoint (override)'' None [Input FTokenEndpoint False (am_oauthTokenEndpoint f)],
     Field ''Client ID'' None [Input FClientId (am_oauthDynamicReg f) (am_oauthClientId f)],
     Field ''Client secret'' None [Input FClientSecret (am_oauthDynamicReg f) (am_oauthClientSecret f)],
     Field ''Scopes (space- or comma-separated)'' None [Input FScopes False (am_oauthScopes f)],
     Box [Check FDynamicReg False (am_oauthDynamicReg f), Txt ''Register dynamically (RFC 7591) - skip pre-issued client_id'']]"

definition http_fields :: "add_form \<Rightarrow> am_view" where
  "http_fields f = Box [
     Field ''URL'' None [Input FUrl False (am_url f)],
     Field ''Timeout (seconds)'' None [Input FTimeout False (am_timeoutS f)],
     KeyValueEditor HttpHeaders ''Static headers''
       (Some ''Sent on every request. Use ${secret:NAME} for credentials.'') (am_httpHeaders f),
     Field ''Authentication'' None [Button (BtnAuth AtNone) False [Txt ''none''],
       Button (BtnAuth AtBearer) False [Txt ''bearer''], Button (BtnAuth AtApiKey) False [Txt ''api_key''],
       Button (BtnAuth AtBasic) False [Txt ''basic''], Button (BtnAuth AtOAuth2) False [Txt ''oauth2'']],
     cond (am_authType f = AtBearer)
       (Field ''Bearer token'' (Some ''Sent as Authorization: Bearer <token>'')
         [Input FBearer False (am_bearerToken f)]),
     cond (am_authType f = AtApiKey)
       (Box [Field ''Header name'' None [Input FKeyHeader False (am_apiKeyHeader f)],
             Field ''Header value'' None [Input FKeyValue False (am_apiKeyValue f)]]),
     cond (am_authType f = AtBasic)
       (Box [Field ''Username'' None [Input FBasicUser False (am_basicUser f)],
             Field ''Password'' None [Input FBasicPass False (am_basicPass f)]]),
     cond (am_authType f = AtOAuth2) (oauth_fields f)]"

definition stdio_fields :: "add_form \<Rightarrow> am_view" where
  "stdio_fields f = Box [
     Field ''Command'' (Some ''Executable invoked by create_subprocess_exec'') [Input FCommand False (am_command f)],
     Field ''Arguments (one per line)'' None [Input FArgs False (am_argsText f)],
     KeyValueEditor StdioEnv ''Environment variables''
       (Some ''Per-upstream env overlay. Use ${secret:NAME} for credentials.'') (am_stdioEnv f),
     Field ''Queue size (advanced)'' None [Input FQueue False (am_queueSize f)]]"

definition submit_disabled :: "add_form \<Rightarrow> bool" where
  "submit_disabled f \<longleftrightarrow> \<not> canSubmit f \<or> am_busy f \<or> (case am_result f of Some m \<Rightarrow> m \<noteq> [] | None \<Rightarrow> False)"

definition add_view :: "add_form \<Rightarrow> am_view" where
  "add_view f = Box [
     Box [Txt ''Add MCP server manually'', Button BtnX False []],
     Field ''Upstream name'' (Some ''Lowercase letters, digits, _ and - only'')
       [Input FName False (am_name f),
        cond (am_name f \<noteq> [] \<and> \<not> name_matches (am_name f)) (Txt ''Must match [A-Za-z0-9_][A-Za-z0-9_-]*'')],
     Field ''Transport'' None [Button (BtnTransport Stdio) False [Txt ''stdio''],
       Button (BtnTransport Http) False [Txt ''http'']],
     cond (am_transport f = Stdio) (stdio_fields f),
     cond (am_transport f = Http) (http_fields f),
     Box [Check FReplace False (am_replace f), Txt ''Replace if an upstream with this name already exists''],
     error_box (am_error f),
     error_box (am_warning f),
     error_box (am_result f),
     Button BtnClose (am_busy f) [Txt ''Close''],
     Button BtnSubmit (submit_disabled f)
       [Txt (if am_busy f then ''Registering...'' else ''Register upstream'')]]"

section \<open>The dialog as a machine\<close>

fun am_kv :: "kv_set \<Rightarrow> (key_value list \<Rightarrow> key_value list) \<Rightarrow> add_form \<Rightarrow> add_form" where
  "am_kv StdioEnv h f = f\<lparr>am_stdioEnv := h (am_stdioEnv f)\<rparr>"
| "am_kv HttpHeaders h f = f\<lparr>am_httpHeaders := h (am_httpHeaders f)\<rparr>"

fun am_edit :: "am_field \<Rightarrow> string \<Rightarrow> add_form \<Rightarrow> add_form" where
  "am_edit FName v f = f\<lparr>am_name := v\<rparr>"
| "am_edit FCommand v f = f\<lparr>am_command := v\<rparr>"
| "am_edit FArgs v f = f\<lparr>am_argsText := v\<rparr>"
| "am_edit FQueue v f = f\<lparr>am_queueSize := v\<rparr>"
| "am_edit FUrl v f = f\<lparr>am_url := v\<rparr>"
| "am_edit FTimeout v f = f\<lparr>am_timeoutS := v\<rparr>"
| "am_edit FBearer v f = f\<lparr>am_bearerToken := v\<rparr>"
| "am_edit FKeyHeader v f = f\<lparr>am_apiKeyHeader := v\<rparr>"
| "am_edit FKeyValue v f = f\<lparr>am_apiKeyValue := v\<rparr>"
| "am_edit FBasicUser v f = f\<lparr>am_basicUser := v\<rparr>"
| "am_edit FBasicPass v f = f\<lparr>am_basicPass := v\<rparr>"
| "am_edit FIssuer v f = f\<lparr>am_oauthIssuer := v\<rparr>"
| "am_edit FAuthEndpoint v f = f\<lparr>am_oauthAuthEndpoint := v\<rparr>"
| "am_edit FTokenEndpoint v f = f\<lparr>am_oauthTokenEndpoint := v\<rparr>"
| "am_edit FClientId v f = f\<lparr>am_oauthClientId := v\<rparr>"
| "am_edit FClientSecret v f = f\<lparr>am_oauthClientSecret := v\<rparr>"
| "am_edit FScopes v f = f\<lparr>am_oauthScopes := v\<rparr>"
| "am_edit (FKvKey k idx) v f = am_kv k (kv_update idx (\<lambda>it. it\<lparr>kv_key := v\<rparr>)) f"
| "am_edit (FKvValue k idx) v f = am_kv k (kv_update idx (\<lambda>it. it\<lparr>kv_value := v\<rparr>)) f"
| "am_edit _ v f = f"

fun am_toggle :: "am_field \<Rightarrow> add_form \<Rightarrow> add_form" where
  "am_toggle FDynamicReg f = f\<lparr>am_oauthDynamicReg := \<not> am_oauthDynamicReg f\<rparr>"
| "am_toggle FReplace f = f\<lparr>am_replace := \<not> am_replace f\<rparr>"
| "am_toggle _ f = f"

text \<open>The close buttons only call \<open>onClose\<close>; the dialog's owner unmounts it.\<close>

fun am_click :: "am_btn \<Rightarrow> add_form \<Rightarrow> add_form" where
  "am_click BtnX f = f"
| "am_click BtnClose f = f"
| "am_click (BtnTransport t) f = f\<lparr>am_transport := t\<rparr>"
| "am_click (BtnAuth a) f = f\<lparr>am_authType := a\<rparr>"
| "am_click BtnSubmit f = submit f"
| "am_click (BtnKvRemove k idx) f = am_kv k (kv_remove idx) f"
| "am_click (BtnKvAdd k) f = am_kv k kv_add f"

datatype am_event = AmAct "(am_btn, am_field) action"
  | AmReply manual_upstream_request "js_error + manual_upstream_response"

fun am_step :: "am_event \<Rightarrow> add_form \<Rightarrow> add_form" where
  "am_step (AmAct (Click b)) f = am_click b f"
| "am_step (AmAct (Edit fl v)) f = am_edit fl v f"
| "am_step (AmAct (Toggle fl)) f = am_toggle fl f"
| "am_step (AmReply b r) f = fst (submit_reply b r f)"

fun am_enabled :: "add_form \<Rightarrow> am_event \<Rightarrow> bool" where
  "am_enabled f (AmAct a) = offers (add_view f) a"
| "am_enabled f (AmReply b r) = (b \<in> set (am_pending f))"

section \<open>What the server accepts\<close>

text \<open>\<open>UPSTREAM_NAME_RE\<close> and the length check of \<open>registration.py\<close>; Python's \<open>$\<close> also matches before a
  final newline.\<close>

definition server_name_ok :: "string \<Rightarrow> bool" where
  "server_name_ok name \<longleftrightarrow> name \<noteq> [] \<and> length name \<le> 128
     \<and> (name_matches name \<or> (last name = CHR 0x0A \<and> name_matches (butlast name)))"

text \<open>The discriminated authentication models of \<open>config.py\<close>, on the posted block: the minimum lengths of
  \<open>BearerAuthConfig\<close>, \<open>ApiKeyAuthConfig\<close> and \<open>BasicAuthConfig\<close>, and \<open>_check_endpoints\<close> of
  \<open>OAuth2AuthConfig\<close>, whose \<open>bool\<close> of an absent, null or empty string is false.\<close>

definition text_field :: "nat \<Rightarrow> json \<Rightarrow> string \<Rightarrow> bool" where
  "text_field n j k = (case json_str (json_get j k) of Some s \<Rightarrow> n \<le> length s | None \<Rightarrow> False)"

definition check_endpoints :: "json \<Rightarrow> bool" where
  "check_endpoints j =
     (let has_issuer = text_field 1 j ''issuer'';
          has_manual = text_field 1 j ''authorization_endpoint'' \<and> text_field 1 j ''token_endpoint''
      in if \<not> has_issuer \<and> \<not> has_manual then False
         else if \<not> text_field 1 j ''client_id'' \<and> json_get j ''dynamic_registration'' \<noteq> Some (JBool True) then False
         else True)"

definition auth_model_ok :: "json \<Rightarrow> bool" where
  "auth_model_ok j =
     (let t = json_str (json_get j ''type'')
      in if t = Some ''none'' then True
         else if t = Some ''bearer'' then text_field 1 j ''token''
         else if t = Some ''api_key'' then text_field 1 j ''header'' \<and> text_field 1 j ''value''
         else if t = Some ''basic'' then text_field 1 j ''username'' \<and> text_field 0 j ''password''
         else if t = Some ''oauth2'' then check_endpoints j
         else False)"

section \<open>Lemmas\<close>

lemma text_field_eval:
  "text_field n (JObj ((k', v) # kvs)) k =
     (if k' = k then (case v of JStr s \<Rightarrow> n \<le> length s | _ \<Rightarrow> False) else text_field n (JObj kvs) k)"
  "text_field n (JObj []) k = False"
  by (auto simp: text_field_def split: json.split)

lemma auth_models_agree:
  "(case buildAuthPayload f of Val a \<Rightarrow> auth_model_ok (auth_json a) | _ \<Rightarrow> True) \<longleftrightarrow>
     (case am_authType f of
        AtNone \<Rightarrow> True
      | AtBearer \<Rightarrow> am_bearerToken f \<noteq> []
      | AtApiKey \<Rightarrow> am_apiKeyHeader f \<noteq> [] \<and> am_apiKeyValue f \<noteq> []
      | AtBasic \<Rightarrow> am_basicUser f \<noteq> []
      | AtOAuth2 \<Rightarrow> (am_oauthIssuer f \<noteq> [] \<or> am_oauthAuthEndpoint f \<noteq> [] \<and> am_oauthTokenEndpoint f \<noteq> [])
          \<and> (am_oauthClientId f \<noteq> [] \<or> am_oauthDynamicReg f))"
  by (cases "am_authType f")
    (auto simp: buildAuthPayload_def auth_model_ok_def check_endpoints_def text_field_eval or_null_def
      jprop_def Suc_le_eq Let_def)

lemma buildPayload_Some: "\<exists>c. buildPayload f = Some c"
  by (simp add: buildPayload_def split: transport.split)

definition kv_rows :: "key_value list \<Rightarrow> string \<Rightarrow> string list" where
  "kv_rows items k = map kv_value (filter (\<lambda>it. js_trim (kv_key it) = k) items)"

lemma kvToRecord_snoc:
  "kvToRecord (items @ [it]) = (if js_trim (kv_key it) = [] then kvToRecord items
     else obj_assign (js_trim (kv_key it)) (kv_value it) (kvToRecord items))"
  by (simp add: kvToRecord_def Let_def)

lemma kvToRecord_wf: "obj_wf (kvToRecord items)"
  by (induction items rule: rev_induct) (simp_all add: kvToRecord_snoc obj_wf_assign, simp add: kvToRecord_def obj_wf_def)

lemma kvToRecord_get:
  "obj_get (kvToRecord items) k =
     (if k = [] \<or> k = ''__proto__'' \<or> kv_rows items k = [] then None else Some (last (kv_rows items k)))"
proof (induction items rule: rev_induct)
  case Nil
  then show ?case by (simp add: kvToRecord_def kv_rows_def)
next
  case (snoc it items)
  then show ?case by (auto simp: kvToRecord_snoc obj_simps kv_rows_def)
qed

lemma args_of_line: "CHR 0x0A \<notin> set a \<Longrightarrow> args_of (a @ CHR 0x0A # s) = (if js_trim a = [] then [] else [js_trim a]) @ args_of s"
  by (simp add: args_of_def split_char_append_sep)

lemma args_of_join:
  "\<forall>a \<in> set args. a \<noteq> [] \<and> js_trim a = a \<and> CHR 0x0A \<notin> set a \<Longrightarrow> args_of (join [CHR 0x0A] args) = args"
proof (induction args rule: induct_list012)
  case (3 s t ts)
  then show ?case by (simp add: args_of_line)
qed (auto simp: args_of_def split_char_single)

lemma add_click:
  "offers (add_view f) (Click BtnSubmit) \<longleftrightarrow> \<not> submit_disabled f"
  by (auto simp: add_view_def Field_def stdio_fields_def http_fields_def oauth_fields_def KeyValueEditor_def
      list_ex_iff)

definition am_inv :: "add_form \<Rightarrow> bool" where
  "am_inv f \<longleftrightarrow> (if am_busy f then \<exists>b. am_pending f = [b] else am_pending f = [])"

lemma am_kv_fields [simp]: "am_busy (am_kv k h f) = am_busy f" "am_pending (am_kv k h f) = am_pending f"
  by (cases k; simp)+

lemma am_edit_fields [simp]: "am_busy (am_edit fl v f) = am_busy f" "am_pending (am_edit fl v f) = am_pending f"
  by (cases fl; simp)+

lemma am_toggle_fields [simp]: "am_busy (am_toggle fl f) = am_busy f" "am_pending (am_toggle fl f) = am_pending f"
  by (cases fl; simp)+

lemma am_click_fields:
  "b \<noteq> BtnSubmit \<Longrightarrow> am_busy (am_click b f) = am_busy f \<and> am_pending (am_click b f) = am_pending f"
  by (cases b) simp_all

lemma submit_fields:
  "am_busy (submit f)" "am_pending (submit f) = am_pending f @
     [\<lparr>mur_name = am_name f, mur_config = the (buildPayload f), mur_replace = am_replace f\<rparr>]"
  using buildPayload_Some [of f] by (auto simp: submit_def Let_def)

lemma submit_reply_fields:
  "\<not> am_busy (fst (submit_reply b r f))" "am_pending (fst (submit_reply b r f)) = remove1 b (am_pending f)"
  by (auto simp: submit_reply_def Let_def split: sum.split option.split)

lemma am_inv_step: "am_inv f \<Longrightarrow> am_enabled f ev \<Longrightarrow> am_inv (am_step ev f)"
proof (cases ev)
  case (AmAct a)
  assume inv: "am_inv f" and en: "am_enabled f ev"
  show ?thesis
  proof (cases a)
    case (Click b)
    show ?thesis
    proof (cases "b = BtnSubmit")
      case True
      then have "\<not> am_busy f" using en AmAct Click by (simp add: add_click submit_disabled_def)
      then show ?thesis using inv True AmAct Click by (simp add: am_inv_def submit_fields)
    next
      case False
      then show ?thesis using inv AmAct Click am_click_fields by (simp add: am_inv_def)
    qed
  qed (use inv AmAct in \<open>simp_all add: am_inv_def\<close>)
next
  case (AmReply b r)
  assume inv: "am_inv f" and en: "am_enabled f ev"
  then have "am_pending f = [b]" using AmReply by (auto simp: am_inv_def split: if_splits)
  then show ?thesis using AmReply by (simp add: am_inv_def submit_reply_fields)
qed

interpretation dialog: machine am_enabled am_step add_form_init am_inv
  by unfold_locales (simp_all add: am_inv_step, simp add: am_inv_def add_form_init_def)

section \<open>Properties\<close>

text \<open>C8: For an HTTP upstream the form asks of the authentication block exactly what the models of
  \<open>config.py\<close> ask of the JSON it would post: with a valid name and a URL that is not blank, the submit
  button's condition holds if and only if the block, as posted, passes the model its \<open>type\<close> selects (minimum
  lengths, the endpoints and the client of OAuth), or none is posted. The non-blank command or URL is the
  form's own demand (\<open>config.py\<close> takes any string), and one check of the server is missing: of the names the
  form accepts the server accepts those of at most 128 characters. That \<open>UpstreamConfig\<close> also has a variant
  for plugins, which takes any object, is not modelled.\<close>

theorem canSubmit_auth_models:
  "(canSubmit f \<longleftrightarrow> name_matches (am_name f)
     \<and> (case am_transport f of
          Stdio \<Rightarrow> js_trim (am_command f) \<noteq> []
        | Http \<Rightarrow> js_trim (am_url f) \<noteq> []
            \<and> (case buildAuthPayload f of Val a \<Rightarrow> auth_model_ok (auth_json a) | _ \<Rightarrow> True)))
   \<and> (canSubmit f \<and> server_name_ok (am_name f) \<longleftrightarrow> canSubmit f \<and> length (am_name f) \<le> 128)"
proof -
  have "canSubmit f \<longleftrightarrow> name_matches (am_name f)
     \<and> (case am_transport f of
          Stdio \<Rightarrow> js_trim (am_command f) \<noteq> []
        | Http \<Rightarrow> js_trim (am_url f) \<noteq> []
            \<and> (case buildAuthPayload f of Val a \<Rightarrow> auth_model_ok (auth_json a) | _ \<Rightarrow> True))"
    unfolding auth_models_agree by (auto simp: canSubmit_def split: transport.splits auth_type.splits)
  moreover have "canSubmit f \<Longrightarrow> server_name_ok (am_name f) \<longleftrightarrow> length (am_name f) \<le> 128"
    by (auto simp: canSubmit_def server_name_ok_def name_matches_def)
  ultimately show ?thesis by blast
qed

text \<open>The environment and header tables of the form are sent as a map in which each trimmed, non-empty
  key has the value of the last row that carries it; a row named \<open>__proto__\<close> is lost. Keys are distinct.\<close>

theorem kvToRecord_last_wins:
  "distinct (map fst (kvToRecord items))
   \<and> obj_get (kvToRecord items) k =
     (if k = [] \<or> k = ''__proto__'' \<or> filter (\<lambda>it. js_trim (kv_key it) = k) items = [] then None
      else Some (kv_value (last (filter (\<lambda>it. js_trim (kv_key it) = k) items))))"
  using kvToRecord_wf [of items] kvToRecord_get [of items k]
  by (auto simp: obj_wf_def kv_rows_def last_map)

text \<open>C33: The argument box round-trips: one argument per line comes back as exactly those arguments, in
  order, as long as none is blank, padded with white space or itself contains a line break.\<close>

theorem args_round_trip:
  assumes "\<forall>a \<in> set args. a \<noteq> [] \<and> js_trim a = a \<and> CHR 0x0A \<notin> set a" and "am_transport f = Stdio"
    and "am_argsText f = join [CHR 0x0A] args"
  shows "\<exists>c. buildPayload f = Some (StdioUp c) \<and> sup_args c = args"
  using args_of_join [OF assms(1)] assms(2,3) by (simp add: buildPayload_def)

theorem args_round_trip_witness:
  "\<exists>c. buildPayload (add_form_init\<lparr>am_argsText := join [CHR 0x0A] [''-y'', ''server'', ''/data dir'']\<rparr>) = Some (StdioUp c)
     \<and> sup_args c = [''-y'', ''server'', ''/data dir'']"
  by (rule args_round_trip) (simp_all add: add_form_init_def js_trim_def js_ws_def Let_def)

text \<open>C34: Submitting is single-flight: whenever the dialog's submit button can be pressed no registration
  is in flight, and pressing it sends exactly one request, with the values of the form at that moment.
  While it is in flight the button is disabled, and it stays disabled after a success.\<close>

theorem submit_single_flight:
  assumes "reachable am_enabled am_step add_form_init f" and "offers (add_view f) (Click BtnSubmit)"
  shows "am_pending f = []
    \<and> am_pending (am_step (AmAct (Click BtnSubmit)) f) =
        [\<lparr>mur_name = am_name f, mur_config = the (buildPayload f), mur_replace = am_replace f\<rparr>]
    \<and> \<not> offers (add_view (am_step (AmAct (Click BtnSubmit)) f)) (Click BtnSubmit)
    \<and> (mures_applied res \<longrightarrow> \<not> offers (add_view (fst (submit_reply b (Inr res) f))) (Click BtnSubmit))"
proof -
  have "\<not> am_busy f" using assms(2) by (simp add: add_click submit_disabled_def)
  then have p: "am_pending f = []" using dialog.reachable_inv [OF assms(1)] by (simp add: am_inv_def)
  moreover have "submit_disabled (fst (submit_reply b (Inr res) f))" if "mures_applied res"
    using that by (simp add: submit_reply_def submit_disabled_def Let_def split: option.split)
  ultimately show ?thesis by (simp add: add_click submit_fields submit_disabled_def)
qed

theorem submit_single_flight_witness:
  "\<exists>f. reachable am_enabled am_step add_form_init f \<and> offers (add_view f) (Click BtnSubmit) \<and> am_pending f = []"
proof -
  let ?f = "am_step (AmAct (Edit FCommand ''npx'')) (am_step (AmAct (Edit FName ''fs'')) add_form_init)"
  have "am_enabled add_form_init (AmAct (Edit FName ''fs''))"
    "am_enabled (am_step (AmAct (Edit FName ''fs'')) add_form_init) (AmAct (Edit FCommand ''npx''))" by code_simp+
  then have r: "reachable am_enabled am_step add_form_init ?f" by (intro reachable.step reachable.start)
  have o': "offers (add_view ?f) (Click BtnSubmit)" by code_simp
  show ?thesis using submit_single_flight [OF r o', of "\<lparr>mures_applied = True, mures_diff = None,
    mures_error = None, mures_warning = None, mures_status = None\<rparr>"] r o' by blast
qed

text \<open>The queue size is read with \<open>parseInt\<close>: a plain positive numeral is sent as the number it
  denotes and zero is dropped, but a numeral in exponent form, which a number input accepts and
  shows as such, is cut at the exponent: \<open>1e3\<close> is sent as 1.\<close>

theorem queue_size_parsed:
  "am_transport f = Stdio \<Longrightarrow>
   (\<exists>c. buildPayload (f\<lparr>am_queueSize := show_nat n\<rparr>) = Some (StdioUp c)
     \<and> sup_queue_size c = (if n = 0 then None else Some (int n)))
   \<and> (\<exists>c. buildPayload (f\<lparr>am_queueSize := ''1e3''\<rparr>) = Some (StdioUp c) \<and> sup_queue_size c = Some 1)"
proof -
  assume "am_transport f = Stdio"
  moreover have "parse_int ''1e3'' = Some 1" by code_simp
  ultimately show ?thesis by (simp add: buildPayload_def)
qed

theorem queue_size_parsed_witness:
  "\<exists>c. buildPayload (add_form_init\<lparr>am_queueSize := ''1e3''\<rparr>) = Some (StdioUp c) \<and> sup_queue_size c = Some 1"
  using queue_size_parsed [of add_form_init 0] by (simp add: add_form_init_def)

end
