(* ===== verification/BrowsePage.thy ===== *)
theory BrowsePage
  imports ManualUpstream
begin

text \<open>
  \<open>frontend/src/pages/Browse.tsx\<close>: the catalog with its search box, the dialog that installs an entry
  and the place where the "Add manually" dialog is mounted. The page's machine contains the machine of
  that dialog; the requests of a dialog that was closed while they were in flight are kept apart
  (\<open>br_manual_late\<close>, \<open>br_install_late\<close>), because their replies still run the callbacks they captured.
  \<open>br_timers\<close> counts the toast timers that have not fired.
\<close>

section \<open>Searching\<close>

definition hay :: "catalog_entry \<Rightarrow> string" where
  "hay entry = to_lower (join '' '' ([ce_id entry, ce_name entry, ce_description entry] @ ce_tags entry))"

definition entry_matches :: "string \<Rightarrow> string \<Rightarrow> catalog_entry \<Rightarrow> bool" where
  "entry_matches q category entry =
     (if category \<noteq> [] \<and> ce_category entry \<noteq> category then False
      else if q = [] then True
      else (\<forall>part \<in> set (split_runs js_ws q). str_includes (hay entry) part))"

definition filtered :: "catalog_response option \<Rightarrow> string \<Rightarrow> string \<Rightarrow> catalog_entry list" where
  "filtered catalog query category = (case catalog of
      None \<Rightarrow> []
    | Some c \<Rightarrow> filter (entry_matches (to_lower (js_trim query)) category) (cr_entries c))"

section \<open>The install dialog\<close>

record install_request =
  iq_id :: string
  iq_name :: string
  iq_variables :: "string obj"

record install_dialog =
  id_name :: string
  id_vars :: "string obj"
  id_busy :: bool
  id_error :: "string option"
  id_result :: "string option"
  id_pending :: "install_request list"

text \<open>\<open>Object.fromEntries\<close>\<close>

definition from_entries :: "(string \<times> 'v) list \<Rightarrow> 'v obj" where
  "from_entries es = fold (\<lambda>(k, v). obj_put k v) es []"

definition install_init :: "catalog_entry \<Rightarrow> install_dialog" where
  "install_init entry = \<lparr>id_name = ce_id entry,
     id_vars = from_entries (map (\<lambda>v. (cv_name v, nullish (cv_default v) [])) (ce_variables entry)),
     id_busy = False, id_error = None, id_result = None, id_pending = []\<rparr>"

definition install :: "catalog_entry \<Rightarrow> install_dialog \<Rightarrow> install_dialog" where
  "install entry d = d\<lparr>id_busy := True, id_error := None, id_result := None,
     id_pending := id_pending d @ [\<lparr>iq_id = ce_id entry, iq_name = id_name d, iq_variables = id_vars d\<rparr>]\<rparr>"

definition install_body :: "install_request \<Rightarrow> json" where
  "install_body q = JObj [(''id'', JStr (iq_id q)), (''name'', JStr (iq_name q)),
     (''variables'', str_obj_json (iq_variables q))]"

text \<open>The reply carries \<open>applied\<close> and the name in \<open>installed\<close>, both optional.\<close>

definition install_reply :: "install_request \<Rightarrow> js_error + (bool option \<times> string option) \<Rightarrow>
    install_dialog \<Rightarrow> install_dialog" where
  "install_reply q r d =
     (let d0 = d\<lparr>id_pending := remove1 q (id_pending d), id_busy := False\<rparr>
      in case r of
        Inr (applied, installed) \<Rightarrow>
          if nullish applied False
          then d0\<lparr>id_result := Some (''Installed as upstream '' @ quoted (nullish installed (iq_name q)) @ ''.'')\<rparr>
          else d0\<lparr>id_error := Some ''install returned applied=false''\<rparr>
      | Inl e \<Rightarrow> d0\<lparr>id_error := Some (error_text e)\<rparr>)"

definition set_var :: "string \<Rightarrow> string \<Rightarrow> install_dialog \<Rightarrow> install_dialog" where
  "set_var k v d = d\<lparr>id_vars := obj_put k v (id_vars d)\<rparr>"

section \<open>The page\<close>

record browse =
  br_catalog :: "catalog_response option"
  br_error :: "string option"
  br_query :: string
  br_category :: string
  br_selected :: "catalog_entry option"
  br_install :: install_dialog
  br_manual :: "add_form option"
  br_toast :: "string option"
  br_timers :: nat
  br_loading :: bool
  br_manual_late :: "manual_upstream_request list"
  br_install_late :: "install_request list"

definition no_install :: install_dialog where
  "no_install = \<lparr>id_name = [], id_vars = [], id_busy = False, id_error = None, id_result = None, id_pending = []\<rparr>"

definition browse_init :: browse where
  "browse_init = \<lparr>br_catalog = None, br_error = None, br_query = [], br_category = [],
     br_selected = None, br_install = no_install, br_manual = None, br_toast = None, br_timers = 0,
     br_loading = True, br_manual_late = [], br_install_late = []\<rparr>"

datatype br_btn = BtnManualOpen | BtnInstallOpen catalog_entry | BtnInstallX | BtnInstallClose
  | BtnInstall | BtnManual am_btn

datatype br_field = FQuery | FCategory | FInstallName | FVar string | FManual am_field

type_synonym br_view = "(br_btn, br_field) view"

definition CatalogCard :: "catalog_entry \<Rightarrow> br_view" where
  "CatalogCard entry = Box [
     Txt (ce_id entry), Txt (ce_category entry), Txt (ce_transport entry), Txt (ce_name entry),
     Button (BtnInstallOpen entry) False [Txt ''Install''],
     Txt (ce_description entry),
     cond (ce_install_hint entry \<noteq> []) (Txt (ce_install_hint entry)),
     cond (ce_tags entry \<noteq> []) (Box (map Txt (ce_tags entry))),
     cond (ce_homepage entry \<noteq> []) (Link (ce_homepage entry) [Txt (ce_homepage entry)])]"

definition InstallDialog :: "catalog_entry \<Rightarrow> install_dialog \<Rightarrow> br_view" where
  "InstallDialog entry d = Box [
     Txt (''Install '' @ ce_name entry), Txt (ce_id entry), Button BtnInstallX False [],
     Txt ''Upstream name'', Input FInstallName False (id_name d),
     cond (ce_variables entry \<noteq> []) (Box (map (\<lambda>v. Box [
       Txt (cv_name v), cond (cv_required v) (Txt '' *''),
       Input (FVar (cv_name v)) False (nullish (obj_get (id_vars d) (cv_name v)) []),
       Txt (cv_description v)]) (ce_variables entry))),
     error_box (id_error d),
     error_box (id_result d),
     Button BtnInstallClose (id_busy d) [Txt ''Close''],
     Button BtnInstall (id_busy d \<or> (case id_result d of Some m \<Rightarrow> m \<noteq> [] | None \<Rightarrow> False))
       [Txt (if id_busy d then ''Installing...'' else ''Install'')]]"

text \<open>The manual dialog's view with its events renamed into the page's.\<close>

abbreviation embed :: "am_view \<Rightarrow> br_view" where
  "embed \<equiv> map_view BtnManual FManual"

definition browse_view :: "browse \<Rightarrow> br_view" where
  "browse_view s =
     (if nullish (br_error s) [] \<noteq> [] then Txt (''Failed to load catalog: '' @ the (br_error s))
      else case br_catalog s of
        None \<Rightarrow> Txt ''Loading catalog...''
      | Some c \<Rightarrow>
        (let shown = filtered (br_catalog s) (br_query s) (br_category s) in Box [
          Txt ''Browse MCP servers'',
          Input FQuery False (br_query s),
          Choice FCategory False (br_category s) ([] # cr_categories c),
          Txt (show_nat (length shown) @ '' / '' @ show_nat (length (cr_entries c)) @ '' servers''),
          Button BtnManualOpen False [Txt ''Add manually''],
          error_box (br_toast s),
          Box (map CatalogCard shown),
          (case br_selected s of Some entry \<Rightarrow> InstallDialog entry (br_install s) | None \<Rightarrow> Box []),
          (case br_manual s of Some f \<Rightarrow> embed (add_view f) | None \<Rightarrow> Box [])]))"

section \<open>Handlers\<close>

definition catalog_reply :: "js_error + catalog_response \<Rightarrow> browse \<Rightarrow> browse" where
  "catalog_reply r s = (case r of
      Inr c \<Rightarrow> s\<lparr>br_catalog := Some c, br_loading := False\<rparr>
    | Inl e \<Rightarrow> s\<lparr>br_error := Some (error_text e), br_loading := False\<rparr>)"

text \<open>\<open>setSelected(entry)\<close>. React keeps the state of an \<open>InstallDialog\<close> that is already mounted, since the
  element carries no key; only a dialog that was closed starts from the entry's defaults.\<close>

definition open_install :: "catalog_entry \<Rightarrow> browse \<Rightarrow> browse" where
  "open_install entry s =
     (if br_selected s = None then s\<lparr>br_selected := Some entry, br_install := install_init entry\<rparr>
      else s\<lparr>br_selected := Some entry\<rparr>)"

definition close_install :: "browse \<Rightarrow> browse" where
  "close_install s = s\<lparr>br_selected := None, br_install := no_install,
     br_install_late := br_install_late s @ id_pending (br_install s)\<rparr>"

definition open_manual :: "browse \<Rightarrow> browse" where
  "open_manual s = (case br_manual s of None \<Rightarrow> s\<lparr>br_manual := Some add_form_init\<rparr> | Some f \<Rightarrow> s)"

definition close_manual :: "browse \<Rightarrow> browse" where
  "close_manual s = (case br_manual s of
      None \<Rightarrow> s
    | Some f \<Rightarrow> s\<lparr>br_manual := None, br_manual_late := br_manual_late s @ am_pending f\<rparr>)"

text \<open>The page's \<open>onInstalled\<close>, and the timer it starts.\<close>

definition on_installed :: "string \<Rightarrow> browse \<Rightarrow> browse" where
  "on_installed name s = close_manual (s\<lparr>br_toast := Some (''Registered upstream '' @ quoted name @ ''.''),
     br_timers := Suc (br_timers s)\<rparr>)"

definition toast_timer :: "browse \<Rightarrow> browse" where
  "toast_timer s = s\<lparr>br_toast := None, br_timers := br_timers s - 1\<rparr>"

definition notify :: "string option \<Rightarrow> browse \<Rightarrow> browse" where
  "notify n s = (case n of Some name \<Rightarrow> on_installed name s | None \<Rightarrow> s)"

definition manual_reply :: "manual_upstream_request \<Rightarrow> js_error + manual_upstream_response \<Rightarrow> browse \<Rightarrow> browse" where
  "manual_reply b r s = (case br_manual s of
      None \<Rightarrow> s
    | Some f \<Rightarrow> notify (snd (submit_reply b r f)) (s\<lparr>br_manual := Some (fst (submit_reply b r f))\<rparr>))"

text \<open>The reply to a request of a dialog that is gone: its state changes are lost, its callback is not.\<close>

definition manual_late_reply :: "manual_upstream_request \<Rightarrow> js_error + manual_upstream_response \<Rightarrow> browse \<Rightarrow> browse" where
  "manual_late_reply b r s = notify (snd (submit_reply b r add_form_init))
     (s\<lparr>br_manual_late := remove1 b (br_manual_late s)\<rparr>)"

section \<open>The machine\<close>

datatype br_event =
    BrAct "(br_btn, br_field) action"
  | BrCatalog "js_error + catalog_response"
  | BrInstall install_request "js_error + (bool option \<times> string option)"
  | BrInstallLate install_request "js_error + (bool option \<times> string option)"
  | BrManual manual_upstream_request "js_error + manual_upstream_response"
  | BrManualLate manual_upstream_request "js_error + manual_upstream_response"
  | BrTimer

definition with_manual :: "(add_form \<Rightarrow> add_form) \<Rightarrow> browse \<Rightarrow> browse" where
  "with_manual h s = s\<lparr>br_manual := map_option h (br_manual s)\<rparr>"

fun br_click :: "br_btn \<Rightarrow> browse \<Rightarrow> browse" where
  "br_click BtnManualOpen s = open_manual s"
| "br_click (BtnInstallOpen entry) s = open_install entry s"
| "br_click BtnInstallX s = close_install s"
| "br_click BtnInstallClose s = close_install s"
| "br_click BtnInstall s = (case br_selected s of
     Some entry \<Rightarrow> s\<lparr>br_install := install entry (br_install s)\<rparr> | None \<Rightarrow> s)"
| "br_click (BtnManual b) s =
     (if b = BtnX \<or> b = BtnClose then close_manual s else with_manual (am_step (AmAct (Click b))) s)"

fun br_edit :: "br_field \<Rightarrow> string \<Rightarrow> browse \<Rightarrow> browse" where
  "br_edit FQuery v s = s\<lparr>br_query := v\<rparr>"
| "br_edit FCategory v s = s\<lparr>br_category := v\<rparr>"
| "br_edit FInstallName v s = s\<lparr>br_install := (br_install s)\<lparr>id_name := v\<rparr>\<rparr>"
| "br_edit (FVar k) v s = s\<lparr>br_install := set_var k v (br_install s)\<rparr>"
| "br_edit (FManual f) v s = with_manual (am_step (AmAct (Edit f v))) s"

fun br_toggle :: "br_field \<Rightarrow> browse \<Rightarrow> browse" where
  "br_toggle (FManual f) s = with_manual (am_step (AmAct (Toggle f))) s"
| "br_toggle _ s = s"

fun br_step :: "br_event \<Rightarrow> browse \<Rightarrow> browse" where
  "br_step (BrAct (Click b)) s = br_click b s"
| "br_step (BrAct (Edit f v)) s = br_edit f v s"
| "br_step (BrAct (Toggle f)) s = br_toggle f s"
| "br_step (BrCatalog r) s = catalog_reply r s"
| "br_step (BrInstall q r) s = s\<lparr>br_install := install_reply q r (br_install s)\<rparr>"
| "br_step (BrInstallLate q r) s = s\<lparr>br_install_late := remove1 q (br_install_late s)\<rparr>"
| "br_step (BrManual b r) s = manual_reply b r s"
| "br_step (BrManualLate b r) s = manual_late_reply b r s"
| "br_step BrTimer s = toast_timer s"

fun br_enabled :: "browse \<Rightarrow> br_event \<Rightarrow> bool" where
  "br_enabled s (BrAct a) = offers (browse_view s) a"
| "br_enabled s (BrCatalog r) = br_loading s"
| "br_enabled s (BrInstall q r) = (q \<in> set (id_pending (br_install s)))"
| "br_enabled s (BrInstallLate q r) = (q \<in> set (br_install_late s))"
| "br_enabled s (BrManual b r) = (case br_manual s of Some f \<Rightarrow> b \<in> set (am_pending f) | None \<Rightarrow> False)"
| "br_enabled s (BrManualLate b r) = (b \<in> set (br_manual_late s))"
| "br_enabled s BrTimer = (br_timers s > 0)"

section \<open>Lemmas on the search\<close>

lemma split_runs_part: "part \<in> set (split_runs p s) \<Longrightarrow> \<exists>a b. s = a @ part @ b"
proof (induction p s arbitrary: part rule: split_runs.induct)
  case (1 p s)
  let ?w = "takeWhile (\<lambda>c. \<not> p c) s" and ?r = "dropWhile (\<lambda>c. \<not> p c) s"
  have s: "s = ?w @ ?r" by simp
  from "1.prems" consider "part = ?w" | "?r \<noteq> []" "part \<in> set (split_runs p (dropWhile p ?r))"
    by (subst (asm) split_runs.simps) (auto simp: Let_def split: if_splits)
  then show ?case
  proof cases
    case 1
    then show ?thesis using s by (metis append_Nil)
  next
    case 2
    then obtain a b where "dropWhile p ?r = a @ part @ b" using "1.IH" [OF refl refl 2(1) 2(2)] by blast
    then have "s = (?w @ takeWhile p ?r @ a) @ part @ b" using s by (metis append.assoc takeWhile_dropWhile_id)
    then show ?thesis by blast
  qed
qed

lemma includes_trans: "str_includes h m \<Longrightarrow> str_includes m n \<Longrightarrow> str_includes h n"
  unfolding includes_iff by (metis append.assoc)

lemma includes_lower: "str_includes h n \<Longrightarrow> str_includes (to_lower h) (to_lower n)"
  by (auto simp: includes_iff to_lower_def) (metis map_append)

lemma js_trim_part: "str_includes s (js_trim s)"
proof -
  have "\<exists>a. s = a @ dropWhile js_ws s" by (metis takeWhile_dropWhile_id)
  moreover have "\<exists>b. dropWhile js_ws s = js_trim s @ b"
    unfolding js_trim_def by (metis rev_append rev_rev_ident takeWhile_dropWhile_id)
  ultimately show ?thesis unfolding includes_iff by metis
qed

lemma includes_join: "x \<in> set xs \<Longrightarrow> str_includes (join d xs) x"
proof (induction d xs rule: join.induct)
  case (3 d s t ts)
  show ?case
  proof (cases "x = s")
    case True
    then have "join d (s # t # ts) = [] @ x @ (d @ join d (t # ts))" by simp
    then show ?thesis unfolding includes_iff by blast
  next
    case False
    then obtain a b where "join d (t # ts) = a @ x @ b" using 3 by (auto simp: includes_iff)
    then have "join d (s # t # ts) = (s @ d @ a) @ x @ b" by simp
    then show ?thesis unfolding includes_iff by blast
  qed
qed (auto simp: includes_iff, metis append_Nil append_Nil2)

lemma query_part_found:
  assumes x: "x \<in> set ([ce_id entry, ce_name entry, ce_description entry] @ ce_tags entry)"
    and inc: "str_includes (to_lower x) (to_lower (js_trim query))"
    and part: "part \<in> set (split_runs js_ws (to_lower (js_trim query)))"
  shows "str_includes (hay entry) part"
proof -
  have "str_includes (to_lower (js_trim query)) part"
    using split_runs_part [OF part] by (auto simp: includes_iff)
  then have "str_includes (to_lower x) part" using inc includes_trans by blast
  moreover have "str_includes (hay entry) (to_lower x)"
    unfolding hay_def by (rule includes_lower) (rule includes_join [OF x])
  ultimately show ?thesis using includes_trans by blast
qed

lemma from_entries_snoc: "from_entries (es @ [(k, v)]) = obj_put k v (from_entries es)"
  by (simp add: from_entries_def)

lemma from_entries_get: "obj_get (from_entries es) k = map_of (rev es) k"
proof (induction es rule: rev_induct)
  case Nil
  then show ?case by (simp add: from_entries_def)
next
  case (snoc e es)
  then show ?case by (cases e) (simp add: from_entries_snoc obj_simps)
qed

lemma from_entries_distinct: "distinct (map fst es) \<Longrightarrow> obj_get (from_entries es) = map_of es"
  using map_of_inject_set [of "rev es" es] by (intro ext) (simp add: from_entries_get rev_map [symmetric])

section \<open>Properties\<close>

definition sample_entry :: catalog_entry where
  "sample_entry = \<lparr>ce_id = ''github'', ce_name = ''GitHub'', ce_description = ''Issues and pull requests'',
     ce_category = ''dev'', ce_homepage = [], ce_transport = ''stdio'', ce_install_hint = [],
     ce_tags = [''git'', ''code''],
     ce_variables = [\<lparr>cv_name = ''host'', cv_description = [], cv_required = False,
       cv_default = Some ''github.com'', cv_secret = False\<rparr>],
     ce_command = None, ce_args = None, ce_url = None, ce_env = None\<rparr>"

definition sample_catalog :: catalog_response where
  "sample_catalog = \<lparr>cr_version = 1, cr_updated_at = [], cr_categories = [''dev''], cr_entries = [sample_entry]\<rparr>"

text \<open>Searching the catalog is complete and sound: an entry is found by any fragment of its id, its name,
  its description or one of its tags, in any letter case and with surrounding white space, as long as
  the category filter admits it; and every entry shown is in the catalog, has the chosen category and
  contains every word of the query. The entries keep the catalog's order.\<close>

theorem catalog_search:
  assumes "entry \<in> set (cr_entries c)" and "category = [] \<or> ce_category entry = category"
    and "\<exists>x \<in> set ([ce_id entry, ce_name entry, ce_description entry] @ ce_tags entry).
      str_includes (to_lower x) (to_lower (js_trim query))"
  shows "entry \<in> set (filtered (Some c) query category)
    \<and> (\<exists>p. filtered (Some c) query category = filter p (cr_entries c))
    \<and> (\<forall>e \<in> set (filtered (Some c) query category). (category = [] \<or> ce_category e = category)
        \<and> (js_trim query = [] \<or>
           (\<forall>word \<in> set (split_runs js_ws (to_lower (js_trim query))). str_includes (hay e) word)))"
proof -
  have "entry_matches (to_lower (js_trim query)) category entry"
    using assms(2,3) query_part_found [where query = query] by (auto simp: entry_matches_def)
  moreover have "to_lower (js_trim query) = [] \<longleftrightarrow> js_trim query = []" by (simp add: to_lower_def)
  moreover have "filtered (Some c) query category = filter (entry_matches (to_lower (js_trim query)) category) (cr_entries c)"
    by (simp add: filtered_def)
  ultimately show ?thesis
    using assms(1) by (intro conjI exI) (auto simp: entry_matches_def split: if_splits)
qed

theorem catalog_search_witness:
  "sample_entry \<in> set (filtered (Some sample_catalog) ''  PULL '' ''dev'')"
proof (rule conjunct1 [OF catalog_search])
  show "sample_entry \<in> set (cr_entries sample_catalog)" by (simp add: sample_catalog_def)
  show "''dev'' = [] \<or> ce_category sample_entry = ''dev''" by (simp add: sample_entry_def)
  show "\<exists>x \<in> set ([ce_id sample_entry, ce_name sample_entry, ce_description sample_entry] @ ce_tags sample_entry).
      str_includes (to_lower x) (to_lower (js_trim ''  PULL ''))" by code_simp
qed

text \<open>A registration that succeeds with a warning (the upstream was added but does not run) closes the
  dialog in the same event that stores the warning, so the warning is never shown: the page is left
  exactly as by a registration without one, announcing success.\<close>

theorem registration_warning_lost:
  assumes "br_manual s = Some f" and "mures_applied res"
  shows "br_step (BrManual b (Inr (res\<lparr>mures_warning := w\<rparr>))) s = br_step (BrManual b (Inr (res\<lparr>mures_warning := None\<rparr>))) s
    \<and> br_manual (br_step (BrManual b (Inr (res\<lparr>mures_warning := w\<rparr>))) s) = None
    \<and> br_toast (br_step (BrManual b (Inr (res\<lparr>mures_warning := w\<rparr>))) s)
        = Some (''Registered upstream '' @ quoted (mur_name b) @ ''.'')"
  using assms by (auto simp: manual_reply_def submit_reply_def notify_def on_installed_def close_manual_def
      Let_def split: option.splits)

definition applied_response :: manual_upstream_response where
  "applied_response = \<lparr>mures_applied = True, mures_diff = None, mures_error = None, mures_warning = None,
     mures_status = None\<rparr>"

definition sample_request :: manual_upstream_request where
  "sample_request = \<lparr>mur_name = ''fs'', mur_config = StdioUp \<lparr>sup_command = ''npx'', sup_args = [],
     sup_env = None, sup_queue_size = None\<rparr>, mur_replace = False\<rparr>"

definition register_run :: "br_event list" where
  "register_run = [BrCatalog (Inr sample_catalog), BrAct (Click BtnManualOpen),
     BrAct (Edit (FManual FName) ''fs''), BrAct (Edit (FManual FCommand) ''npx''),
     BrAct (Click (BtnManual BtnSubmit))]"

theorem registration_warning_lost_witness:
  "\<exists>s. run br_enabled br_step browse_init register_run = Some s
     \<and> br_enabled s (BrManual sample_request (Inr (applied_response\<lparr>mures_warning := Some ''exited''\<rparr>)))
     \<and> br_manual (br_step (BrManual sample_request (Inr (applied_response\<lparr>mures_warning := Some ''exited''\<rparr>))) s) = None"
proof -
  let ?r = "run br_enabled br_step browse_init register_run"
  have r: "?r \<noteq> None" by code_simp
  have en: "br_enabled (the ?r) (BrManual sample_request (Inr (applied_response\<lparr>mures_warning := Some ''exited''\<rparr>)))"
    by code_simp
  then obtain f where f: "br_manual (the ?r) = Some f" by (auto split: option.splits)
  have "mures_applied applied_response" by (simp add: applied_response_def)
  from registration_warning_lost [OF f this] r en show ?thesis by (intro exI [of _ "the ?r"]) simp
qed

text \<open>A dialog that is closed with its header button while its registration is in flight leaves a reply
  behind that closes whichever dialog is open when it succeeds: a form the user has opened since, and
  everything typed into it, is discarded.\<close>

theorem late_registration_closes_new_dialog:
  assumes "br_enabled s (BrManualLate b (Inr res))" and "mures_applied res"
  shows "br_manual (br_step (BrManualLate b (Inr res)) s) = None"
  using assms(2) by (simp add: manual_late_reply_def submit_reply_def notify_def on_installed_def
      close_manual_def Let_def split: option.split)

theorem late_registration_closes_new_dialog_witness:
  "\<exists>s f. run br_enabled br_step browse_init (register_run @ [BrAct (Click (BtnManual BtnX)),
       BrAct (Click BtnManualOpen), BrAct (Edit (FManual FName) ''other'')]) = Some s
     \<and> br_manual s = Some f \<and> am_name f = ''other''
     \<and> br_manual (br_step (BrManualLate sample_request (Inr applied_response)) s) = None"
proof -
  let ?r = "run br_enabled br_step browse_init (register_run @ [BrAct (Click (BtnManual BtnX)),
       BrAct (Click BtnManualOpen), BrAct (Edit (FManual FName) ''other'')])"
  have r: "?r \<noteq> None" by code_simp
  have en: "br_enabled (the ?r) (BrManualLate sample_request (Inr applied_response))" by code_simp
  have n: "map_option am_name (br_manual (the ?r)) = Some ''other''" by code_simp
  have "mures_applied applied_response" by (simp add: applied_response_def)
  from late_registration_closes_new_dialog [OF en this] r n show ?thesis
    by (intro exI [of _ "the ?r"]) auto
qed

text \<open>In a dialog that was closed before it was opened for the entry, every variable of the entry is posted:
  with its default until the user edits it, with the last edit afterwards.\<close>

lemma fresh_dialog_posts:
  assumes "v \<in> set (ce_variables entry)" and "distinct (map cv_name (ce_variables entry))"
  shows "\<exists>q. id_pending (install entry (fold (\<lambda>(k, t). set_var k t) edits (install_init entry))) = [q]
    \<and> iq_id q = ce_id entry \<and> iq_name q = ce_id entry
    \<and> obj_get (iq_variables q) (cv_name v) =
        Some (case map_of (rev edits) (cv_name v) of Some t \<Rightarrow> t | None \<Rightarrow> nullish (cv_default v) [])"
proof -
  let ?ds = "map (\<lambda>v. (cv_name v, nullish (cv_default v) [])) (ce_variables entry)"
  have d: "distinct (map fst ?ds)" using assms(2) by (simp add: comp_def)
  have m: "map_of ?ds (cv_name v) = Some (nullish (cv_default v) [])"
    using assms(1) d by (intro map_of_is_SomeI) auto
  have "id_pending (fold (\<lambda>(k, t). set_var k t) es x) = id_pending x
      \<and> id_name (fold (\<lambda>(k, t). set_var k t) es x) = id_name x
      \<and> obj_get (id_vars (fold (\<lambda>(k, t). set_var k t) es x)) (cv_name v)
        = (case map_of (rev es) (cv_name v) of Some t \<Rightarrow> Some t | None \<Rightarrow> obj_get (id_vars x) (cv_name v))"
    for es x
    by (induction es rule: rev_induct) (auto simp: set_var_def obj_simps)
  moreover have "obj_get (id_vars (install_init entry)) (cv_name v) = Some (nullish (cv_default v) [])"
    using m by (simp add: install_init_def from_entries_distinct [OF d])
  ultimately show ?thesis
    by (auto simp: install_def install_init_def split: option.split)
qed

text \<open>One installation at a time.\<close>

definition browse_inv :: "browse \<Rightarrow> bool" where
  "browse_inv s \<longleftrightarrow> (let d = br_install s in
     if id_busy d then \<exists>q. id_pending d = [q] else id_pending d = [])"

lemma offers_embed: "\<not> offers (embed v) (Click BtnInstall)"
proof -
  have "inj BtnManual" "inj FManual" by (simp_all add: inj_def)
  moreover have "Click BtnInstall \<noteq> map_action BtnManual FManual a" for a by (cases a) simp_all
  ultimately show ?thesis by (simp add: offers_map_view)
qed

lemma install_offered:
  "offers (browse_view s) (Click BtnInstall) \<longleftrightarrow> nullish (br_error s) [] = [] \<and> br_catalog s \<noteq> None \<and> br_selected s \<noteq> None
     \<and> \<not> id_busy (br_install s) \<and> nullish (id_result (br_install s)) [] = []"
  by (auto simp: browse_view_def CatalogCard_def InstallDialog_def list_ex_iff offers_embed nullish_def Let_def
      split: option.split)

lemma install_frame [simp]:
  "br_install (with_manual h s) = br_install s" "br_install (open_manual s) = br_install s"
  "br_install (close_manual s) = br_install s" "br_install (on_installed n s) = br_install s"
  "br_install (notify m s) = br_install s" "br_install (manual_reply b r s) = br_install s"
  "br_install (manual_late_reply b r s) = br_install s" "br_install (catalog_reply c s) = br_install s"
proof -
  show 1: "br_install (close_manual s) = br_install s" for s by (simp add: close_manual_def split: option.split)
  show 2: "br_install (on_installed n s) = br_install s" for n s by (simp add: on_installed_def 1)
  show 3: "br_install (notify m s) = br_install s" for m s by (simp add: notify_def 2 split: option.split)
  show "br_install (with_manual h s) = br_install s" "br_install (open_manual s) = br_install s"
    "br_install (manual_reply b r s) = br_install s" "br_install (manual_late_reply b r s) = br_install s"
    "br_install (catalog_reply c s) = br_install s"
    by (simp_all add: with_manual_def open_manual_def manual_reply_def manual_late_reply_def catalog_reply_def 3
        split: option.split sum.split)
qed

lemma browse_inv_click:
  assumes inv: "browse_inv s" and en: "offers (browse_view s) (Click b)"
  shows "browse_inv (br_click b s)"
proof (cases b)
  case BtnInstall
  then show ?thesis using inv en by (auto simp: install_offered browse_inv_def install_def Let_def split: option.split)
qed (use inv in \<open>auto simp: browse_inv_def open_install_def install_init_def close_install_def no_install_def Let_def\<close>)

lemma browse_inv_step:
  assumes inv: "browse_inv s" and en: "br_enabled s ev" shows "browse_inv (br_step ev s)"
proof (cases ev)
  case (BrAct a)
  then show ?thesis
  proof (cases a)
    case (Click b)
    then show ?thesis using browse_inv_click inv en BrAct by simp
  next
    case (Edit f v)
    then show ?thesis using inv BrAct by (cases f) (auto simp: browse_inv_def set_var_def Let_def)
  next
    case (Toggle f)
    then show ?thesis using inv BrAct by (cases f) (auto simp: browse_inv_def)
  qed
next
  case (BrInstall q r)
  then have "id_pending (br_install s) = [q]" using inv en by (auto simp: browse_inv_def Let_def split: if_splits)
  then show ?thesis using BrInstall
    by (auto simp: browse_inv_def install_reply_def Let_def split: sum.split prod.split)
qed (use inv in \<open>auto simp: browse_inv_def toast_timer_def\<close>)

interpretation browse: machine br_enabled br_step browse_init browse_inv
  by unfold_locales (auto simp: browse_inv_step, simp add: browse_inv_def browse_init_def no_install_def)

definition install_field :: "br_field \<Rightarrow> bool" where
  "install_field f \<longleftrightarrow> (case f of FInstallName \<Rightarrow> True | FVar k \<Rightarrow> True | _ \<Rightarrow> False)"

lemma shown_install_fields:
  assumes "nullish (br_error s) [] = []" and "br_catalog s \<noteq> None" and "br_selected s = Some entry"
  shows "filter (\<lambda>e. install_field (fst e)) (shown_fields (browse_view s)) = (FInstallName, id_name (br_install s))
    # map (\<lambda>v. (FVar (cv_name v), nullish (obj_get (id_vars (br_install s)) (cv_name v)) [])) (ce_variables entry)"
proof -
  have cards: "concat (map (\<lambda>e. shown_fields (CatalogCard e)) es) = []" for es
    by (simp add: CatalogCard_def o_def)
  have manual: "filter (\<lambda>e. install_field (fst e)) (shown_fields (embed v)) = []" for v
    by (auto simp: shown_fields_map_view filter_empty_conv install_field_def)
  have vars: "filter (\<lambda>e. install_field (fst e)) (map (\<lambda>v. (FVar (cv_name v), h v)) vs) = map (\<lambda>v. (FVar (cv_name v), h v)) vs"
    for h :: "catalog_variable \<Rightarrow> string" and vs by (induction vs) (simp_all add: install_field_def)
  have single: "concat (map (\<lambda>v. (if c v then shown_fields (Txt t :: br_view) else []) @ [h v]) vs) = map h vs"
    for c t and h :: "catalog_variable \<Rightarrow> br_field \<times> string" and vs
    by (induction vs) simp_all
  show ?thesis
    using assms manual by (auto simp: browse_view_def InstallDialog_def cards vars single o_def Let_def install_field_def split: option.split)
qed

text \<open>C20: What the install dialog shows is what it posts, in every reachable state of the catalog page. If the
  Install button can be pressed, no installation of this dialog is in flight, and the press sends exactly one
  request: with the id of the entry the dialog is open for, with the name its name field shows, and for each
  variable of the entry, in the order of the fields, with the value its field shows (a variable that is not
  posted is one whose field is empty). Afterwards the button is disabled. This does not say that the values
  were entered for this entry: see lemma \<open>switched_entry_mixed\<close>.\<close>

theorem install_posts_what_is_shown:
  assumes "reachable br_enabled br_step browse_init s" and "offers (browse_view s) (Click BtnInstall)"
  shows "\<exists>entry q. br_selected s = Some entry \<and> id_pending (br_install s) = []
    \<and> id_pending (br_install (br_step (BrAct (Click BtnInstall)) s)) = [q] \<and> iq_id q = ce_id entry
    \<and> filter (\<lambda>e. install_field (fst e)) (shown_fields (browse_view s)) = (FInstallName, iq_name q)
        # map (\<lambda>v. (FVar (cv_name v), nullish (obj_get (iq_variables q) (cv_name v)) [])) (ce_variables entry)
    \<and> \<not> offers (browse_view (br_step (BrAct (Click BtnInstall)) s)) (Click BtnInstall)"
proof -
  have o': "nullish (br_error s) [] = []" "br_catalog s \<noteq> None" "\<not> id_busy (br_install s)"
    using assms(2) by (simp_all add: install_offered)
  obtain entry where e: "br_selected s = Some entry" using assms(2) by (auto simp: install_offered)
  have "id_pending (br_install s) = []"
    using browse.reachable_inv [OF assms(1)] o'(3) by (simp add: browse_inv_def Let_def)
  then show ?thesis using o' e shown_install_fields [OF o'(1,2) e] by (simp add: install_def install_offered)
qed

theorem install_posts_what_is_shown_witness:
  "\<exists>s entry q. reachable br_enabled br_step browse_init s
     \<and> br_selected s = Some entry \<and> id_pending (br_install (br_step (BrAct (Click BtnInstall)) s)) = [q]
     \<and> filter (\<lambda>e. install_field (fst e)) (shown_fields (browse_view s)) = (FInstallName, iq_name q)
        # map (\<lambda>v. (FVar (cv_name v), nullish (obj_get (iq_variables q) (cv_name v)) [])) (ce_variables entry)"
proof -
  let ?es = "[BrCatalog (Inr sample_catalog), BrAct (Click (BtnInstallOpen sample_entry)), BrAct (Edit (FVar ''host'') ''h'')]"
  have "run br_enabled br_step browse_init ?es \<noteq> None" by code_simp
  then have r: "reachable br_enabled br_step browse_init (the (run br_enabled br_step browse_init ?es))"
    by (rule run_reachable)
  have "offers (browse_view (the (run br_enabled br_step browse_init ?es))) (Click BtnInstall)" by code_simp
  from install_posts_what_is_shown [OF r this] r show ?thesis by blast
qed

text \<open>The dialog is not keyed by its entry: opening a second entry from the keyboard while the dialog is open
  keeps the name and the variables of the first, and Install posts them under the id of the second.\<close>

definition other_entry :: catalog_entry where
  "other_entry = sample_entry\<lparr>ce_id := ''files'', ce_name := ''Files'', ce_variables := []\<rparr>"

theorem switched_entry_mixed:
  "\<exists>s. run br_enabled br_step browse_init
      [BrCatalog (Inr (sample_catalog\<lparr>cr_entries := [sample_entry, other_entry]\<rparr>)),
       BrAct (Click (BtnInstallOpen sample_entry)), BrAct (Click (BtnInstallOpen other_entry)),
       BrAct (Click BtnInstall)] = Some s
    \<and> id_pending (br_install s) = [\<lparr>iq_id = ''files'', iq_name = ''github'', iq_variables = [(''host'', ''github.com'')]\<rparr>]"
proof -
  let ?r = "run br_enabled br_step browse_init
      [BrCatalog (Inr (sample_catalog\<lparr>cr_entries := [sample_entry, other_entry]\<rparr>)),
       BrAct (Click (BtnInstallOpen sample_entry)), BrAct (Click (BtnInstallOpen other_entry)),
       BrAct (Click BtnInstall)]"
  have "?r \<noteq> None" by code_simp
  moreover have "id_pending (br_install (the ?r)) = [\<lparr>iq_id = ''files'', iq_name = ''github'', iq_variables = [(''host'', ''github.com'')]\<rparr>]"
    by code_simp
  ultimately show ?thesis by (intro exI [of _ "the ?r"]) simp
qed

end
