(* ===== verification/OnboardingStorage.thy ===== *)
theory OnboardingStorage
  imports ApiClient View
begin

text \<open>
  Step 2 of the wizard, \<open>StorageStep\<close> in \<open>frontend/src/pages/Onboarding.tsx\<close>: the form that points the
  proxy at a database, its connection test and the save that hot-swaps the store; and the two
  helpers \<open>onboardingPost\<close> and \<open>onboardingGet\<close> every step uses. The step's parent owns \<open>busy\<close> and
  \<open>error\<close>; they are part of this machine's state, and the calls of \<open>onSkip\<close> and \<open>onSwapped\<close> are
  recorded in \<open>sw_out\<close>. \<open>sw_tested\<close> is no variable of the code: it remembers the request whose reply
  is displayed, so that "what was tested" can be compared with "what would be saved".
\<close>

section \<open>The onboarding calls\<close>

definition onboarding_post_request :: "string \<Rightarrow> json option \<Rightarrow> http_request" where
  "onboarding_post_request path body = \<lparr>rq_method = POST, rq_path = path,
     rq_headers = [(''Content-Type'', ''application/json''), (''Accept'', ''application/json'')],
     rq_credentials = False, rq_body = Some (json_stringify (nullish body (JObj [])))\<rparr>"

definition onboarding_get_request :: "string \<Rightarrow> http_request" where
  "onboarding_get_request path = \<lparr>rq_method = GET, rq_path = path,
     rq_headers = [(''Accept'', ''application/json'')], rq_credentials = False, rq_body = None\<rparr>"

text \<open>Unlike the client's own calls these show the raw body of an error response, and they neither send
  nor touch the token. An unreadable body makes \<open>res.text()\<close> reject.\<close>

definition onboardingPost :: "fetch_result \<Rightarrow> js_error + json" where
  "onboardingPost r = (case r of
      Rejected m \<Rightarrow> Inl (PlainErr m)
    | Answered res \<Rightarrow>
        if \<not> rs_ok res then
          (case rs_body res of
             None \<Rightarrow> Inl (PlainErr (rs_json_error res))
           | Some text \<Rightarrow> Inl (ApiErr (rs_status res) (str_or text (rs_status_text res))))
        else res_json res)"

definition onboardingGet :: "fetch_result \<Rightarrow> js_error + json" where
  "onboardingGet r = (case r of
      Rejected m \<Rightarrow> Inl (PlainErr m)
    | Answered res \<Rightarrow>
        if \<not> rs_ok res then
          (case rs_body res of
             None \<Rightarrow> Inl (PlainErr (rs_json_error res))
           | Some text \<Rightarrow> Inl (ApiErr (rs_status res) text))
        else res_json res)"

section \<open>State\<close>

datatype dialect = Sqlite | Postgresql | Mysql

fun dialect_id :: "dialect \<Rightarrow> string" where
  "dialect_id Sqlite = ''sqlite''"
| "dialect_id Postgresql = ''postgresql''"
| "dialect_id Mysql = ''mysql''"

fun DIALECT_LABELS :: "dialect \<Rightarrow> string" where
  "DIALECT_LABELS Sqlite = ''SQLite''"
| "DIALECT_LABELS Postgresql = ''PostgreSQL''"
| "DIALECT_LABELS Mysql = ''MySQL / MariaDB''"

fun DIALECT_DEFAULT_PORTS :: "dialect \<Rightarrow> nat" where
  "DIALECT_DEFAULT_PORTS Sqlite = 0"
| "DIALECT_DEFAULT_PORTS Postgresql = 5432"
| "DIALECT_DEFAULT_PORTS Mysql = 3306"

fun DIALECT_EXTRA_HINT :: "dialect \<Rightarrow> string" where
  "DIALECT_EXTRA_HINT Sqlite = []"
| "DIALECT_EXTRA_HINT Postgresql =
     ''psycopg2 driver not installed - run `pip install mcpxy-proxy[postgres]` and restart the proxy.''"
| "DIALECT_EXTRA_HINT Mysql =
     ''PyMySQL driver not installed - run `pip install mcpxy-proxy[mysql]` and restart the proxy.''"

datatype test_result = TestOk "string option" "string option" | TestFailed string

record storage_form =
  sf_dialect :: dialect
  sf_host :: string
  sf_port :: string
  sf_database :: string
  sf_user :: string
  sf_password :: string
  sf_sslmode :: string
  sf_rawUrl :: string
  sf_usingRaw :: bool
  sf_ack :: bool
  sf_testResult :: "test_result option"

datatype storage_req = RqTest onboarding_database_request | RqSave onboarding_database_request

datatype storage_out = Skipped | Swapped set_database_mode

record storage_world =
  sw_form :: storage_form
  sw_info :: "onboarding_database_info option"
  sw_busy :: bool
  sw_error :: "string option"
  sw_pending :: "storage_req list"
  sw_out :: "storage_out list"
  sw_tested :: "onboarding_database_request option"

definition storage_form_init :: storage_form where
  "storage_form_init = \<lparr>sf_dialect = Sqlite, sf_host = ''localhost'', sf_port = ''5432'',
     sf_database = ''mcpxy'', sf_user = [], sf_password = [], sf_sslmode = [], sf_rawUrl = [],
     sf_usingRaw = False, sf_ack = False, sf_testResult = None\<rparr>"

section \<open>What the form means\<close>

definition pickDialect :: "dialect \<Rightarrow> storage_form \<Rightarrow> storage_form" where
  "pickDialect d f = f\<lparr>sf_dialect := d, sf_testResult := None,
     sf_port := (if DIALECT_DEFAULT_PORTS d = 0 then [] else show_nat (DIALECT_DEFAULT_PORTS d)),
     sf_usingRaw := False\<rparr>"

definition port_number :: "string \<Rightarrow> dec option" where
  "port_number port = (if port = [] then None
     else case js_Number port of Finite d \<Rightarrow> Some d | _ \<Rightarrow> None)"

definition buildBody :: "storage_form \<Rightarrow> onboarding_database_request" where
  "buildBody f =
     (if sf_usingRaw f then
        \<lparr>odr_url = Some (js_trim (sf_rawUrl f)), odr_dialect = None, odr_host = None, odr_port = None,
         odr_database = None, odr_user = None, odr_password = None, odr_sslmode = None,
         odr_secrets_key_ack = Some (sf_ack f)\<rparr>
      else
        \<lparr>odr_url = None, odr_dialect = Some (dialect_id (sf_dialect f)), odr_host = Some (sf_host f),
         odr_port = port_number (sf_port f), odr_database = Some (sf_database f),
         odr_user = Some (sf_user f), odr_password = Some (sf_password f),
         odr_sslmode = str_or_null (sf_sslmode f), odr_secrets_key_ack = Some (sf_ack f)\<rparr>)"

definition available_dialects :: "onboarding_database_info option \<Rightarrow> string list" where
  "available_dialects info = (case info of Some i \<Rightarrow> odi_available_dialects i | None \<Rightarrow> [''sqlite''])"

definition currentIsDefault :: "onboarding_database_info option \<Rightarrow> bool" where
  "currentIsDefault info = (case info of Some i \<Rightarrow> odi_is_default i | None \<Rightarrow> True)"

definition isRemote :: "storage_form \<Rightarrow> bool" where
  "isRemote f \<longleftrightarrow> sf_dialect f \<noteq> Sqlite \<or> sf_usingRaw f"

definition test_passed :: "storage_form \<Rightarrow> bool" where
  "test_passed f = (case sf_testResult f of Some (TestOk d u) \<Rightarrow> True | _ \<Rightarrow> False)"

definition saveDisabled :: "storage_world \<Rightarrow> bool" where
  "saveDisabled s \<longleftrightarrow> sw_busy s
     \<or> (isRemote (sw_form s) \<and> (\<not> test_passed (sw_form s) \<or> \<not> sf_ack (sw_form s)))"

definition dialect_disabled :: "onboarding_database_info option \<Rightarrow> dialect \<Rightarrow> bool" where
  "dialect_disabled info d \<longleftrightarrow> d \<noteq> Sqlite \<and> dialect_id d \<notin> set (available_dialects info)"

definition driverMissing :: "storage_world \<Rightarrow> bool" where
  "driverMissing s = dialect_disabled (sw_info s) (sf_dialect (sw_form s))"

section \<open>Handlers\<close>

abbreviation upd_form :: "(storage_form \<Rightarrow> storage_form) \<Rightarrow> storage_world \<Rightarrow> storage_world" where
  "upd_form h s \<equiv> s\<lparr>sw_form := h (sw_form s)\<rparr>"

definition runTest :: "storage_world \<Rightarrow> storage_world" where
  "runTest s = s\<lparr>sw_error := None, sw_busy := True, sw_form := (sw_form s)\<lparr>sf_testResult := None\<rparr>,
     sw_pending := sw_pending s @ [RqTest (buildBody (sw_form s))]\<rparr>"

definition test_outcome :: "js_error + onboarding_test_database_response \<Rightarrow> test_result" where
  "test_outcome r = (case r of
      Inr res \<Rightarrow> if otd_ok res then TestOk (otd_dialect res) (otd_url_masked res)
        else TestFailed (case otd_error res of Some e \<Rightarrow> str_or e ''connection failed'' | None \<Rightarrow> ''connection failed'')
    | Inl e \<Rightarrow> TestFailed (error_text e))"

definition test_reply :: "onboarding_database_request \<Rightarrow> js_error + onboarding_test_database_response \<Rightarrow>
    storage_world \<Rightarrow> storage_world" where
  "test_reply b r s = s\<lparr>sw_form := (sw_form s)\<lparr>sf_testResult := Some (test_outcome r)\<rparr>,
     sw_tested := Some b, sw_busy := False, sw_pending := remove1 (RqTest b) (sw_pending s)\<rparr>"

definition saveAndContinue :: "storage_world \<Rightarrow> storage_world" where
  "saveAndContinue s =
     (if sf_dialect (sw_form s) = Sqlite \<and> currentIsDefault (sw_info s) \<and> \<not> sf_usingRaw (sw_form s)
      then s\<lparr>sw_out := sw_out s @ [Skipped]\<rparr>
      else s\<lparr>sw_error := None, sw_busy := True,
             sw_pending := sw_pending s @ [RqSave (buildBody (sw_form s))]\<rparr>)"

text \<open>After a successful save \<open>busy\<close> stays set until the parent's \<open>onSwapped\<close> is over (\<open>swap_done\<close>).\<close>

definition save_reply :: "onboarding_database_request \<Rightarrow> js_error + onboarding_set_database_response \<Rightarrow>
    storage_world \<Rightarrow> storage_world" where
  "save_reply b r s =
     (let s0 = s\<lparr>sw_pending := remove1 (RqSave b) (sw_pending s)\<rparr> in case r of
        Inr res \<Rightarrow> if osd_ok res then s0\<lparr>sw_out := sw_out s @ [Swapped (osd_mode res)]\<rparr>
          else s0\<lparr>sw_error := Some ''Save failed for unknown reason'', sw_busy := False\<rparr>
      | Inl e \<Rightarrow> s0\<lparr>sw_error := Some (error_text e), sw_busy := False\<rparr>)"

definition swap_done :: "storage_world \<Rightarrow> storage_world" where
  "swap_done s = s\<lparr>sw_busy := False\<rparr>"

section \<open>What is shown\<close>

datatype st_btn = BtnDialect dialect | BtnSkip | BtnTest | BtnSave

datatype st_field = FHost | FPort | FDatabase | FSslmode | FUser | FPassword | FRawUrl | FAck

type_synonym st_view = "(st_btn, st_field) view"

definition dialect_button :: "storage_world \<Rightarrow> dialect \<Rightarrow> st_view" where
  "dialect_button s d = Button (BtnDialect d) (dialect_disabled (sw_info s) d)
     [Txt (DIALECT_LABELS d),
      cond (d = Sqlite) (Txt ''Recommended''),
      cond (d = Sqlite) (Txt ''Zero setup. File-backed. Great for single-container deployments.''),
      cond (dialect_disabled (sw_info s) d) (Txt (DIALECT_EXTRA_HINT d))]"

definition remote_fields :: "storage_form \<Rightarrow> st_view" where
  "remote_fields f = Box [
     Txt ''Host'', Input FHost (sf_usingRaw f) (sf_host f),
     Txt ''Port'', Input FPort (sf_usingRaw f) (sf_port f),
     Txt ''Database'', Input FDatabase (sf_usingRaw f) (sf_database f),
     Txt ''SSL mode (optional)'', Input FSslmode (sf_usingRaw f) (sf_sslmode f),
     Txt ''User'', Input FUser (sf_usingRaw f) (sf_user f),
     Txt ''Password'', Input FPassword (sf_usingRaw f) (sf_password f),
     Txt ''Paste a SQLAlchemy URL instead'', Input FRawUrl False (sf_rawUrl f),
     Txt ''Overrides the form fields above when set.'',
     Txt ''Bring your Fernet key with you'', Check FAck False (sf_ack f),
     Txt ''I understand and have my Fernet key ready (or am happy to re-create secrets from scratch).'']"

definition test_result_view :: "test_result \<Rightarrow> st_view" where
  "test_result_view t = (case t of
      TestOk d u \<Rightarrow> Box [Txt ''Connection OK'',
        cond (nullish d [] \<noteq> []) (Txt ('' ('' @ nullish d [] @ '')'')),
        cond (nullish u [] \<noteq> []) (Txt (nullish u []))]
    | TestFailed e \<Rightarrow> Txt (''Connection failed: '' @ e))"

definition storage_view :: "storage_world \<Rightarrow> st_view" where
  "storage_view s = (let f = sw_form s in Box [
     Txt ''Where should MCPxy store its config and secrets?'',
     (case sw_info s of Some i \<Rightarrow> Box [Txt ''Current:'', Txt (odi_current_url_masked i),
        Txt (''('' @ odi_current_dialect i @ '')'')] | None \<Rightarrow> Box []),
     Box (map (dialect_button s) [Sqlite, Postgresql, Mysql]),
     cond (driverMissing s) (Txt (DIALECT_EXTRA_HINT (sf_dialect f))),
     cond (sf_dialect f \<noteq> Sqlite \<and> \<not> driverMissing s) (remote_fields f),
     (case sf_testResult f of Some t \<Rightarrow> test_result_view t | None \<Rightarrow> Box []),
     Button BtnSkip (sw_busy s) [Txt ''Skip - keep the default''],
     cond (sf_dialect f \<noteq> Sqlite \<and> \<not> driverMissing s) (Button BtnTest (sw_busy s) [Txt ''Test connection'']),
     Button BtnSave (saveDisabled s \<or> driverMissing s)
       [Txt (if sw_busy s then ''Saving...'' else ''Save and continue'')]])"

section \<open>The machine\<close>

fun sf_edit :: "st_field \<Rightarrow> string \<Rightarrow> storage_form \<Rightarrow> storage_form" where
  "sf_edit FHost v f = f\<lparr>sf_host := v, sf_testResult := None\<rparr>"
| "sf_edit FPort v f = f\<lparr>sf_port := v, sf_testResult := None\<rparr>"
| "sf_edit FDatabase v f = f\<lparr>sf_database := v, sf_testResult := None\<rparr>"
| "sf_edit FSslmode v f = f\<lparr>sf_sslmode := v, sf_testResult := None\<rparr>"
| "sf_edit FUser v f = f\<lparr>sf_user := v, sf_testResult := None\<rparr>"
| "sf_edit FPassword v f = f\<lparr>sf_password := v, sf_testResult := None\<rparr>"
| "sf_edit FRawUrl v f = f\<lparr>sf_rawUrl := v, sf_usingRaw := (length v > 0), sf_testResult := None\<rparr>"
| "sf_edit FAck v f = f"

fun sf_toggle :: "st_field \<Rightarrow> storage_form \<Rightarrow> storage_form" where
  "sf_toggle FAck f = f\<lparr>sf_ack := \<not> sf_ack f\<rparr>"
| "sf_toggle _ f = f"

fun st_click :: "st_btn \<Rightarrow> storage_world \<Rightarrow> storage_world" where
  "st_click (BtnDialect d) s = upd_form (pickDialect d) s"
| "st_click BtnSkip s = s\<lparr>sw_out := sw_out s @ [Skipped]\<rparr>"
| "st_click BtnTest s = runTest s"
| "st_click BtnSave s = saveAndContinue s"

datatype st_event =
    StAct "(st_btn, st_field) action"
  | StTest onboarding_database_request "js_error + onboarding_test_database_response"
  | StSave onboarding_database_request "js_error + onboarding_set_database_response"

fun st_step :: "st_event \<Rightarrow> storage_world \<Rightarrow> storage_world" where
  "st_step (StAct (Click b)) s = st_click b s"
| "st_step (StAct (Edit f v)) s = upd_form (sf_edit f v) s"
| "st_step (StAct (Toggle f)) s = upd_form (sf_toggle f) s"
| "st_step (StTest b r) s = test_reply b r s"
| "st_step (StSave b r) s = save_reply b r s"

fun st_enabled :: "storage_world \<Rightarrow> st_event \<Rightarrow> bool" where
  "st_enabled s (StAct a) = offers (storage_view s) a"
| "st_enabled s (StTest b r) = (RqTest b \<in> set (sw_pending s))"
| "st_enabled s (StSave b r) = (RqSave b \<in> set (sw_pending s))"

definition storage_start :: "onboarding_database_info option \<Rightarrow> storage_world" where
  "storage_start info = \<lparr>sw_form = storage_form_init, sw_info = info, sw_busy = False, sw_error = None,
     sw_pending = [], sw_out = [], sw_tested = None\<rparr>"

text \<open>The user who does not touch the form while a test runs.\<close>

fun st_patient :: "storage_world \<Rightarrow> st_event \<Rightarrow> bool" where
  "st_patient s (StAct a) = (offers (storage_view s) a \<and> (sw_pending s = [] \<or> a = Toggle FAck))"
| "st_patient s ev = st_enabled s ev"

section \<open>Lemmas\<close>

lemmas storage_views = storage_view_def remote_fields_def test_result_view_def dialect_button_def

lemma save_offered: "offers (storage_view s) (Click BtnSave) \<longleftrightarrow> \<not> saveDisabled s \<and> \<not> driverMissing s"
  by (auto simp: storage_views list_ex_iff Let_def split: option.split test_result.split)

lemma test_offered: "offers (storage_view s) (Click BtnTest) \<longleftrightarrow>
    sf_dialect (sw_form s) \<noteq> Sqlite \<and> \<not> driverMissing s \<and> \<not> sw_busy s"
  by (auto simp: storage_views list_ex_iff Let_def split: option.split test_result.split)

lemma skip_offered: "offers (storage_view s) (Click BtnSkip) \<longleftrightarrow> \<not> sw_busy s"
  by (auto simp: storage_views list_ex_iff Let_def split: option.split test_result.split)

lemma dialect_offered: "offers (storage_view s) (Click (BtnDialect d)) \<longleftrightarrow> \<not> dialect_disabled (sw_info s) d"
  by (cases d; auto simp: storage_views list_ex_iff Let_def split: option.split test_result.split)

lemma edit_offered: "offers (storage_view s) (Edit f v) \<Longrightarrow>
    sf_dialect (sw_form s) \<noteq> Sqlite \<and> (f = FRawUrl \<or> \<not> sf_usingRaw (sw_form s)) \<and> f \<noteq> FAck"
  by (auto simp: storage_views list_ex_iff Let_def split: option.splits test_result.splits)

lemma toggle_offered: "offers (storage_view s) (Toggle f) \<Longrightarrow> f = FAck"
  by (auto simp: storage_views list_ex_iff Let_def split: option.splits test_result.splits)

definition without_ack :: "onboarding_database_request \<Rightarrow> onboarding_database_request" where
  "without_ack b = b\<lparr>odr_secrets_key_ack := None\<rparr>"

lemma body_ack_irrelevant: "without_ack (buildBody (f\<lparr>sf_ack := a\<rparr>)) = without_ack (buildBody f)"
  by (simp add: buildBody_def without_ack_def)

lemma body_result_irrelevant [simp]: "buildBody (f\<lparr>sf_testResult := t\<rparr>) = buildBody f"
  by (simp add: buildBody_def)

lemma edit_clears_result: "f \<noteq> FAck \<Longrightarrow> sf_testResult (sf_edit f v g) = None"
  by (cases f) simp_all

lemma edit_dialect [simp]: "sf_dialect (sf_edit f v g) = sf_dialect g"
  by (cases f) simp_all

text \<open>The structure every reachable state has: one request at a time, busy exactly while one is in flight
  or a finished save waits for its parent, and a raw URL only for a remote dialect.\<close>

definition storage_inv :: "storage_world \<Rightarrow> bool" where
  "storage_inv s \<longleftrightarrow>
     (sw_pending s = [] \<or> (\<exists>q. sw_pending s = [q] \<and> sw_busy s))
     \<and> (sf_usingRaw (sw_form s) \<longrightarrow> sf_rawUrl (sw_form s) \<noteq> [] \<and> sf_dialect (sw_form s) \<noteq> Sqlite)
     \<and> \<not> driverMissing s"

lemma driver_cong: "sw_info s = sw_info t \<Longrightarrow> sf_dialect (sw_form s) = sf_dialect (sw_form t) \<Longrightarrow>
    driverMissing s = driverMissing t"
  by (simp add: driverMissing_def)

lemma storage_inv_step: "storage_inv s \<Longrightarrow> st_enabled s ev \<Longrightarrow> storage_inv (st_step ev s)"
proof (cases ev)
  case (StAct a)
  assume inv: "storage_inv s" and en: "st_enabled s ev"
  show ?thesis
  proof (cases a)
    case (Click b)
    then show ?thesis
      using inv en StAct by (cases b) (auto simp: storage_inv_def save_offered saveDisabled_def test_offered
          dialect_offered pickDialect_def runTest_def saveAndContinue_def driverMissing_def)
  next
    case (Edit f v)
    then have "sf_dialect (sw_form s) \<noteq> Sqlite" using en StAct edit_offered by simp
    then show ?thesis using inv StAct Edit by (cases f) (auto simp: storage_inv_def driverMissing_def)
  next
    case (Toggle f)
    then show ?thesis using inv StAct by (cases f) (auto simp: storage_inv_def driverMissing_def)
  qed
next
  case (StTest b r)
  assume "storage_inv s" "st_enabled s ev"
  then show ?thesis using StTest by (auto simp: storage_inv_def test_reply_def driverMissing_def)
next
  case (StSave b r)
  assume "storage_inv s" "st_enabled s ev"
  then show ?thesis using StSave
    by (auto simp: storage_inv_def save_reply_def driverMissing_def Let_def split: sum.split)
qed

lemma storage_inv_start: "storage_inv (storage_start info)"
  by (simp add: storage_inv_def storage_start_def storage_form_init_def driverMissing_def dialect_disabled_def)

interpretation storage: machine st_enabled st_step "storage_start info" storage_inv
  by unfold_locales (simp_all add: storage_inv_step storage_inv_start)

section \<open>Tested is what is saved, for a patient user\<close>

definition tested_inv :: "storage_world \<Rightarrow> bool" where
  "tested_inv s \<longleftrightarrow> storage_inv s
     \<and> (test_passed (sw_form s) \<longrightarrow> map_option without_ack (sw_tested s) = Some (without_ack (buildBody (sw_form s))))
     \<and> (\<forall>b. RqTest b \<in> set (sw_pending s) \<longrightarrow> without_ack b = without_ack (buildBody (sw_form s)))"

lemma patient_enabled: "st_patient s ev \<Longrightarrow> st_enabled s ev"
  by (cases ev) auto

lemma not_passed [simp]: "sf_testResult f = None \<Longrightarrow> \<not> test_passed f"
  by (simp add: test_passed_def)

lemma body_ack_toggle: "without_ack (buildBody (f\<lparr>sf_ack := \<not> a\<rparr>)) = without_ack (buildBody f)"
  by (rule body_ack_irrelevant)

lemma tested_inv_step: "tested_inv s \<Longrightarrow> st_patient s ev \<Longrightarrow> tested_inv (st_step ev s)"
proof -
  assume inv: "tested_inv s" and en: "st_patient s ev"
  have base: "storage_inv (st_step ev s)"
    using inv en patient_enabled storage_inv_step by (auto simp: tested_inv_def)
  show ?thesis
  proof (cases ev)
    case (StAct a)
    show ?thesis
    proof (cases a)
      case (Click b)
      then have "sw_pending s = []" using en StAct by simp
      then show ?thesis
        using inv base StAct Click by (cases b)
          (auto simp: tested_inv_def pickDialect_def runTest_def saveAndContinue_def split: if_splits)
    next
      case (Edit f v)
      then have "sw_pending s = []" "f \<noteq> FAck" using en StAct edit_offered by auto
      then show ?thesis using inv base StAct Edit edit_clears_result by (simp add: tested_inv_def)
    next
      case (Toggle f)
      then have "f = FAck" using en StAct toggle_offered by auto
      then show ?thesis
        using inv base StAct Toggle by (simp add: tested_inv_def body_ack_toggle test_passed_def)
    qed
  next
    case (StTest b r)
    then have "without_ack b = without_ack (buildBody (sw_form s))" "sw_pending s = [RqTest b]"
      using inv en by (auto simp: tested_inv_def storage_inv_def)
    then show ?thesis using base StTest by (simp add: tested_inv_def test_reply_def)
  next
    case (StSave b r)
    then have "sw_pending s = [RqSave b]" using inv en by (auto simp: tested_inv_def storage_inv_def)
    then show ?thesis
      using inv base StSave by (auto simp: tested_inv_def save_reply_def Let_def split: sum.splits)
  qed
qed

interpretation tested: machine st_patient st_step "storage_start info" tested_inv
  by unfold_locales (simp_all add: tested_inv_step, simp add: tested_inv_def storage_inv_start,
    simp add: storage_start_def storage_form_init_def)

section \<open>Properties\<close>

definition demo_info :: onboarding_database_info where
  "demo_info = \<lparr>odi_current_url_masked = ''sqlite:///state.db'', odi_current_dialect = ''sqlite'',
     odi_is_default = True, odi_bootstrap_file_present = False,
     odi_available_dialects = [''sqlite'', ''postgresql'']\<rparr>"

definition pg_body :: "string \<Rightarrow> onboarding_database_request" where
  "pg_body host = \<lparr>odr_url = None, odr_dialect = Some ''postgresql'', odr_host = Some host,
     odr_port = Some (mk_dec 5432 0), odr_database = Some ''mcpxy'', odr_user = Some [],
     odr_password = Some [], odr_sslmode = None, odr_secrets_key_ack = Some False\<rparr>"

definition ok_response :: onboarding_test_database_response where
  "ok_response = \<lparr>otd_ok = True, otd_dialect = None, otd_url_masked = None, otd_error = None\<rparr>"

text \<open>C7: Saving a remote database is gated on a test of exactly what is saved: as long as the form is not
  edited while a connection test is running, whenever the save button can be pressed for a remote
  database, the last test reply was a success, it was for a request equal to the one that saving
  would send (up to the acknowledgement), and the key acknowledgement is ticked.\<close>

theorem save_is_tested:
  assumes "reachable st_patient st_step (storage_start info) s"
    and "offers (storage_view s) (Click BtnSave)" and "isRemote (sw_form s)"
  shows "\<exists>b. sw_tested s = Some b \<and> without_ack b = without_ack (buildBody (sw_form s))
    \<and> test_passed (sw_form s) \<and> sf_ack (sw_form s) \<and> sw_pending s = []"
proof -
  have inv: "tested_inv s" by (rule tested.reachable_inv [OF assms(1)])
  have "\<not> saveDisabled s" using assms(2) by (simp add: save_offered)
  then show ?thesis
    using inv assms(3) by (auto simp: saveDisabled_def tested_inv_def storage_inv_def)
qed

definition patient_run :: "st_event list" where
  "patient_run = [StAct (Click (BtnDialect Postgresql)), StAct (Edit FHost ''db''), StAct (Click BtnTest),
     StTest (pg_body ''db'') (Inr ok_response), StAct (Toggle FAck)]"

theorem save_is_tested_witness:
  "\<exists>s b. run st_patient st_step (storage_start (Some demo_info)) patient_run = Some s
     \<and> offers (storage_view s) (Click BtnSave) \<and> sw_tested s = Some b
     \<and> without_ack b = without_ack (buildBody (sw_form s))"
proof -
  let ?r = "run st_patient st_step (storage_start (Some demo_info)) patient_run"
  have r: "?r \<noteq> None" by code_simp
  then have re: "reachable st_patient st_step (storage_start (Some demo_info)) (the ?r)"
    by (rule run_reachable)
  have o': "offers (storage_view (the ?r)) (Click BtnSave)" by code_simp
  have i: "isRemote (sw_form (the ?r))" by code_simp
  show ?thesis using save_is_tested [OF re o' i] o' r by (intro exI [of _ "the ?r"]) auto
qed

definition hasty_run :: "st_event list" where
  "hasty_run = [StAct (Click (BtnDialect Postgresql)), StAct (Edit FHost ''good''), StAct (Click BtnTest),
     StAct (Edit FHost ''never-tested''), StTest (pg_body ''good'') (Inr ok_response), StAct (Toggle FAck)]"

text \<open>Without that patience the gate is open: a field or dialect changed while a test is in flight clears the
  displayed result, but the reply then displays its success for the edited form. There is a run in
  which the save button is enabled for a database that was never tested.\<close>

theorem stale_test_enables_save:
  "\<exists>s. run st_enabled st_step (storage_start (Some demo_info)) hasty_run = Some s
     \<and> offers (storage_view s) (Click BtnSave) \<and> isRemote (sw_form s)
     \<and> sw_tested s = Some (pg_body ''good'')
     \<and> odr_host (buildBody (sw_form s)) = Some ''never-tested''"
proof -
  let ?r = "run st_enabled st_step (storage_start (Some demo_info)) hasty_run"
  have "?r \<noteq> None" by code_simp
  moreover have "offers (storage_view (the ?r)) (Click BtnSave)" by code_simp
  moreover have "isRemote (sw_form (the ?r))" by code_simp
  moreover have "sw_tested (the ?r) = Some (pg_body ''good'')" by code_simp
  moreover have "odr_host (buildBody (sw_form (the ?r))) = Some ''never-tested''" by code_simp
  ultimately show ?thesis by (intro exI [of _ "the ?r"]) simp
qed

text \<open>In every reachable state the form never offers a database whose driver is missing, and the raw URL is
  only used when it is not empty. The converse fails: picking a dialect keeps the pasted URL on display
  but stops using it, although the form says that it overrides the fields.\<close>

theorem raw_url_use:
  assumes "reachable st_enabled st_step (storage_start info) s"
  shows "\<not> driverMissing s
    \<and> (sf_usingRaw (sw_form s) \<longrightarrow> sf_rawUrl (sw_form s) \<noteq> [] \<and> sf_dialect (sw_form s) \<noteq> Sqlite)
    \<and> (sf_usingRaw (sw_form s) \<longrightarrow> odr_url (buildBody (sw_form s)) = Some (js_trim (sf_rawUrl (sw_form s))))
    \<and> odr_url (buildBody (pickDialect d (sw_form s))) = None
    \<and> sf_rawUrl (pickDialect d (sw_form s)) = sf_rawUrl (sw_form s)"
  using storage.reachable_inv [OF assms] by (simp add: storage_inv_def buildBody_def pickDialect_def)

theorem raw_url_use_witness:
  "\<exists>s. run st_enabled st_step (storage_start (Some demo_info))
        [StAct (Click (BtnDialect Postgresql)), StAct (Edit FRawUrl ''postgresql://h/db'')] = Some s
     \<and> odr_url (buildBody (sw_form s)) = Some ''postgresql://h/db''
     \<and> odr_url (buildBody (pickDialect Postgresql (sw_form s))) = None
     \<and> sf_rawUrl (pickDialect Postgresql (sw_form s)) = ''postgresql://h/db''"
proof -
  let ?r = "run st_enabled st_step (storage_start (Some demo_info))
        [StAct (Click (BtnDialect Postgresql)), StAct (Edit FRawUrl ''postgresql://h/db'')]"
  have r: "?r \<noteq> None" by code_simp
  then have re: "reachable st_enabled st_step (storage_start (Some demo_info)) (the ?r)"
    by (rule run_reachable)
  have "odr_url (buildBody (sw_form (the ?r))) = Some ''postgresql://h/db''"
    "sf_rawUrl (sw_form (the ?r)) = ''postgresql://h/db''" by code_simp+
  then show ?thesis
    using raw_url_use [OF re, of Postgresql] r by (intro exI [of _ "the ?r"]) simp
qed

end
