(* ===== verification/OnboardingAuth.thy ===== *)
theory OnboardingAuth
  imports OnboardingStorage "HOL-Library.Word"
begin

text \<open>
  Step 3 of the wizard in \<open>frontend/src/pages/Onboarding.tsx\<close>: \<open>generateToken\<close>, \<open>AuthStep\<close> and the
  \<open>TokenStep\<close> it replaced (still in the file, no longer mounted). The bytes of
  \<open>crypto.getRandomValues\<close> are an argument, carried by the event that draws them. \<open>btoa\<close> is the
  browser's base64 encoding with padding. The parent's callbacks appear as \<open>aw_busy\<close>, \<open>aw_error\<close> and
  the number of calls of \<open>onNext\<close>.
\<close>

section \<open>Random tokens\<close>

definition b64_char :: "nat \<Rightarrow> char" where
  "b64_char n = (if n < 26 then char_of (65 + n) else if n < 52 then char_of (71 + n)
     else if n < 62 then char_of (n - 4) else if n = 62 then CHR ''+'' else CHR ''/'')"

text \<open>The six-bit groups of a byte string, and how many \<open>=\<close> pad the last quadruple.\<close>

fun sextets :: "nat list \<Rightarrow> nat list" where
  "sextets [] = []"
| "sextets [a] = [a div 4, a mod 4 * 16]"
| "sextets [a, b] = [a div 4, a mod 4 * 16 + b div 16, b mod 16 * 4]"
| "sextets (a # b # c # r) =
     a div 4 # (a mod 4 * 16 + b div 16) # (b mod 16 * 4 + c div 64) # (c mod 64) # sextets r"

definition btoa :: "string \<Rightarrow> string" where
  "btoa s = map b64_char (sextets (map of_char s)) @ replicate ((3 - length s mod 3) mod 3) (CHR ''='')"

definition replace_char :: "char \<Rightarrow> string \<Rightarrow> string \<Rightarrow> string" where
  "replace_char c t s = concat (map (\<lambda>x. if x = c then t else [x]) s)"

definition generateToken :: "8 word list \<Rightarrow> string" where
  "generateToken buf =
     (let bin = map (\<lambda>b. char_of (unat b)) buf
      in replace_char (CHR ''='') [] (replace_char (CHR ''/'') ''_'' (replace_char (CHR ''+'') ''-'' (btoa bin))))"

section \<open>The authentication step\<close>

datatype auth_provider = PvLocal | PvGoogle | PvM365 | PvOidc | PvSaml

fun provider_key :: "auth_provider \<Rightarrow> string" where
  "provider_key PvLocal = ''local''"
| "provider_key PvGoogle = ''google''"
| "provider_key PvM365 = ''m365''"
| "provider_key PvOidc = ''sso_oidc''"
| "provider_key PvSaml = ''sso_saml''"

record auth_form =
  af_provider :: "auth_provider option"
  af_email :: string
  af_name :: string
  af_password :: string
  af_confirmPw :: string
  af_clientId :: string
  af_clientSecret :: string
  af_redirectUri :: string
  af_tenantId :: string
  af_issuerUrl :: string
  af_spEntityId :: string
  af_idpSsoUrl :: string
  af_idpCert :: string

definition auth_form_init :: "string \<Rightarrow> auth_form" where
  "auth_form_init origin = \<lparr>af_provider = None, af_email = [], af_name = [], af_password = [],
     af_confirmPw = [], af_clientId = [], af_clientSecret = [],
     af_redirectUri = origin @ ''/admin/api/authy/callback'', af_tenantId = [], af_issuerUrl = [],
     af_spEntityId = [], af_idpSsoUrl = [], af_idpCert = []\<rparr>"

datatype auth_req = RqConfig auth_provider string string json | RqLogin string string

record auth_world =
  aw_form :: auth_form
  aw_busy :: bool
  aw_error :: "string option"
  aw_ls :: local_storage
  aw_pending :: "auth_req list"
  aw_next :: nat

definition obj_of :: "(string \<times> string) list \<Rightarrow> json" where
  "obj_of es = JObj (map (\<lambda>(k, v). (k, JStr v)) es)"

definition authy_body :: "auth_provider \<Rightarrow> string \<Rightarrow> auth_form \<Rightarrow> json" where
  "authy_body provider jwtSecret f = JObj (
     [(''primary_provider'', JStr (provider_key provider)), (''jwt_secret'', JStr jwtSecret),
      (''bootstrap_admin_email'', JStr (af_email f))] @
     (case provider of
        PvLocal \<Rightarrow> [(''bootstrap_admin'', obj_of [(''email'', af_email f),
          (''name'', str_or (af_name f) (af_email f)), (''password'', af_password f)])]
      | PvGoogle \<Rightarrow> [(''google'', obj_of [(''client_id'', af_clientId f),
          (''client_secret'', af_clientSecret f), (''redirect_uri'', af_redirectUri f)])]
      | PvM365 \<Rightarrow> [(''m365'', obj_of [(''client_id'', af_clientId f),
          (''client_secret'', af_clientSecret f), (''tenant_id'', af_tenantId f),
          (''redirect_uri'', af_redirectUri f)])]
      | PvOidc \<Rightarrow> [(''sso_oidc'', obj_of [(''issuer_url'', af_issuerUrl f), (''client_id'', af_clientId f),
          (''client_secret'', af_clientSecret f), (''redirect_uri'', af_redirectUri f)])]
      | PvSaml \<Rightarrow> [(''sso_saml'', obj_of [(''sp_entity_id'', af_spEntityId f),
          (''idp_sso_url'', af_idpSsoUrl f), (''idp_cert'', af_idpCert f)])]))"

text \<open>The checks of \<open>handleSubmit\<close> in their order.\<close>

definition submit_error :: "auth_provider \<Rightarrow> auth_form \<Rightarrow> string option" where
  "submit_error provider f =
     (if af_email f = [] then Some ''Admin email is required''
      else if provider = PvLocal \<and> length (af_password f) < 8 then Some ''Password must be at least 8 characters''
      else if provider = PvLocal \<and> af_password f \<noteq> af_confirmPw f then Some ''Passwords do not match''
      else None)"

definition handleSubmit :: "8 word list \<Rightarrow> auth_world \<Rightarrow> auth_world" where
  "handleSubmit buf w =
     (let f = aw_form w; w0 = w\<lparr>aw_error := None\<rparr>
      in case af_provider f of
           None \<Rightarrow> w0
         | Some provider \<Rightarrow> (case submit_error provider f of
             Some m \<Rightarrow> w0\<lparr>aw_error := Some m\<rparr>
           | None \<Rightarrow> w0\<lparr>aw_busy := True, aw_pending := aw_pending w @
               [RqConfig provider (af_email f) (af_password f) (authy_body provider (generateToken buf) f)]\<rparr>))"

text \<open>\<open>onNext()\<close> is not awaited, so \<open>finally\<close> clears \<open>busy\<close> at once.\<close>

definition auth_done :: "auth_world \<Rightarrow> auth_world" where
  "auth_done w = w\<lparr>aw_next := Suc (aw_next w), aw_busy := False\<rparr>"

definition config_reply :: "auth_provider \<Rightarrow> string \<Rightarrow> string \<Rightarrow> json \<Rightarrow> js_error + json \<Rightarrow> auth_world \<Rightarrow> auth_world" where
  "config_reply provider email password body r w =
     (let w0 = w\<lparr>aw_pending := remove1 (RqConfig provider email password body) (aw_pending w)\<rparr> in case r of
        Inl e \<Rightarrow> w0\<lparr>aw_error := Some (error_text e), aw_busy := False\<rparr>
      | Inr _ \<Rightarrow> if provider = PvLocal then w0\<lparr>aw_pending := aw_pending w0 @ [RqLogin email password]\<rparr>
          else auth_done w0)"

text \<open>The automatic login: its token is stored if there is one, its failure is ignored.\<close>

definition login_reply :: "string \<Rightarrow> string \<Rightarrow> js_error + string \<Rightarrow> auth_world \<Rightarrow> auth_world" where
  "login_reply email password r w =
     auth_done (w\<lparr>aw_pending := remove1 (RqLogin email password) (aw_pending w),
       aw_ls := (case r of Inr token \<Rightarrow> if token \<noteq> [] then setToken (Some token) (aw_ls w) else aw_ls w
                 | Inl _ \<Rightarrow> aw_ls w)\<rparr>)"

definition auth_wire :: "auth_req \<Rightarrow> http_request" where
  "auth_wire q = (case q of
      RqConfig p e pw body \<Rightarrow> onboarding_post_request ''/admin/api/onboarding/set_authy_config'' (Some body)
    | RqLogin email password \<Rightarrow> onboarding_post_request ''/admin/api/authy/login''
        (Some (obj_of [(''email'', email), (''password'', password)])))"

section \<open>What is shown\<close>

datatype au_btn = BtnProvider auth_provider | BtnContinue

datatype au_field = FEmail | FName | FPassword | FConfirm | FClientId | FClientSecret | FRedirect
  | FTenant | FIssuer | FSpEntity | FIdpUrl | FIdpCert

type_synonym au_view = "(au_btn, au_field) view"

definition auth_providers :: "(auth_provider \<times> string \<times> string) list" where
  "auth_providers = [
     (PvLocal, ''Username / Password'', ''Create local accounts with email and password''),
     (PvGoogle, ''Google'', ''Sign in with Google OAuth''),
     (PvM365, ''Microsoft 365'', ''Sign in with Microsoft Entra ID''),
     (PvOidc, ''SSO (OIDC)'', ''Generic OpenID Connect provider''),
     (PvSaml, ''SSO (SAML)'', ''SAML 2.0 identity provider'')]"

definition auth_view :: "auth_world \<Rightarrow> au_view" where
  "auth_view w = (let f = aw_form w; p = af_provider f in Box [
     Txt ''Choose authentication method'',
     Txt ''Select how administrators and users will sign in to MCPxy.'',
     Box (map (\<lambda>(k, label, desc). Button (BtnProvider k) False [Txt label, Txt desc]) auth_providers),
     cond (p \<noteq> None) (Box [
       Txt ''Admin email'', Input FEmail False (af_email f),
       cond (p = Some PvLocal) (Box [Txt ''Name'', Input FName False (af_name f),
         Txt ''Password'', Input FPassword False (af_password f),
         Txt ''Confirm password'', Input FConfirm False (af_confirmPw f)]),
       cond (p = Some PvGoogle \<or> p = Some PvM365 \<or> p = Some PvOidc) (Box [
         Txt ''Client ID'', Input FClientId False (af_clientId f),
         Txt ''Client secret'', Input FClientSecret False (af_clientSecret f),
         Txt ''Redirect URI'', Input FRedirect False (af_redirectUri f)]),
       cond (p = Some PvM365) (Box [Txt ''Tenant ID'', Input FTenant False (af_tenantId f)]),
       cond (p = Some PvOidc) (Box [Txt ''Issuer URL'', Input FIssuer False (af_issuerUrl f)]),
       cond (p = Some PvSaml) (Box [Txt ''SP Entity ID'', Input FSpEntity False (af_spEntityId f),
         Txt ''IdP SSO URL'', Input FIdpUrl False (af_idpSsoUrl f),
         Txt ''IdP Certificate (PEM)'', Input FIdpCert False (af_idpCert f)]),
       Button BtnContinue (aw_busy w) [Txt (if aw_busy w then ''Configuring...'' else ''Continue'')]])])"

section \<open>The machine\<close>

fun af_edit :: "au_field \<Rightarrow> string \<Rightarrow> auth_form \<Rightarrow> auth_form" where
  "af_edit FEmail v f = f\<lparr>af_email := v\<rparr>"
| "af_edit FName v f = f\<lparr>af_name := v\<rparr>"
| "af_edit FPassword v f = f\<lparr>af_password := v\<rparr>"
| "af_edit FConfirm v f = f\<lparr>af_confirmPw := v\<rparr>"
| "af_edit FClientId v f = f\<lparr>af_clientId := v\<rparr>"
| "af_edit FClientSecret v f = f\<lparr>af_clientSecret := v\<rparr>"
| "af_edit FRedirect v f = f\<lparr>af_redirectUri := v\<rparr>"
| "af_edit FTenant v f = f\<lparr>af_tenantId := v\<rparr>"
| "af_edit FIssuer v f = f\<lparr>af_issuerUrl := v\<rparr>"
| "af_edit FSpEntity v f = f\<lparr>af_spEntityId := v\<rparr>"
| "af_edit FIdpUrl v f = f\<lparr>af_idpSsoUrl := v\<rparr>"
| "af_edit FIdpCert v f = f\<lparr>af_idpCert := v\<rparr>"

datatype au_event =
    AuPick auth_provider
  | AuEdit au_field string
  | AuContinue "8 word list"
  | AuConfig auth_provider string string json "js_error + json"
  | AuLogin string string "js_error + string"

fun au_step :: "au_event \<Rightarrow> auth_world \<Rightarrow> auth_world" where
  "au_step (AuPick p) w = w\<lparr>aw_form := (aw_form w)\<lparr>af_provider := Some p\<rparr>\<rparr>"
| "au_step (AuEdit fl v) w = w\<lparr>aw_form := af_edit fl v (aw_form w)\<rparr>"
| "au_step (AuContinue buf) w = handleSubmit buf w"
| "au_step (AuConfig p e pw b r) w = config_reply p e pw b r w"
| "au_step (AuLogin e pw r) w = login_reply e pw r w"

fun au_enabled :: "auth_world \<Rightarrow> au_event \<Rightarrow> bool" where
  "au_enabled w (AuPick p) = offers (auth_view w) (Click (BtnProvider p))"
| "au_enabled w (AuEdit fl v) = offers (auth_view w) (Edit fl v)"
| "au_enabled w (AuContinue buf) = (offers (auth_view w) (Click BtnContinue) \<and> length buf = 32)"
| "au_enabled w (AuConfig p e pw b r) = (RqConfig p e pw b \<in> set (aw_pending w))"
| "au_enabled w (AuLogin e pw r) = (RqLogin e pw \<in> set (aw_pending w))"

definition auth_start :: "string \<Rightarrow> local_storage \<Rightarrow> auth_world" where
  "auth_start origin ls = \<lparr>aw_form = auth_form_init origin, aw_busy = False, aw_error = None, aw_ls = ls,
     aw_pending = [], aw_next = 0\<rparr>"

section \<open>The token step\<close>

datatype token_mode = Generate | Paste

record token_step =
  ts_mode :: token_mode
  ts_token :: string
  ts_copied :: bool
  ts_ack :: bool

definition token_step_init :: "8 word list \<Rightarrow> token_step" where
  "token_step_init buf = \<lparr>ts_mode = Generate, ts_token = generateToken buf, ts_copied = False, ts_ack = False\<rparr>"

definition tokenTooShort :: "token_step \<Rightarrow> bool" where
  "tokenTooShort t \<longleftrightarrow> length (ts_token t) < 16"

datatype tk_btn = BtnGenerate | BtnPaste | BtnNew | BtnCopy | BtnSaveToken
datatype tk_field = FToken | FSaved

definition token_view :: "bool \<Rightarrow> token_step \<Rightarrow> (tk_btn, tk_field) view" where
  "token_view busy t = Box [
     Txt ''Set your admin bearer token'',
     Button BtnGenerate False [Txt ''Generate for me''],
     Button BtnPaste False [Txt ''Paste my own''],
     Txt ''Token'', Input FToken (ts_mode t = Generate) (ts_token t),
     cond (ts_mode t = Generate) (Button BtnNew False [Txt ''New'']),
     Button BtnCopy (tokenTooShort t) [Txt (if ts_copied t then ''Copied'' else ''Copy'')],
     cond (tokenTooShort t) (Txt ''Token must be at least 16 characters.''),
     Check FSaved False (ts_ack t),
     Button BtnSaveToken (busy \<or> tokenTooShort t \<or> \<not> ts_ack t)
       [Txt (if busy then ''Saving...'' else ''Save and continue'')]]"

text \<open>\<open>copy\<close> reports success only when the clipboard accepted the text; its timer resets the label.\<close>

datatype tk_event = TkGenerate "8 word list" | TkPaste | TkNew "8 word list" | TkEdit string | TkToggle
  | TkCopied bool | TkTimer

fun tk_step :: "tk_event \<Rightarrow> token_step \<Rightarrow> token_step" where
  "tk_step (TkGenerate buf) t = t\<lparr>ts_mode := Generate, ts_token := generateToken buf, ts_ack := False\<rparr>"
| "tk_step TkPaste t = t\<lparr>ts_mode := Paste, ts_token := [], ts_ack := False\<rparr>"
| "tk_step (TkNew buf) t = t\<lparr>ts_token := generateToken buf\<rparr>"
| "tk_step (TkEdit v) t = t\<lparr>ts_token := v\<rparr>"
| "tk_step TkToggle t = t\<lparr>ts_ack := \<not> ts_ack t\<rparr>"
| "tk_step (TkCopied ok) t = (if ok then t\<lparr>ts_copied := True\<rparr> else t)"
| "tk_step TkTimer t = t\<lparr>ts_copied := False\<rparr>"

section \<open>Lemmas on the token\<close>

definition url_char :: "nat \<Rightarrow> char" where
  "url_char n = (if n = 62 then CHR ''-'' else if n = 63 then CHR ''_'' else b64_char n)"

definition url_safe :: "char \<Rightarrow> bool" where
  "url_safe c \<longleftrightarrow> (let n = (of_char c :: nat) in (65 \<le> n \<and> n \<le> 90) \<or> (97 \<le> n \<and> n \<le> 122) \<or> (48 \<le> n \<and> n \<le> 57))
     \<or> c = CHR ''-'' \<or> c = CHR ''_''"

lemma length_sextets: "length (sextets xs) = (4 * length xs + 2) div 3"
  by (induction xs rule: sextets.induct) auto

lemma byte_parts: "x < 256 \<Longrightarrow> x div 4 < 64 \<and> x div 16 < 16 \<and> x div 64 < 4" for x :: nat
  by (simp add: less_mult_imp_div_less)

lemma pair_bound: "x < 16 \<Longrightarrow> a mod 4 * 16 + x < 64" "y < 4 \<Longrightarrow> a mod 16 * 4 + y < 64" for a x y :: nat
proof -
  have "a mod 4 < 4" "a mod 16 < 16" by simp_all
  then show "x < 16 \<Longrightarrow> a mod 4 * 16 + x < 64" "y < 4 \<Longrightarrow> a mod 16 * 4 + y < 64" by linarith+
qed

lemma sextet_bounds: "\<forall>x \<in> set xs. x < 256 \<Longrightarrow> \<forall>y \<in> set (sextets xs). y < 64"
proof (induction xs rule: sextets.induct)
  case (4 a b c r)
  then show ?case using byte_parts [of a] byte_parts [of b] byte_parts [of c] pair_bound by simp
next
  case (3 a b)
  then show ?case using byte_parts [of a] byte_parts [of b] pair_bound(1) pair_bound(2) [of 0] by simp
next
  case (2 a)
  then show ?case using byte_parts [of a] pair_bound(1) [of 0] by simp
qed simp

lemma mixed_radix: "k * m + x = k' * m + x' \<Longrightarrow> x < m \<Longrightarrow> x' < m \<Longrightarrow> k = k' \<and> x = x'" for k x k' x' m :: nat
proof -
  assume e: "k * m + x = k' * m + x'" and x: "x < m" "x' < m"
  have "(k * m + x) div m = k" "(k' * m + x') div m = k'" using x by simp_all
  then have "k = k'" using e by simp
  with e show ?thesis by simp
qed

lemma sextet_split: "a div 4 = a' div 4 \<Longrightarrow> a mod 4 * 16 + x = a' mod 4 * 16 + x' \<Longrightarrow> x < 16 \<Longrightarrow> x' < 16 \<Longrightarrow>
    a = a' \<and> x = x'" for a a' x x' :: nat
  using mixed_radix [of "a mod 4" 16 x "a' mod 4" x'] by (metis div_mult_mod_eq)

lemma sextet_split2: "b div 16 = b' div 16 \<Longrightarrow> b mod 16 * 4 + x = b' mod 16 * 4 + x' \<Longrightarrow> x < 4 \<Longrightarrow> x' < 4 \<Longrightarrow>
    b = b' \<and> x = x'" for b b' x x' :: nat
  using mixed_radix [of "b mod 16" 4 x "b' mod 16" x'] by (metis div_mult_mod_eq)

lemma sextets_inj:
  "sextets xs = sextets ys \<Longrightarrow> length xs = length ys \<Longrightarrow> \<forall>x \<in> set xs. x < 256 \<Longrightarrow> \<forall>y \<in> set ys. y < 256 \<Longrightarrow> xs = ys"
proof (induction xs arbitrary: ys rule: sextets.induct)
  case (4 a b c r)
  obtain a' b' c' r' where ys: "ys = a' # b' # c' # r'"
    using 4(3) by (metis length_Suc_conv)
  have "b < 256" "b' < 256" "c < 256" "c' < 256" using 4(4,5) ys by simp_all
  then have d: "b div 16 < 16" "b' div 16 < 16" "c div 64 < 4" "c' div 64 < 4" using byte_parts by simp_all
  have a: "a = a' \<and> b div 16 = b' div 16" using 4(2) d ys by (intro sextet_split) auto
  then have b: "b = b' \<and> c div 64 = c' div 64" using 4(2) d ys by (intro sextet_split2) auto
  have "c mod 64 = c' mod 64" using 4(2) ys by simp
  with b have c: "c = c'" by (metis div_mult_mod_eq)
  have "r = r'" using 4 ys by (intro 4(1)) auto
  with a b c ys show ?case by simp
next
  case (3 a b)
  obtain a' b' where ys: "ys = [a', b']" using 3(2) by (cases ys rule: sextets.cases) auto
  have "b < 256" "b' < 256" using 3(3,4) ys by simp_all
  then have d: "b div 16 < 16" "b' div 16 < 16" using byte_parts by simp_all
  have a: "a = a' \<and> b div 16 = b' div 16" using 3(1) d ys by (intro sextet_split) auto
  then have "b = b' \<and> (0::nat) = 0" using 3(1) ys by (intro sextet_split2) auto
  with a ys show ?case by simp
next
  case (2 a)
  obtain a' where ys: "ys = [a']" using 2(2) by (cases ys rule: sextets.cases) auto
  have "a = a' \<and> (0::nat) = 0" using 2(1) ys by (intro sextet_split) auto
  with ys show ?case by simp
qed simp

lemma b64_table: "\<forall>n \<in> set [0..<64]. replace_char (CHR ''='') [] (replace_char (CHR ''/'') ''_''
    (replace_char (CHR ''+'') ''-'' [b64_char n])) = [url_char n] \<and> url_safe (url_char n)"
  by code_simp

lemma url_char_distinct: "distinct (map url_char [0..<64])"
  by code_simp

lemma url_char_inj: "inj_on url_char {..<64}"
  using url_char_distinct by (simp add: distinct_map atLeast0LessThan)

lemma replace_char_append: "replace_char c t (a @ b) = replace_char c t a @ replace_char c t b"
  by (simp add: replace_char_def)

lemma replace_char_Cons: "replace_char c t (x # s) = replace_char c t [x] @ replace_char c t s"
  by (simp add: replace_char_def)

abbreviation to_url :: "string \<Rightarrow> string" where
  "to_url s \<equiv> replace_char (CHR ''='') [] (replace_char (CHR ''/'') ''_'' (replace_char (CHR ''+'') ''-'' s))"

lemma to_url_sextets: "\<forall>n \<in> set ns. n < 64 \<Longrightarrow> to_url (map b64_char ns) = map url_char ns"
proof (induction ns)
  case (Cons n ns)
  have "to_url [b64_char n] = [url_char n]" using b64_table Cons.prems by simp
  then show ?case
    using Cons by (simp add: replace_char_Cons [of _ _ _ "map b64_char ns"] replace_char_append)
qed (simp add: replace_char_def)

lemma to_url_pad: "to_url (replicate k (CHR ''='')) = []"
  by (induction k) (simp_all add: replace_char_def)

lemma generateToken_sextets: "generateToken buf = map url_char (sextets (map unat buf))"
proof -
  have b: "\<forall>x \<in> set (map unat buf). x < 256" using unsigned_less [where 'b = 8] by auto
  have m: "map of_char (map (\<lambda>b. char_of (unat b)) buf) = map unat buf"
    using b by (simp add: of_char_of)
  have "generateToken buf = to_url (map b64_char (sextets (map unat buf))
      @ replicate ((3 - length buf mod 3) mod 3) (CHR ''=''))"
    unfolding generateToken_def btoa_def Let_def m length_map ..
  also have "\<dots> = map url_char (sextets (map unat buf))"
    using to_url_sextets [OF sextet_bounds [OF b]] to_url_pad by (simp add: replace_char_append)
  finally show ?thesis .
qed

section \<open>Lemmas on the step\<close>

lemma continue_offered: "offers (auth_view w) (Click BtnContinue) \<longleftrightarrow> af_provider (aw_form w) \<noteq> None \<and> \<not> aw_busy w"
  by (auto simp: auth_view_def auth_providers_def Let_def list_ex_iff)

definition auth_inv :: "auth_world \<Rightarrow> bool" where
  "auth_inv w \<longleftrightarrow> (if aw_busy w then \<exists>q. aw_pending w = [q] else aw_pending w = [])"

lemma af_edit_provider [simp]: "af_provider (af_edit fl v f) = af_provider f"
  by (cases fl) simp_all

lemma auth_inv_step: "auth_inv w \<Longrightarrow> au_enabled w ev \<Longrightarrow> auth_inv (au_step ev w)"
proof (cases ev)
  case (AuContinue buf)
  assume "auth_inv w" "au_enabled w ev"
  then show ?thesis using AuContinue
    by (auto simp: auth_inv_def handleSubmit_def continue_offered Let_def split: option.split)
next
  case (AuConfig p e pw b r)
  assume "auth_inv w" "au_enabled w ev"
  then show ?thesis using AuConfig
    by (cases r) (auto simp: auth_inv_def config_reply_def auth_done_def Let_def split: if_splits)
next
  case (AuLogin e pw r)
  assume "auth_inv w" "au_enabled w ev"
  then show ?thesis using AuLogin by (auto simp: auth_inv_def login_reply_def auth_done_def split: if_splits)
qed (simp_all add: auth_inv_def)

interpretation auth: machine au_enabled au_step "auth_start origin ls" auth_inv
  by unfold_locales (simp_all add: auth_inv_step, simp add: auth_inv_def auth_start_def)

section \<open>Properties\<close>

text \<open>C16: A generated token is 43 characters long, of the URL-safe base64 alphabet (so it needs no padding
  and passes the 16-character minimum), and the encoding loses no entropy: different random bytes
  give different tokens.\<close>

theorem generated_token:
  assumes "length buf = 32"
  shows "length (generateToken buf) = 43 \<and> (\<forall>c \<in> set (generateToken buf). url_safe c)
    \<and> (length buf' = 32 \<and> generateToken buf' = generateToken buf \<longrightarrow> buf' = buf)"
proof -
  have b: "\<forall>x \<in> set (map unat bs). x < 256" for bs :: "8 word list"
    using unsigned_less [where 'b = 8] by auto
  have "\<forall>c \<in> set (generateToken buf). url_safe c"
    using sextet_bounds [OF b [of buf]] b64_table by (auto simp: generateToken_sextets)
  moreover have "buf' = buf" if "length buf' = 32" "generateToken buf' = generateToken buf"
  proof -
    let ?A = "sextets (map unat buf')" and ?B = "sextets (map unat buf)"
    have "set ?A \<union> set ?B \<subseteq> {..<64}" using sextet_bounds [OF b [of buf]] sextet_bounds [OF b [of buf']] by auto
    then have "inj_on url_char (set ?A \<union> set ?B)" using url_char_inj inj_on_subset by blast
    then have "?A = ?B"
      using that(2) unfolding generateToken_sextets by (rule map_inj_on [rotated])
    then have "map unat buf' = map unat buf"
      by (rule sextets_inj) (use assms that(1) b in simp_all)
    then show ?thesis by (rule map_injective) (simp add: inj_on_def word_unat_eq_iff)
  qed
  ultimately show ?thesis using assms by (simp add: generateToken_sextets length_sextets)
qed

theorem generated_token_witness:
  "length (generateToken (replicate 32 255)) = 43 \<and> list_all url_safe (generateToken (replicate 32 255))"
  using generated_token [of "replicate 32 255" "replicate 32 0"] by (simp add: list_all_iff)

text \<open>C15: Pressing Continue in the authentication step sends a configuration if and only if the administrator's
  e-mail is filled in and, for local accounts, the password has at least 8 characters and was repeated
  correctly. What is sent names the chosen provider and the e-mail and carries a fresh 43-character signing
  secret, and the step is busy. Otherwise nothing is sent, the step is not made busy, and the first failing
  check is shown: the missing e-mail, the short password, then the differing repetition.\<close>

theorem auth_submit:
  assumes "au_enabled w (AuContinue buf)"
  shows "let f = aw_form w; v = au_step (AuContinue buf) w;
             local_ok = (length (af_password f) \<ge> 8 \<and> af_confirmPw f = af_password f)
    in \<exists>p. af_provider f = Some p \<and>
      (if af_email f \<noteq> [] \<and> (p \<noteq> PvLocal \<or> local_ok)
       then aw_busy v \<and> aw_error v = None
         \<and> (\<exists>rest secret. aw_pending v = aw_pending w @
              [RqConfig p (af_email f) (af_password f)
                 (JObj ((''primary_provider'', JStr (provider_key p)) # (''jwt_secret'', JStr secret)
                    # (''bootstrap_admin_email'', JStr (af_email f)) # rest))]
            \<and> secret = generateToken buf \<and> length secret = 43)
       else aw_pending v = aw_pending w \<and> aw_busy v = aw_busy w
         \<and> aw_error v = Some
             (if af_email f = [] then ''Admin email is required''
              else if length (af_password f) < 8 then ''Password must be at least 8 characters''
              else ''Passwords do not match''))"
proof -
  obtain p where p: "af_provider (aw_form w) = Some p" and l: "length buf = 32"
    using assms by (auto simp: continue_offered)
  have len: "length (generateToken buf) = 43" using l by (simp add: generateToken_sextets length_sextets)
  show ?thesis
  proof (cases "submit_error p (aw_form w)")
    case None
    then have "af_email (aw_form w) \<noteq> []"
      "p \<noteq> PvLocal \<or> length (af_password (aw_form w)) \<ge> 8 \<and> af_confirmPw (aw_form w) = af_password (aw_form w)"
      by (auto simp: submit_error_def split: if_splits)
    then show ?thesis using None p len by (simp add: handleSubmit_def authy_body_def Let_def)
  next
    case (Some m)
    then show ?thesis using p by (auto simp: handleSubmit_def submit_error_def Let_def split: if_splits)
  qed
qed

theorem auth_submit_witness:
  "\<exists>w secret rest. au_enabled w (AuContinue (replicate 32 7)) \<and> aw_pending (au_step (AuContinue (replicate 32 7)) w)
     = [RqConfig PvLocal ''a@b'' ''12345678'' (JObj ((''primary_provider'', JStr ''local'') # (''jwt_secret'', JStr secret)
          # (''bootstrap_admin_email'', JStr ''a@b'') # rest))]
     \<and> length secret = 43"
proof -
  let ?w = "au_step (AuEdit FConfirm ''12345678'') (au_step (AuEdit FPassword ''12345678'')
     (au_step (AuEdit FEmail ''a@b'') (au_step (AuPick PvLocal) (auth_start [] empty_storage))))"
  have en: "au_enabled ?w (AuContinue (replicate 32 7))" by (simp add: continue_offered auth_start_def)
  have "af_provider (aw_form ?w) = Some PvLocal" "af_email (aw_form ?w) = ''a@b''" "aw_pending ?w = []"
    "af_password (aw_form ?w) = ''12345678''" "af_confirmPw (aw_form ?w) = ''12345678''"
    by (simp_all add: auth_start_def auth_form_init_def)
  then show ?thesis using auth_submit [OF en] en by (intro exI [of _ ?w]) (auto simp: Let_def)
qed

text \<open>The automatic login after configuring local accounts cannot block the wizard: whatever its reply, the
  step calls \<open>onNext\<close> exactly once and is usable again; the reply's token is stored if it is not empty,
  and a failed login leaves the storage and the displayed error as they were.\<close>

theorem auto_login_outcome:
  assumes "au_enabled w (AuLogin e pw r)"
  shows "aw_next (au_step (AuLogin e pw r) w) = Suc (aw_next w) \<and> \<not> aw_busy (au_step (AuLogin e pw r) w)
    \<and> aw_error (au_step (AuLogin e pw r) w) = aw_error w
    \<and> aw_ls (au_step (AuLogin e pw r) w) =
        (case r of Inr t \<Rightarrow> if t = [] then aw_ls w else setToken (Some t) (aw_ls w) | Inl x \<Rightarrow> aw_ls w)"
  by (simp add: login_reply_def auth_done_def split: sum.split)

theorem auto_login_outcome_witness:
  "\<exists>w. au_enabled w (AuLogin ''a'' ''p'' (Inr ''t'')) \<and> getToken (aw_ls (au_step (AuLogin ''a'' ''p'' (Inr ''t'')) w)) = Some ''t''"
proof -
  let ?w = "(auth_start [] \<lparr>ls_items = [], ls_blocked = False, ls_full = False\<rparr>)\<lparr>aw_pending := [RqLogin ''a'' ''p'']\<rparr>"
  have en: "au_enabled ?w (AuLogin ''a'' ''p'' (Inr ''t''))" by simp
  show ?thesis using auto_login_outcome [OF en] en
    by (intro exI [of _ ?w]) (simp add: auth_start_def getToken_setToken_Some)
qed

text \<open>In the token step a token can only be saved when it has at least 16 characters and the
  acknowledgement is ticked, and switching between generating and pasting always takes the
  acknowledgement back, so no token of the other mode is saved on an old one.\<close>

theorem token_step_saves:
  "(offers (token_view busy t) (Click BtnSaveToken) \<longleftrightarrow> \<not> busy \<and> length (ts_token t) \<ge> 16 \<and> ts_ack t)
   \<and> \<not> offers (token_view busy (tk_step (TkGenerate buf) t)) (Click BtnSaveToken)
   \<and> \<not> offers (token_view busy (tk_step TkPaste t)) (Click BtnSaveToken)
   \<and> (offers (token_view busy t) (Edit FToken v) \<longleftrightarrow> ts_mode t = Paste)"
  by (cases "ts_mode t") (auto simp: token_view_def tokenTooShort_def list_ex_iff)

end
