(* ===== verification/Onboarding.thy ===== *)
theory Onboarding
  imports OnboardingAuth BrowsePage
begin

text \<open>
  The wizard of \<open>frontend/src/pages/Onboarding.tsx\<close>: the steps of \<open>OnboardingStorage\<close> and
  \<open>OnboardingAuth\<close>, the first-server and finish steps, and the component that owns the step number,
  the server's status, \<open>busy\<close> and \<open>error\<close>. A step's own state starts afresh whenever the step is
  entered (\<open>enter\<close>); the callbacks of a step that is no longer shown still reach the wizard. An
  asynchronous callback is cut at its \<open>await\<close>: \<open>WStatus k\<close> is a refresh of the status in flight and
  \<open>k\<close> what happens after it.
\<close>

section \<open>Steps\<close>

datatype step = Welcome | Storage | Authentication | FirstServer | Finish

fun step_no :: "step \<Rightarrow> nat" where
  "step_no Welcome = 1"
| "step_no Storage = 2"
| "step_no Authentication = 3"
| "step_no FirstServer = 4"
| "step_no Finish = 5"

instantiation step :: linorder
begin

definition less_eq_step :: "step \<Rightarrow> step \<Rightarrow> bool" where
  "less_eq_step a b = (step_no a \<le> step_no b)"

definition less_step :: "step \<Rightarrow> step \<Rightarrow> bool" where
  "less_step a b = (step_no a < step_no b)"

instance
proof
  fix a b c :: step
  show "a < b \<longleftrightarrow> a \<le> b \<and> \<not> b \<le> a" by (auto simp: less_eq_step_def less_step_def)
  show "a \<le> a" by (simp add: less_eq_step_def)
  show "a \<le> b \<Longrightarrow> b \<le> c \<Longrightarrow> a \<le> c" by (simp add: less_eq_step_def)
  show "a \<le> b \<Longrightarrow> b \<le> a \<Longrightarrow> a = b" by (cases a; cases b; simp add: less_eq_step_def)
  show "a \<le> b \<or> b \<le> a" by (auto simp: less_eq_step_def)
qed

end

text \<open>\<open>StepPill\<close> and \<open>Stepper\<close>: a pill shows a check mark once its step is over.\<close>

definition StepPill :: "bool \<Rightarrow> bool \<Rightarrow> nat \<Rightarrow> string \<Rightarrow> ('b, 'f) view" where
  "StepPill active is_done n label = Box [cond (\<not> is_done) (Txt (show_nat n)), Txt label]"

definition pill :: "step \<Rightarrow> step \<Rightarrow> string \<Rightarrow> ('b, 'f) view" where
  "pill current n label = StepPill (current = n) (current > n) (step_no n) label"

definition Stepper :: "step \<Rightarrow> ('b, 'f) view" where
  "Stepper current = Box [pill current Welcome ''Welcome'', pill current Storage ''Storage'',
     pill current Authentication ''Authentication'', pill current FirstServer ''First server'',
     pill current Finish ''Finish'']"

section \<open>The first server\<close>

definition CURATED_CATALOG_IDS :: "string list" where
  "CURATED_CATALOG_IDS = [''filesystem'', ''git'', ''github'', ''memory'', ''sequential_thinking'', ''time'']"

record first_step =
  fs_catalog :: "catalog_response option"
  fs_selected :: "catalog_entry option"
  fs_vars :: "string obj"

definition first_init :: first_step where
  "first_init = \<lparr>fs_catalog = None, fs_selected = None, fs_vars = []\<rparr>"

text \<open>\<open>new Map(entries.map(...))\<close>: the last entry with an id wins.\<close>

definition curated :: "catalog_response option \<Rightarrow> catalog_entry list" where
  "curated catalog = (case catalog of
      None \<Rightarrow> []
    | Some c \<Rightarrow> let by_id = from_entries (map (\<lambda>e. (ce_id e, e)) (cr_entries c))
                in List.map_filter (obj_get by_id) CURATED_CATALOG_IDS)"

definition first_request :: "catalog_entry \<Rightarrow> first_step \<Rightarrow> install_request" where
  "first_request entry f = \<lparr>iq_id = ce_id entry, iq_name = ce_id entry, iq_variables = fs_vars f\<rparr>"

definition first_back :: "first_step \<Rightarrow> first_step" where
  "first_back f = f\<lparr>fs_selected := None, fs_vars := []\<rparr>"

definition first_set_var :: "string \<Rightarrow> string \<Rightarrow> first_step \<Rightarrow> first_step" where
  "first_set_var k v f = f\<lparr>fs_vars := obj_put k v (fs_vars f)\<rparr>"

datatype wz_btn = BtnNext | BtnStorage st_btn | BtnAuth au_btn | BtnSelect catalog_entry | BtnBack
  | BtnFirstSkip | BtnFirstInstall | BtnFinish

datatype wz_field = FStorage st_field | FAuth au_field | FFirstVar string

type_synonym wz_view = "(wz_btn, wz_field) view"

definition FirstServerStep :: "bool \<Rightarrow> first_step \<Rightarrow> wz_view" where
  "FirstServerStep busy f = (case fs_selected f of
      Some entry \<Rightarrow> Box [
        Txt (''Install '' @ ce_name entry), Txt (ce_description entry),
        cond (ce_variables entry \<noteq> []) (Box (map (\<lambda>v. Box [
          Txt (cv_name v), cond (cv_required v) (Txt '' *''),
          Input (FFirstVar (cv_name v)) False
            (nullish (obj_get (fs_vars f) (cv_name v)) (nullish (cv_default v) [])),
          Txt (cv_description v)]) (ce_variables entry))),
        Button BtnBack False [Txt ''Back''],
        Button BtnFirstSkip busy [Txt ''Skip''],
        Button BtnFirstInstall busy [Txt (if busy then ''Installing...'' else ''Install and continue'')]]
    | None \<Rightarrow> Box [
        Txt ''Install your first MCP server'',
        Txt ''Pick one from the curated list below, or skip and add servers later from the Browse page.'',
        cond (fs_catalog f = None) (Txt ''Loading catalog...''),
        cond (fs_catalog f \<noteq> None \<and> curated (fs_catalog f) = [])
          (Txt ''No curated entries found in the bundled catalog.''),
        Box (map (\<lambda>e. Button (BtnSelect e) False
          [Txt (ce_id e), Txt (ce_category e), Txt (ce_name e), Txt (ce_description e)]) (curated (fs_catalog f))),
        Button BtnFirstSkip busy [Txt ''Skip - I will add servers later'']])"

definition WelcomeStep :: wz_view where
  "WelcomeStep = Box [Txt ''In the next few steps we will:'',
     Txt ''Set an admin bearer token so only you can manage this proxy.'',
     Txt ''Optionally install your first MCP server from the bundled catalog.'',
     Txt ''Finish up and land on the dashboard'',
     Button BtnNext False [Txt ''Get started'']]"

definition RestartRequiredCard :: "onboarding_database_info option \<Rightarrow> wz_view" where
  "RestartRequiredCard info = Box [Txt ''Restart the proxy to continue'',
     (case info of Some i \<Rightarrow> Box [Txt ''New URL:'', Txt (odi_current_url_masked i),
        Txt (''Dialect: '' @ odi_current_dialect i)] | None \<Rightarrow> Box []),
     Txt ''docker compose restart mcpxy'', Txt ''systemctl restart mcpxy'']"

definition FinishStep :: "bool \<Rightarrow> wz_view" where
  "FinishStep busy = Box [Txt ''You are all set'',
     Txt ''Click finish to lock in the settings and open the dashboard.'',
     Button BtnFinish busy [Txt (if busy then ''Finishing...'' else ''Finish setup'')]]"

section \<open>The wizard\<close>

datatype after_refresh = ThenNothing | ThenAuthentication | ThenFirstServer

datatype wz_req = WStatus after_refresh | WStorage storage_req | WAuth auth_req | WCatalog nat
  | WInstall install_request | WFinish

record wizard =
  wz_step :: step
  wz_status :: "onboarding_status option"
  wz_error :: "string option"
  wz_busy :: bool
  wz_restart :: bool
  wz_storage :: storage_form
  wz_auth :: auth_form
  wz_first :: first_step
  wz_mount :: nat
  wz_pending :: "wz_req list"
  wz_ls :: local_storage
  wz_origin :: string
  wz_completed :: nat

definition wz_info :: "wizard \<Rightarrow> onboarding_database_info option" where
  "wz_info s = (case wz_status s of Some st \<Rightarrow> os_database st | None \<Rightarrow> None)"

text \<open>\<open>status?.admin_token_set_at\<close>, which is falsy when it is null or zero.\<close>

definition stamped :: "onboarding_status option \<Rightarrow> bool" where
  "stamped st = (case st of Some x \<Rightarrow> (case os_admin_token_set_at x of Some t \<Rightarrow> t \<noteq> 0 | None \<Rightarrow> False) | None \<Rightarrow> False)"

definition storage_of :: "wizard \<Rightarrow> storage_world" where
  "storage_of s = \<lparr>sw_form = wz_storage s, sw_info = wz_info s, sw_busy = wz_busy s, sw_error = wz_error s,
     sw_pending = List.map_filter (\<lambda>q. case q of WStorage p \<Rightarrow> Some p | _ \<Rightarrow> None) (wz_pending s),
     sw_out = [], sw_tested = None\<rparr>"

definition auth_of :: "wizard \<Rightarrow> auth_world" where
  "auth_of s = \<lparr>aw_form = wz_auth s, aw_busy = wz_busy s, aw_error = wz_error s, aw_ls = wz_ls s,
     aw_pending = List.map_filter (\<lambda>q. case q of WAuth p \<Rightarrow> Some p | _ \<Rightarrow> None) (wz_pending s), aw_next = 0\<rparr>"

definition wizard_view :: "wizard \<Rightarrow> wz_view" where
  "wizard_view s = Box [Txt ''Welcome to MCPxy'',
     Txt ''First-run setup. This takes about two minutes and unlocks the dashboard.'',
     Stepper (wz_step s),
     error_box (wz_error s),
     (if wz_restart s then RestartRequiredCard (wz_info s)
      else case wz_step s of
        Welcome \<Rightarrow> WelcomeStep
      | Storage \<Rightarrow> map_view BtnStorage FStorage (storage_view (storage_of s))
      | Authentication \<Rightarrow> map_view BtnAuth FAuth (auth_view (auth_of s))
      | FirstServer \<Rightarrow> FirstServerStep (wz_busy s) (wz_first s)
      | Finish \<Rightarrow> FinishStep (wz_busy s))]"

section \<open>Handlers\<close>

definition wz_send :: "wz_req \<Rightarrow> wizard \<Rightarrow> wizard" where
  "wz_send q s = s\<lparr>wz_pending := wz_pending s @ [q]\<rparr>"

definition wz_settle :: "wz_req \<Rightarrow> wizard \<Rightarrow> wizard" where
  "wz_settle q s = s\<lparr>wz_pending := remove1 q (wz_pending s)\<rparr>"

text \<open>\<open>setStep\<close>, with the state a newly mounted step starts from and its mount effect.\<close>

definition enter :: "step \<Rightarrow> wizard \<Rightarrow> wizard" where
  "enter n s =
     (if n = wz_step s then s
      else case n of
        Storage \<Rightarrow> s\<lparr>wz_step := n, wz_storage := storage_form_init\<rparr>
      | Authentication \<Rightarrow> s\<lparr>wz_step := n, wz_auth := auth_form_init (wz_origin s)\<rparr>
      | FirstServer \<Rightarrow> wz_send (WCatalog (Suc (wz_mount s)))
          (s\<lparr>wz_step := n, wz_first := first_init, wz_mount := Suc (wz_mount s)\<rparr>)
      | _ \<Rightarrow> s\<lparr>wz_step := n\<rparr>)"

text \<open>The \<open>[status]\<close> effect.\<close>

definition status_effect :: "wizard \<Rightarrow> wizard" where
  "status_effect s = (if stamped (wz_status s) \<and> wz_step s < FirstServer then enter FirstServer s else s)"

fun after_status :: "after_refresh \<Rightarrow> wizard \<Rightarrow> wizard" where
  "after_status ThenNothing s = s"
| "after_status ThenAuthentication s = (enter Authentication s)\<lparr>wz_busy := False\<rparr>"
| "after_status ThenFirstServer s = enter FirstServer s"

text \<open>\<open>refreshStatus\<close> and what awaited it: a failed refresh leaves the status as it is. The state changes
  of the reply and of its continuation are one batch; the effect follows when the status is new.\<close>

definition refresh_reply :: "after_refresh \<Rightarrow> js_error + onboarding_status \<Rightarrow> wizard \<Rightarrow> wizard" where
  "refresh_reply k r s =
     (let s0 = wz_settle (WStatus k) s in case r of
        Inr next_status \<Rightarrow> status_effect (after_status k (s0\<lparr>wz_status := Some next_status\<rparr>))
      | Inl _ \<Rightarrow> after_status k s0)"

definition wz_start :: "string \<Rightarrow> onboarding_status option \<Rightarrow> local_storage \<Rightarrow> wizard" where
  "wz_start origin st ls = (let s = \<lparr>wz_step = Welcome, wz_status = st, wz_error = None, wz_busy = False,
       wz_restart = False, wz_storage = storage_form_init, wz_auth = auth_form_init origin,
       wz_first = first_init, wz_mount = 0, wz_pending = [], wz_ls = ls, wz_origin = origin,
       wz_completed = 0\<rparr>
     in status_effect (if st = None then wz_send (WStatus ThenNothing) s else s))"

text \<open>What a call of the storage step's callbacks does, and the storage step's events inside the wizard.\<close>

fun storage_outcome :: "storage_out list \<Rightarrow> wizard \<Rightarrow> wizard" where
  "storage_outcome [] s = s"
| "storage_outcome (Skipped # os) s = storage_outcome os (enter Authentication s)"
| "storage_outcome (Swapped RestartRequired # os) s = storage_outcome os (s\<lparr>wz_restart := True, wz_busy := False\<rparr>)"
| "storage_outcome (Swapped HotSwap # os) s = storage_outcome os (wz_send (WStatus ThenAuthentication) s)"

definition keep_storage :: "wz_req list \<Rightarrow> wz_req list" where
  "keep_storage qs = filter (\<lambda>q. case q of WStorage p \<Rightarrow> False | _ \<Rightarrow> True) qs"

definition with_storage :: "(storage_world \<Rightarrow> storage_world) \<Rightarrow> wizard \<Rightarrow> wizard" where
  "with_storage h s = (let w = h (storage_of s) in storage_outcome (sw_out w)
     (s\<lparr>wz_storage := sw_form w, wz_busy := sw_busy w, wz_error := sw_error w,
        wz_pending := keep_storage (wz_pending s) @ map WStorage (sw_pending w)\<rparr>))"

definition keep_auth :: "wz_req list \<Rightarrow> wz_req list" where
  "keep_auth qs = filter (\<lambda>q. case q of WAuth p \<Rightarrow> False | _ \<Rightarrow> True) qs"

text \<open>Each call of the authentication step's \<open>onNext\<close> starts a refresh nobody awaits.\<close>

definition with_auth :: "(auth_world \<Rightarrow> auth_world) \<Rightarrow> wizard \<Rightarrow> wizard" where
  "with_auth h s = (let w = h (auth_of s) in
     s\<lparr>wz_auth := aw_form w, wz_busy := aw_busy w, wz_error := aw_error w, wz_ls := aw_ls w,
       wz_pending := keep_auth (wz_pending s) @ map WAuth (aw_pending w)
         @ replicate (aw_next w) (WStatus ThenFirstServer)\<rparr>)"

definition catalog_loaded :: "nat \<Rightarrow> js_error + catalog_response \<Rightarrow> wizard \<Rightarrow> wizard" where
  "catalog_loaded n r s =
     (let s0 = (wz_settle (WCatalog n) s)\<lparr>wz_ls := after_call r (wz_ls s)\<rparr> in case r of
        Inr c \<Rightarrow> if wz_step s = FirstServer \<and> n = wz_mount s
          then s0\<lparr>wz_first := (wz_first s)\<lparr>fs_catalog := Some c\<rparr>\<rparr> else s0
      | Inl e \<Rightarrow> s0\<lparr>wz_error := Some (''Could not load catalog: '' @ error_text e)\<rparr>)"

definition first_install :: "wizard \<Rightarrow> wizard" where
  "first_install s = (case fs_selected (wz_first s) of
      None \<Rightarrow> s
    | Some entry \<Rightarrow> wz_send (WInstall (first_request entry (wz_first s))) (s\<lparr>wz_error := None, wz_busy := True\<rparr>))"

definition first_install_reply :: "install_request \<Rightarrow> js_error + json \<Rightarrow> wizard \<Rightarrow> wizard" where
  "first_install_reply q r s =
     (let s0 = (wz_settle (WInstall q) s)\<lparr>wz_ls := after_call r (wz_ls s), wz_busy := False\<rparr> in case r of
        Inr _ \<Rightarrow> enter Finish s0
      | Inl e \<Rightarrow> s0\<lparr>wz_error := Some (error_text e)\<rparr>)"

definition onFinish :: "wizard \<Rightarrow> wizard" where
  "onFinish s = wz_send WFinish (s\<lparr>wz_error := None, wz_busy := True\<rparr>)"

definition finish_reply :: "js_error + json \<Rightarrow> wizard \<Rightarrow> wizard" where
  "finish_reply r s =
     (let s0 = (wz_settle WFinish s)\<lparr>wz_busy := False\<rparr> in case r of
        Inr _ \<Rightarrow> s0\<lparr>wz_completed := Suc (wz_completed s)\<rparr>
      | Inl e \<Rightarrow> s0\<lparr>wz_error := Some (error_text e)\<rparr>)"

section \<open>The machine\<close>

datatype wz_event =
    WzAct "(wz_btn, wz_field) action"
  | WzContinue "8 word list"
  | WzStatus after_refresh "js_error + onboarding_status"
  | WzStorage st_event
  | WzAuth au_event
  | WzCatalog nat "js_error + catalog_response"
  | WzInstall install_request "js_error + json"
  | WzFinish "js_error + json"

fun wz_click :: "wz_btn \<Rightarrow> wizard \<Rightarrow> wizard" where
  "wz_click BtnNext s = enter Storage s"
| "wz_click (BtnStorage b) s = with_storage (st_step (StAct (Click b))) s"
| "wz_click (BtnAuth (BtnProvider p)) s = with_auth (au_step (AuPick p)) s"
| "wz_click (BtnAuth BtnContinue) s = s"
| "wz_click (BtnSelect e) s = s\<lparr>wz_first := (wz_first s)\<lparr>fs_selected := Some e\<rparr>\<rparr>"
| "wz_click BtnBack s = s\<lparr>wz_first := first_back (wz_first s)\<rparr>"
| "wz_click BtnFirstSkip s = enter Finish s"
| "wz_click BtnFirstInstall s = first_install s"
| "wz_click BtnFinish s = onFinish s"

fun wz_edit :: "wz_field \<Rightarrow> string \<Rightarrow> wizard \<Rightarrow> wizard" where
  "wz_edit (FStorage f) v s = with_storage (st_step (StAct (Edit f v))) s"
| "wz_edit (FAuth f) v s = with_auth (au_step (AuEdit f v)) s"
| "wz_edit (FFirstVar k) v s = s\<lparr>wz_first := first_set_var k v (wz_first s)\<rparr>"

fun wz_toggle :: "wz_field \<Rightarrow> wizard \<Rightarrow> wizard" where
  "wz_toggle (FStorage f) s = with_storage (st_step (StAct (Toggle f))) s"
| "wz_toggle _ s = s"

fun wz_step_ev :: "wz_event \<Rightarrow> wizard \<Rightarrow> wizard" where
  "wz_step_ev (WzAct (Click b)) s = wz_click b s"
| "wz_step_ev (WzAct (Edit f v)) s = wz_edit f v s"
| "wz_step_ev (WzAct (Toggle f)) s = wz_toggle f s"
| "wz_step_ev (WzContinue buf) s = with_auth (au_step (AuContinue buf)) s"
| "wz_step_ev (WzStatus k r) s = refresh_reply k r s"
| "wz_step_ev (WzStorage ev) s = with_storage (st_step ev) s"
| "wz_step_ev (WzAuth ev) s = with_auth (au_step ev) s"
| "wz_step_ev (WzCatalog n r) s = catalog_loaded n r s"
| "wz_step_ev (WzInstall q r) s = first_install_reply q r s"
| "wz_step_ev (WzFinish r) s = finish_reply r s"

text \<open>\<open>WzContinue\<close> is the click on Continue with the random bytes it draws; \<open>WzStorage\<close> and \<open>WzAuth\<close> are
  the replies to the requests of those steps.\<close>

fun wz_enabled :: "wizard \<Rightarrow> wz_event \<Rightarrow> bool" where
  "wz_enabled s (WzAct a) = (offers (wizard_view s) a \<and> a \<noteq> Click (BtnAuth BtnContinue))"
| "wz_enabled s (WzContinue buf) = (offers (wizard_view s) (Click (BtnAuth BtnContinue)) \<and> length buf = 32)"
| "wz_enabled s (WzStatus k r) = (WStatus k \<in> set (wz_pending s))"
| "wz_enabled s (WzStorage ev) = (case ev of
     StTest b r \<Rightarrow> WStorage (RqTest b) \<in> set (wz_pending s)
   | StSave b r \<Rightarrow> WStorage (RqSave b) \<in> set (wz_pending s)
   | StAct a \<Rightarrow> False)"
| "wz_enabled s (WzAuth ev) = (case ev of
     AuConfig p e pw b r \<Rightarrow> WAuth (RqConfig p e pw b) \<in> set (wz_pending s)
   | AuLogin e pw r \<Rightarrow> WAuth (RqLogin e pw) \<in> set (wz_pending s)
   | _ \<Rightarrow> False)"
| "wz_enabled s (WzCatalog n r) = (WCatalog n \<in> set (wz_pending s))"
| "wz_enabled s (WzInstall q r) = (WInstall q \<in> set (wz_pending s))"
| "wz_enabled s (WzFinish r) = (WFinish \<in> set (wz_pending s))"

section \<open>What is offered in which step\<close>

lemma wizard_offers:
  "offers (wizard_view s) a \<longleftrightarrow> \<not> wz_restart s \<and> (case wz_step s of
      Welcome \<Rightarrow> a = Click BtnNext
    | Storage \<Rightarrow> (\<exists>a'. a = map_action BtnStorage FStorage a' \<and> offers (storage_view (storage_of s)) a')
    | Authentication \<Rightarrow> (\<exists>a'. a = map_action BtnAuth FAuth a' \<and> offers (auth_view (auth_of s)) a')
    | FirstServer \<Rightarrow> offers (FirstServerStep (wz_busy s) (wz_first s)) a
    | Finish \<Rightarrow> \<not> wz_busy s \<and> a = Click BtnFinish)"
proof -
  have "\<not> offers (Stepper n) a" for n by (simp add: Stepper_def pill_def StepPill_def)
  moreover have "\<not> offers (RestartRequiredCard i) a" for i
    by (simp add: RestartRequiredCard_def split: option.split)
  moreover have "offers WelcomeStep a = (a = Click BtnNext)" by (simp add: WelcomeStep_def)
  moreover have "offers (FinishStep b) a = (\<not> b \<and> a = Click BtnFinish)" for b by (simp add: FinishStep_def)
  ultimately show ?thesis
    by (simp add: wizard_view_def offers_map_view inj_on_def split: step.split)
qed

lemma first_offers:
  "offers (FirstServerStep busy f) a \<Longrightarrow> (\<exists>e. a = Click (BtnSelect e)) \<or> a = Click BtnBack
     \<or> a = Click BtnFirstSkip \<or> a = Click BtnFirstInstall \<or> (\<exists>k v. a = Edit (FFirstVar k) v)"
  by (cases a) (auto simp: FirstServerStep_def list_ex_iff split: option.splits)

section \<open>The wizard's invariant\<close>

definition storage_phase :: "wz_req \<Rightarrow> bool" where
  "storage_phase q \<longleftrightarrow> (case q of WStorage p \<Rightarrow> True | WStatus k \<Rightarrow> k \<noteq> ThenFirstServer | _ \<Rightarrow> False)"

definition wz_inv :: "wizard \<Rightarrow> bool" where
  "wz_inv s \<longleftrightarrow> (stamped (wz_status s) \<longrightarrow> FirstServer \<le> wz_step s)
     \<and> (wz_step s = Welcome \<longrightarrow> wz_pending s = [] \<and> \<not> wz_busy s)
     \<and> (wz_step s = Storage \<longrightarrow> wz_pending s = [] \<or>
          (\<exists>q. wz_pending s = [q] \<and> wz_busy s \<and> ((\<exists>p. q = WStorage p) \<or> q = WStatus ThenAuthentication)))
     \<and> (Storage < wz_step s \<longrightarrow> (\<forall>q \<in> set (wz_pending s). \<not> storage_phase q))"

lemma step_less [simp]:
  "a < b \<longleftrightarrow> step_no a < step_no b" "a \<le> b \<longleftrightarrow> step_no a \<le> step_no b" for a b :: step
  by (simp_all add: less_eq_step_def less_step_def)

lemma enter_fields [simp]:
  "wz_step (enter n s) = n" "wz_status (enter n s) = wz_status s" "wz_busy (enter n s) = wz_busy s"
  "wz_completed (enter n s) = wz_completed s" "wz_restart (enter n s) = wz_restart s"
  "wz_ls (enter n s) = wz_ls s" "wz_error (enter n s) = wz_error s"
  by (auto simp: enter_def wz_send_def split: step.split)

lemma enter_pending:
  "wz_pending (enter n s) = wz_pending s @ (if n = FirstServer \<and> wz_step s \<noteq> FirstServer then [WCatalog (Suc (wz_mount s))] else [])"
  by (auto simp: enter_def wz_send_def split: step.split)

lemma status_effect_step: "stamped (wz_status s) \<Longrightarrow> 4 \<le> step_no (wz_step (status_effect s))"
  by (simp add: status_effect_def)

text \<open>Once the storage phase is over nothing of it is in flight, whatever the step.\<close>

definition later :: "wizard \<Rightarrow> bool" where
  "later s \<longleftrightarrow> (stamped (wz_status s) \<longrightarrow> FirstServer \<le> wz_step s) \<and> Storage < wz_step s
     \<and> (\<forall>q \<in> set (wz_pending s). \<not> storage_phase q)"

lemma later_inv: "later s \<Longrightarrow> wz_inv s"
  by (auto simp: later_def wz_inv_def)

lemma inv_later: "wz_inv s \<Longrightarrow> Storage < wz_step s \<Longrightarrow> later s"
  by (simp add: later_def wz_inv_def)

lemma later_enter: "later s \<Longrightarrow> 4 \<le> step_no n \<Longrightarrow> later (enter n s)"
  by (auto simp: later_def enter_pending storage_phase_def)

lemma later_enter_auth:
  "\<not> stamped (wz_status s) \<Longrightarrow> \<forall>q \<in> set (wz_pending s). \<not> storage_phase q \<Longrightarrow> later (enter Authentication s)"
  by (simp add: later_def enter_pending)

lemma later_send: "later s \<Longrightarrow> \<not> storage_phase q \<Longrightarrow> later (wz_send q s)"
  by (auto simp: later_def wz_send_def)

lemma later_settle: "later s \<Longrightarrow> later (wz_settle q s)"
  using set_remove1_subset by (fastforce simp: later_def wz_settle_def)

lemma later_cong: "later s \<Longrightarrow> wz_status t = wz_status s \<Longrightarrow> wz_step t = wz_step s \<Longrightarrow>
    wz_pending t = wz_pending s \<Longrightarrow> later t"
  by (simp add: later_def)

lemma later_with_auth: "later s \<Longrightarrow> later (with_auth h s)"
  by (auto simp: later_def with_auth_def keep_auth_def storage_phase_def Let_def)

lemma later_status_effect:
  "Storage < wz_step s \<Longrightarrow> \<forall>q \<in> set (wz_pending s). \<not> storage_phase q \<Longrightarrow> later (status_effect s)"
  by (auto simp: later_def status_effect_def enter_pending storage_phase_def)

lemma keep_storage_simps [simp]:
  "keep_storage [] = []" "keep_storage [WStorage p] = []" "keep_storage [WStatus k] = [WStatus k]"
  by (simp_all add: keep_storage_def)

lemma storage_of_pending:
  "wz_pending s = [] \<Longrightarrow> sw_pending (storage_of s) = []"
  "wz_pending s = [WStorage p] \<Longrightarrow> sw_pending (storage_of s) = [p]"
  "wz_pending s = [WStatus k] \<Longrightarrow> sw_pending (storage_of s) = []"
  by (simp_all add: storage_of_def map_filter_simps)

lemma storage_of_fields [simp]:
  "sw_busy (storage_of s) = wz_busy s" "sw_out (storage_of s) = []" "sw_form (storage_of s) = wz_storage s"
  "sw_error (storage_of s) = wz_error s" "sw_info (storage_of s) = wz_info s"
  by (simp_all add: storage_of_def)

text \<open>The storage step keeps the wizard in it or hands over with nothing in flight.\<close>

lemma keep_pending: "wz_pending s = [] \<or> (\<exists>q. wz_pending s = [q] \<and> wz_busy s
      \<and> ((\<exists>p. q = WStorage p) \<or> q = WStatus ThenAuthentication)) \<Longrightarrow>
   keep_storage (wz_pending s) @ map WStorage (sw_pending (storage_of s)) = wz_pending s"
  by (auto simp: storage_of_pending)

lemma inv_storage_form:
  assumes inv: "wz_inv s" and st: "wz_step s = Storage"
    and same: "sw_busy (h (storage_of s)) = wz_busy s" "sw_pending (h (storage_of s)) = sw_pending (storage_of s)"
      "sw_out (h (storage_of s)) = []"
  shows "wz_inv (with_storage h s)"
proof -
  have k: "keep_storage (wz_pending s) @ map WStorage (sw_pending (storage_of s)) = wz_pending s"
    using inv st by (intro keep_pending) (auto simp: wz_inv_def)
  then show ?thesis using inv st same by (simp add: with_storage_def wz_inv_def Let_def)
qed

lemma idle_handover:
  assumes inv: "wz_inv s" and st: "wz_step s = Storage" and p: "wz_pending s = []"
    and w: "sw_out (h (storage_of s)) = [Skipped]" "sw_pending (h (storage_of s)) = []"
  shows "wz_inv (with_storage h s)"
proof -
  have "\<not> stamped (wz_status s)" using inv st by (auto simp: wz_inv_def)
  then show ?thesis
    using p w by (simp add: with_storage_def Let_def later_inv later_enter_auth)
qed

lemma idle_request:
  assumes inv: "wz_inv s" and st: "wz_step s = Storage" and p: "wz_pending s = []"
    and w: "sw_out (h (storage_of s)) = []" "sw_pending (h (storage_of s)) = [q]" "sw_busy (h (storage_of s))"
  shows "wz_inv (with_storage h s)"
  using assms by (simp add: with_storage_def wz_inv_def Let_def)

lemma inv_storage_click:
  assumes inv: "wz_inv s" and st: "wz_step s = Storage" and en: "offers (storage_view (storage_of s)) (Click b)"
  shows "wz_inv (with_storage (st_step (StAct (Click b))) s)"
proof (cases b)
  case (BtnDialect d)
  then show ?thesis by (intro inv_storage_form [OF inv st]) simp_all
next
  case BtnSkip
  then have "wz_pending s = []" using inv st en by (auto simp: skip_offered wz_inv_def)
  then show ?thesis using BtnSkip by (intro idle_handover [OF inv st]) (simp_all add: storage_of_pending)
next
  case BtnTest
  then have "wz_pending s = []" using inv st en by (auto simp: test_offered wz_inv_def)
  then show ?thesis
    using BtnTest by (intro idle_request [OF inv st]) (simp_all add: runTest_def storage_of_pending)
next
  case BtnSave
  then have p: "wz_pending s = []" using inv st en by (auto simp: save_offered saveDisabled_def wz_inv_def)
  let ?noop = "sf_dialect (wz_storage s) = Sqlite \<and> currentIsDefault (wz_info s) \<and> \<not> sf_usingRaw (wz_storage s)"
  show ?thesis
  proof (cases ?noop)
    case True
    then show ?thesis
      using BtnSave p by (intro idle_handover [OF inv st]) (simp_all add: saveAndContinue_def storage_of_pending)
  next
    case False
    then show ?thesis
      using BtnSave p by (intro idle_request [OF inv st])
        (simp_all add: saveAndContinue_def storage_of_pending del: de_Morgan_conj)
  qed
qed

lemma inv_storage_reply:
  assumes inv: "wz_inv s" and en: "wz_enabled s (WzStorage ev)"
  shows "wz_inv (with_storage (st_step ev) s)"
proof -
  obtain p where p: "WStorage p \<in> set (wz_pending s)" and ev: "(\<exists>b r. p = RqTest b \<and> ev = StTest b r) \<or> (\<exists>b r. p = RqSave b \<and> ev = StSave b r)"
    using en by (cases ev) auto
  have st: "wz_step s = Storage"
    using inv p by (cases "wz_step s") (auto simp: wz_inv_def storage_phase_def)
  then have q: "wz_pending s = [WStorage p]" "wz_busy s" using inv p by (auto simp: wz_inv_def)
  from ev show ?thesis
  proof
    assume "\<exists>b r. p = RqTest b \<and> ev = StTest b r"
    then show ?thesis
      using q st inv by (auto simp: with_storage_def test_reply_def storage_of_pending wz_inv_def Let_def)
  next
    assume "\<exists>b r. p = RqSave b \<and> ev = StSave b r"
    then obtain b r where b: "p = RqSave b" "ev = StSave b r" by auto
    then show ?thesis
      using q st inv by (cases r; cases "osd_mode (projr r)")
        (auto simp: with_storage_def save_reply_def storage_of_pending wz_inv_def wz_send_def Let_def)
  qed
qed

lemma inv_status:
  assumes inv: "wz_inv s" and q: "WStatus k \<in> set (wz_pending s)"
  shows "wz_inv (refresh_reply k r s)"
proof (cases "Storage < wz_step s")
  case True
  then have l: "later (wz_settle (WStatus k) s)" by (intro later_settle inv_later [OF inv])
  have k: "k = ThenFirstServer" using inv True q by (auto simp: wz_inv_def storage_phase_def)
  have "later (after_status k (wz_settle (WStatus k) s))" using l k by (simp add: later_enter)
  moreover have "later (status_effect (after_status k ((wz_settle (WStatus k) s)\<lparr>wz_status := Some n\<rparr>)))" for n
    using l k by (intro later_status_effect) (auto simp: later_def enter_pending storage_phase_def)
  ultimately show ?thesis by (cases r) (simp_all add: refresh_reply_def later_inv Let_def)
next
  case False
  then have st: "wz_step s = Storage" using inv q by (cases "wz_step s") (auto simp: wz_inv_def)
  then have k: "k = ThenAuthentication" and p: "wz_pending s = [WStatus k]" using inv q by (auto simp: wz_inv_def)
  have n: "\<not> stamped (wz_status s)" using inv st by (auto simp: wz_inv_def)
  have "wz_pending (wz_settle (WStatus k) s) = []" by (simp add: wz_settle_def p)
  then have "later (enter Authentication (wz_settle (WStatus k) s))"
    using n by (intro later_enter_auth) (simp_all add: wz_settle_def)
  then have "later ((enter Authentication (wz_settle (WStatus k) s))\<lparr>wz_busy := False\<rparr>)"
    by (rule later_cong) simp_all
  moreover have "later (status_effect ((enter Authentication ((wz_settle (WStatus k) s)\<lparr>wz_status := Some x\<rparr>))\<lparr>wz_busy := False\<rparr>))" for x
    by (rule later_status_effect) (simp_all add: enter_pending wz_settle_def p)
  ultimately show ?thesis using k by (cases r) (simp_all add: refresh_reply_def later_inv Let_def)
qed

lemma later_step:
  assumes l: "later s" and en: "wz_enabled s ev"
  shows "later (wz_step_ev ev s)"
proof (cases ev)
  case (WzAct a)
  have st: "wz_step s = Authentication \<or> wz_step s = FirstServer \<or> wz_step s = Finish"
    using l by (cases "wz_step s") (simp_all add: later_def)
  have form: "later (s\<lparr>wz_first := f\<rparr>)" for f by (rule later_cong [OF l]) simp_all
  from st show ?thesis
  proof (elim disjE)
    assume "wz_step s = Authentication"
    then obtain a' where m: "a = map_action BtnAuth FAuth a'" "a \<noteq> Click (BtnAuth BtnContinue)"
      using en WzAct by (auto simp: wizard_offers)
    then have a': "a = map_action BtnAuth FAuth a'" "a' \<noteq> Click BtnContinue" by auto
    then show ?thesis
    proof (cases a')
      case (Click b)
      then show ?thesis using a' WzAct l by (cases b) (simp_all add: later_with_auth)
    qed (use l WzAct later_with_auth in simp_all)
  next
    assume "wz_step s = FirstServer"
    then have "(\<exists>e. a = Click (BtnSelect e)) \<or> a = Click BtnBack
     \<or> a = Click BtnFirstSkip \<or> a = Click BtnFirstInstall \<or> (\<exists>k v. a = Edit (FFirstVar k) v)"
      using en WzAct first_offers [of "wz_busy s" "wz_first s" a] by (simp add: wizard_offers)
    moreover have "later (s\<lparr>wz_error := None, wz_busy := True\<rparr>)" by (rule later_cong [OF l]) simp_all
    ultimately show ?thesis
      using WzAct l form by (auto simp: later_enter first_install_def later_send storage_phase_def split: option.split)
  next
    assume "wz_step s = Finish"
    then have "a = Click BtnFinish" using en WzAct by (simp add: wizard_offers)
    moreover have "later (s\<lparr>wz_error := None, wz_busy := True\<rparr>)" by (rule later_cong [OF l]) simp_all
    ultimately show ?thesis using WzAct by (simp add: onFinish_def later_send storage_phase_def)
  qed
next
  case (WzContinue buf)
  then show ?thesis using l by (simp add: later_with_auth)
next
  case (WzStatus k r)
  then have "k = ThenFirstServer" using l en by (auto simp: later_def storage_phase_def)
  moreover from this have "later (status_effect (enter FirstServer ((wz_settle (WStatus k) s)\<lparr>wz_status := Some n\<rparr>)))" for n
    using later_settle [OF l, of "WStatus k"]
    by (intro later_status_effect) (auto simp: later_def enter_pending storage_phase_def)
  ultimately show ?thesis
    using WzStatus later_settle [OF l] by (cases r) (simp_all add: refresh_reply_def later_enter Let_def)
next
  case (WzStorage st)
  then show ?thesis using l en by (cases st) (auto simp: later_def storage_phase_def)
next
  case (WzAuth au)
  then show ?thesis using l by (simp add: later_with_auth)
next
  case (WzCatalog n r)
  have "later ((wz_settle (WCatalog n) s)\<lparr>wz_ls := x\<rparr>)" "later ((wz_settle (WCatalog n) s)\<lparr>wz_ls := x, wz_error := e\<rparr>)"
    "later ((wz_settle (WCatalog n) s)\<lparr>wz_ls := x, wz_first := f\<rparr>)" for x e f
    by (rule later_cong [OF later_settle [OF l]]; simp)+
  then show ?thesis using WzCatalog by (auto simp: catalog_loaded_def Let_def split: sum.split)
next
  case (WzInstall q r)
  have "later ((wz_settle (WInstall q) s)\<lparr>wz_ls := x, wz_busy := False\<rparr>)"
    "later ((wz_settle (WInstall q) s)\<lparr>wz_ls := x, wz_busy := False, wz_error := e\<rparr>)" for x e
    by (rule later_cong [OF later_settle [OF l]]; simp)+
  then show ?thesis using WzInstall by (auto simp: first_install_reply_def later_enter Let_def split: sum.split)
next
  case (WzFinish r)
  have "later ((wz_settle WFinish s)\<lparr>wz_busy := False, wz_completed := c\<rparr>)"
    "later ((wz_settle WFinish s)\<lparr>wz_busy := False, wz_error := e\<rparr>)" for c e
    by (rule later_cong [OF later_settle [OF l]]; simp)+
  then show ?thesis using WzFinish by (auto simp: finish_reply_def Let_def split: sum.split)
qed

lemma not_storage_action: "Click (BtnAuth b) \<noteq> map_action BtnStorage FStorage a"
  by (cases a) simp_all

lemma wz_inv_step: "wz_inv s \<Longrightarrow> wz_enabled s ev \<Longrightarrow> wz_inv (wz_step_ev ev s)"
proof -
  assume inv: "wz_inv s" and en: "wz_enabled s ev"
  consider "Storage < wz_step s" | "wz_step s = Welcome" | "wz_step s = Storage"
    by (cases "wz_step s") simp_all
  then show ?thesis
  proof cases
    case 1
    then show ?thesis using later_step [OF inv_later [OF inv] en] later_inv by simp
  next
    case 2
    then have p: "wz_pending s = []" and n: "\<not> stamped (wz_status s)" using inv by (auto simp: wz_inv_def)
    have "ev = WzAct (Click BtnNext)"
      using en 2 p by (cases ev) (auto simp: wizard_offers split: st_event.splits au_event.splits)
    then show ?thesis using p n by (simp add: wz_inv_def enter_pending)
  next
    case 3
    show ?thesis
    proof (cases ev)
      case (WzAct a)
      then obtain a' where a': "a = map_action BtnStorage FStorage a'" "offers (storage_view (storage_of s)) a'"
        using en 3 by (auto simp: wizard_offers)
      show ?thesis
      proof (cases a')
        case (Click b)
        then show ?thesis using inv_storage_click [OF inv 3] a' WzAct by simp
      next
        case (Edit f v)
        then show ?thesis using a' WzAct by (simp add: inv_storage_form [OF inv 3])
      next
        case (Toggle f)
        then show ?thesis using a' WzAct by (simp add: inv_storage_form [OF inv 3])
      qed
    next
      case (WzStatus k r)
      then show ?thesis using inv_status [OF inv] en by simp
    next
      case (WzStorage st)
      then show ?thesis using inv_storage_reply [OF inv] en by simp
    next
      case (WzContinue buf)
      then show ?thesis using en 3 not_storage_action by (auto simp: wizard_offers)
    qed (use inv en 3 in \<open>auto simp: wz_inv_def split: au_event.splits\<close>)
  qed
qed

lemma wz_inv_start: "wz_inv (wz_start origin (Some st) ls)"
  by (simp add: wz_start_def Let_def status_effect_def wz_inv_def enter_pending storage_phase_def)

interpretation wizard: machine wz_enabled wz_step_ev "wz_start origin (Some st) ls" wz_inv
  by unfold_locales (simp_all add: wz_inv_start wz_inv_step)

section \<open>What the server makes of the variables\<close>

text \<open>The first loop of \<open>CatalogEntry.materialize\<close> in \<open>discovery/catalog.py\<close>: the effective variables
  and the required ones that are missing.\<close>

definition resolve_var :: "string obj \<Rightarrow> catalog_variable \<Rightarrow> string obj \<times> string list \<Rightarrow> string obj \<times> string list" where
  "resolve_var supplied v acc = (case acc of (effective, missing) \<Rightarrow>
     if nullish (obj_get supplied (cv_name v)) [] \<noteq> []
     then (obj_put (cv_name v) (nullish (obj_get supplied (cv_name v)) []) effective, missing)
     else case cv_default v of
       Some d \<Rightarrow> (obj_put (cv_name v) d effective, missing)
     | None \<Rightarrow> if cv_required v then (effective, missing @ [cv_name v]) else (effective, missing))"

definition resolve_vars :: "catalog_entry \<Rightarrow> string obj \<Rightarrow> string obj \<times> string list" where
  "resolve_vars entry supplied = fold (resolve_var supplied) (ce_variables entry) ([], [])"

lemma fold_resolve_cong:
  "\<forall>v \<in> set vs. resolve_var a v = resolve_var b v \<Longrightarrow> fold (resolve_var a) vs = fold (resolve_var b) vs"
  by (induction vs) simp_all

lemma edits_get:
  "obj_get (id_vars (fold (\<lambda>(k, t). set_var k t) es d)) k =
     (case map_of (rev es) k of Some t \<Rightarrow> Some t | None \<Rightarrow> obj_get (id_vars d) k)"
  "obj_get (fs_vars (fold (\<lambda>(k, t). first_set_var k t) es f)) k =
     (case map_of (rev es) k of Some t \<Rightarrow> Some t | None \<Rightarrow> obj_get (fs_vars f) k)"
  by (induction es rule: rev_induct) (auto simp: set_var_def first_set_var_def obj_simps)

lemma install_defaults:
  assumes "distinct (map cv_name (ce_variables entry))" and "v \<in> set (ce_variables entry)"
  shows "obj_get (id_vars (install_init entry)) (cv_name v) = Some (nullish (cv_default v) [])"
proof -
  let ?ds = "map (\<lambda>v. (cv_name v, nullish (cv_default v) [])) (ce_variables entry)"
  have d: "distinct (map fst ?ds)" using assms(1) by (simp add: comp_def)
  have "map_of ?ds (cv_name v) = Some (nullish (cv_default v) [])"
    using assms(2) d by (intro map_of_is_SomeI) auto
  then show ?thesis by (simp add: install_init_def from_entries_distinct [OF d])
qed

section \<open>Properties\<close>


definition fresh_status :: onboarding_status where
  "fresh_status = \<lparr>os_active = True, os_completed = False, os_expired = False, os_required = True,
     os_created_at = None, os_admin_token_set_at = None, os_first_upstream_at = None,
     os_completed_at = None, os_completed_by = None, os_ttl_s = None, os_expires_at = None,
     os_database = None\<rparr>"

definition auth_run :: "wz_event list" where
  "auth_run = [WzAct (Click BtnNext), WzAct (Click (BtnStorage BtnSkip)),
     WzAct (Click (BtnAuth (BtnProvider PvGoogle))), WzAct (Edit (FAuth OnboardingAuth.FEmail) ''a@b'')]"


definition finished :: "wz_event list \<Rightarrow> nat" where
  "finished es = length (filter (\<lambda>ev. case ev of WzFinish (Inr v) \<Rightarrow> True | _ \<Rightarrow> False) es)"

lemma completed_other: "(\<forall>v. ev \<noteq> WzFinish (Inr v)) \<Longrightarrow> wz_completed (wz_step_ev ev s) = wz_completed s"
proof (cases ev)
  case (WzAct a)
  have w: "wz_completed (with_storage h s) = wz_completed s" "wz_completed (with_auth h' s) = wz_completed s" for h h'
  proof -
    have "wz_completed (storage_outcome os t) = wz_completed t" for os t
      by (induction os t rule: storage_outcome.induct) (simp_all add: wz_send_def)
    then show "wz_completed (with_storage h s) = wz_completed s" by (simp add: with_storage_def Let_def)
    show "wz_completed (with_auth h' s) = wz_completed s" by (simp add: with_auth_def Let_def)
  qed
  show ?thesis
  proof (cases a)
    case (Click b)
    then show ?thesis using w WzAct
      by (cases b rule: wz_btn.exhaust; simp add: first_install_def onFinish_def wz_send_def split: option.split)
        (metis au_btn.exhaust wz_click.simps(3,4))
  next
    case (Edit f v)
    then show ?thesis using w WzAct by (cases f) simp_all
  next
    case (Toggle f)
    then show ?thesis using w WzAct by (cases f) simp_all
  qed
next
  case (WzStatus k r)
  have "wz_completed (status_effect t) = wz_completed t" for t by (simp add: status_effect_def)
  moreover have "wz_completed (after_status k t) = wz_completed t" for t by (cases k) simp_all
  ultimately show ?thesis using WzStatus by (cases r) (simp_all add: refresh_reply_def wz_settle_def Let_def)
next
  case (WzStorage e)
  have "wz_completed (storage_outcome os t) = wz_completed t" for os t
    by (induction os t rule: storage_outcome.induct) (simp_all add: wz_send_def)
  then show ?thesis using WzStorage by (simp add: with_storage_def Let_def)
next
  case (WzFinish r)
  assume "\<forall>v. ev \<noteq> WzFinish (Inr v)"
  then show ?thesis using WzFinish by (cases r) (simp_all add: finish_reply_def wz_settle_def Let_def)
qed (auto simp: with_auth_def catalog_loaded_def first_install_reply_def wz_settle_def Let_def split: sum.split)

text \<open>C35: The dashboard is opened only by the server's confirmation: \<open>onComplete\<close> has been called exactly as
  often as the finish request has succeeded.\<close>

theorem completed_is_finished:
  "run wz_enabled wz_step_ev (wz_start origin st ls) es = Some s \<Longrightarrow> wz_completed s = finished es"
proof (induction es arbitrary: s rule: rev_induct)
  case Nil
  then show ?case by (auto simp: finished_def wz_start_def status_effect_def wz_send_def Let_def)
next
  case (snoc ev es)
  then obtain t where t: "run wz_enabled wz_step_ev (wz_start origin st ls) es = Some t" "s = wz_step_ev ev t"
    by (auto simp: run_append split: option.splits if_splits)
  show ?case
  proof (cases "\<exists>v. ev = WzFinish (Inr v)")
    case True
    then show ?thesis using snoc.IH [OF t(1)] t(2)
      by (auto simp: finished_def finish_reply_def wz_settle_def Let_def)
  next
    case False
    then have "wz_completed s = wz_completed t" using t(2) completed_other by blast
    moreover have "finished (es @ [ev]) = finished es"
      using False by (auto simp: finished_def split: wz_event.split sum.split)
    ultimately show ?thesis using snoc.IH [OF t(1)] by simp
  qed
qed

theorem completed_is_finished_witness:
  "\<exists>s. run wz_enabled wz_step_ev (wz_start [] (Some (fresh_status\<lparr>os_admin_token_set_at := Some 1\<rparr>)) empty_storage)
      [WzAct (Click BtnFirstSkip), WzAct (Click BtnFinish), WzFinish (Inr JNull)] = Some s \<and> wz_completed s = 1"
proof -
  let ?es = "[WzAct (Click BtnFirstSkip), WzAct (Click BtnFinish), WzFinish (Inr JNull)]"
  let ?r = "run wz_enabled wz_step_ev (wz_start [] (Some (fresh_status\<lparr>os_admin_token_set_at := Some 1\<rparr>)) empty_storage) ?es"
  have r: "?r \<noteq> None"
    by (simp add: wz_start_def status_effect_def stamped_def fresh_status_def Let_def wizard_offers
        FirstServerStep_def first_init_def enter_def wz_send_def onFinish_def)
  then obtain s where s: "?r = Some s" by blast
  have "finished ?es = 1" by (simp add: finished_def)
  with completed_is_finished [OF s] s show ?thesis by (intro exI [of _ s]) simp
qed



text \<open>The authentication step can be submitted twice. Its \<open>onNext\<close> is not awaited, so after the first
  configuration was accepted, while the status is being refreshed, Continue is offered again; pressing
  it sends a second configuration, with another signing secret than the one just installed.\<close>

theorem auth_step_resubmits:
  assumes "wz_step s = Authentication" and "\<not> wz_restart s" and "wz_pending s = [WAuth (RqConfig p e pw b)]"
    and "p \<noteq> PvLocal" and "af_provider (wz_auth s) = Some p" and "af_email (wz_auth s) \<noteq> []"
    and "length buf = 32"
  shows "wz_enabled (wz_step_ev (WzAuth (AuConfig p e pw b (Inr v))) s) (WzContinue buf)
    \<and> wz_pending (wz_step_ev (WzContinue buf) (wz_step_ev (WzAuth (AuConfig p e pw b (Inr v))) s)) =
        [WStatus ThenFirstServer, WAuth (RqConfig p (af_email (wz_auth s)) (af_password (wz_auth s))
           (authy_body p (generateToken buf) (wz_auth s)))]"
proof -
  let ?t = "wz_step_ev (WzAuth (AuConfig p e pw b (Inr v))) s"
  have t: "?t = s\<lparr>wz_busy := False, wz_pending := [WStatus ThenFirstServer]\<rparr>"
    using assms(3,4) by (simp add: with_auth_def auth_of_def config_reply_def auth_done_def keep_auth_def
        map_filter_simps Let_def)
  have "offers (wizard_view ?t) (Click (BtnAuth BtnContinue))"
    unfolding wizard_offers using assms t continue_offered [of "auth_of ?t"]
    by (auto simp: auth_of_def intro!: exI [of _ "Click BtnContinue"])
  moreover have "submit_error p (wz_auth s) = None" using assms(4,6) by (simp add: submit_error_def)
  ultimately show ?thesis
    using assms t by (simp add: with_auth_def auth_of_def handleSubmit_def keep_auth_def map_filter_simps Let_def)
qed

definition resubmit_run :: "wz_event list" where
  "resubmit_run = auth_run @ [WzContinue (replicate 32 7)]"

theorem auth_step_resubmits_witness:
  "\<exists>s b. run wz_enabled wz_step_ev (wz_start [] (Some fresh_status) empty_storage) resubmit_run = Some s
     \<and> wz_pending s = [WAuth (RqConfig PvGoogle ''a@b'' [] b)]
     \<and> wz_enabled (wz_step_ev (WzAuth (AuConfig PvGoogle ''a@b'' [] b (Inr JNull))) s) (WzContinue (replicate 32 9))"
proof -
  let ?s0 = "wz_step_ev (WzAct (Click (BtnStorage BtnSkip))) (wz_step_ev (WzAct (Click BtnNext)) (wz_start [] (Some fresh_status) empty_storage))"
  let ?r = "run wz_enabled wz_step_ev (wz_start [] (Some fresh_status) empty_storage) resubmit_run"
  let ?b = "authy_body PvGoogle (generateToken (replicate 32 7)) ((auth_form_init [])\<lparr>af_provider := Some PvGoogle, af_email := ''a@b''\<rparr>)"
  have "?r \<noteq> None" by code_simp
  then obtain s where s: "?r = Some s" by blast
  have st: "wz_step (the ?r) = Authentication \<and> \<not> wz_restart (the ?r)
      \<and> af_provider (wz_auth (the ?r)) = Some PvGoogle \<and> af_email (wz_auth (the ?r)) \<noteq> []" by code_simp
  have p: "wz_pending (the ?r) = [WAuth (RqConfig PvGoogle ''a@b'' [] ?b)]" by code_simp
  have "length (replicate 32 9 :: 8 word list) = 32" by simp
  with auth_step_resubmits [of s PvGoogle "''a@b''" "[]" ?b "replicate 32 9" JNull] st p s
  show ?thesis by (intro exI [of _ s] exI [of _ ?b]) simp
qed

definition regress_run :: "wz_event list" where
  "regress_run =
     (let b1 = authy_body PvGoogle (generateToken (replicate 32 7)) ((auth_form_init [])\<lparr>af_provider := Some PvGoogle, af_email := ''a@b''\<rparr>);
          b2 = authy_body PvGoogle (generateToken (replicate 32 9)) ((auth_form_init [])\<lparr>af_provider := Some PvGoogle, af_email := ''a@b''\<rparr>)
      in resubmit_run @ [WzAuth (AuConfig PvGoogle ''a@b'' [] b1 (Inr JNull)), WzContinue (replicate 32 9),
        WzStatus ThenFirstServer (Inl (PlainErr [])),
        WzAuth (AuConfig PvGoogle ''a@b'' [] b2 (Inr JNull)), WzAct (Click BtnFirstSkip)])"

text \<open>As a consequence the step number can fall: when the second configuration is accepted after the user
  has already moved on to the last step, its refresh takes the wizard back to the first-server step.\<close>

theorem wizard_steps_back:
  "\<exists>s. run wz_enabled wz_step_ev (wz_start [] (Some fresh_status) empty_storage) regress_run = Some s
     \<and> wz_step s = Finish \<and> WStatus ThenFirstServer \<in> set (wz_pending s)
     \<and> wz_step (wz_step_ev (WzStatus ThenFirstServer (Inr fresh_status)) s) = FirstServer"
proof -
  let ?r = "run wz_enabled wz_step_ev (wz_start [] (Some fresh_status) empty_storage) regress_run"
  have "?r \<noteq> None" by code_simp
  moreover have "wz_step (the ?r) = Finish" by code_simp
  moreover have "WStatus ThenFirstServer \<in> set (wz_pending (the ?r))" by code_simp
  moreover have "wz_step (wz_step_ev (WzStatus ThenFirstServer (Inr fresh_status)) (the ?r)) = FirstServer"
    by code_simp
  ultimately show ?thesis by (intro exI [of _ "the ?r"]) simp
qed

end
