(* ===== verification/PolicyEngine.thy ===== *)
theory PolicyEngine
  imports ApiTypes
begin

text \<open>
  The policy documents that the Policies page edits, and what the proxy does with them: the merge of
  global and per-upstream policies and the method ACL of \<open>policy/engine.py\<close>, with the validation of
  \<open>config.py\<close>. An absent property and an explicit null are kept apart (\<open>opt\<close>) on the page's side; the
  server reads both as \<open>None\<close>. A pydantic object is truthy whatever its fields are, so \<open>a or b\<close> on
  policies is a test for \<open>None\<close>. \<open>fnmatch\<close> is Python's, on a case-sensitive platform.
\<close>

section \<open>Documents\<close>

record method_policy =
  mp_allow :: "string list opt"
  mp_deny :: "string list opt"

datatype rate_scope = ScopeUpstream | ScopeClientIp | ScopeBoth

record rate_limit_policy =
  rl_rps :: js_number
  rl_burst :: js_number
  rl_scope :: rate_scope

record size_policy =
  sz_max :: int

record redaction_policy =
  rp_pii :: "bool option"
  rp_pci :: "bool option"
  rp_request :: "bool option"
  rp_response :: "bool option"
  rp_replacement :: "string option"
  rp_custom :: "string obj option"

record upstream_policies =
  up_methods :: "method_policy opt"
  up_rate :: "rate_limit_policy opt"
  up_size :: "size_policy opt"
  up_redaction :: "redaction_policy opt"

record policies_config =
  pc_global :: "upstream_policies opt"
  pc_per_upstream :: "upstream_policies obj"

definition no_policies :: upstream_policies where
  "no_policies = \<lparr>up_methods = Undefined, up_rate = Undefined, up_size = Undefined, up_redaction = Undefined\<rparr>"

section \<open>File name patterns\<close>

text \<open>The inside of a bracket: ranges and single characters, read from the left.\<close>

fun class_match :: "string \<Rightarrow> char \<Rightarrow> bool" where
  "class_match [] c = False"
| "class_match (x # d # y # r) c =
     (if d = CHR ''-'' then (of_char x \<le> (of_char c :: nat) \<and> (of_char c :: nat) \<le> of_char y) \<or> class_match r c
      else x = c \<or> class_match (d # y # r) c)"
| "class_match (x # r) c = (x = c \<or> class_match r c)"

text \<open>The end of a bracket expression: a \<open>]\<close> in first position (after \<open>!\<close>) is an ordinary character.
  \<open>None\<close> when the bracket is not closed.\<close>

definition bracket_close :: "string \<Rightarrow> (string \<times> string) option" where
  "bracket_close q =
     (let k = (if q \<noteq> [] \<and> hd q = CHR '']'' then 1 else 0); r = dropWhile (\<lambda>c. c \<noteq> CHR '']'') (drop k q)
      in if r = [] then None else Some (take k q @ takeWhile (\<lambda>c. c \<noteq> CHR '']'') (drop k q), tl r))"

definition bracket :: "string \<Rightarrow> (bool \<times> string \<times> string) option" where
  "bracket p = (if p \<noteq> [] \<and> hd p = CHR ''!'' then map_option (Pair True) (bracket_close (tl p))
     else map_option (Pair False) (bracket_close p))"

lemma tl_shorter: "tl r = t \<Longrightarrow> r \<noteq> [] \<Longrightarrow> length r \<le> n \<Longrightarrow> length t < n"
  by (cases r) auto

lemma bracket_close_shorter:
  assumes "bracket_close q = Some (b, r)" shows "length r < length q"
proof -
  obtain k where k: "dropWhile (\<lambda>c. c \<noteq> CHR '']'') (drop k q) \<noteq> []"
    "tl (dropWhile (\<lambda>c. c \<noteq> CHR '']'') (drop k q)) = r"
    using assms unfolding bracket_close_def Let_def by (metis (no_types, lifting) option.distinct(1) option.inject prod.inject)
  have "length (dropWhile (\<lambda>c. c \<noteq> CHR '']'') (drop k q)) \<le> length (drop k q)" by (rule length_dropWhile_le)
  then have "length (dropWhile (\<lambda>c. c \<noteq> CHR '']'') (drop k q)) \<le> length q" by simp
  then show ?thesis using k tl_shorter by blast
qed

lemma bracket_shorter: "bracket p = Some (n, b, r) \<Longrightarrow> length r < length p"
  by (cases p) (auto simp: bracket_def dest!: bracket_close_shorter split: if_splits)

function fnmatch :: "string \<Rightarrow> string \<Rightarrow> bool" where
  "fnmatch s [] = (s = [])"
| "fnmatch s (c # p) =
     (if c = CHR ''*'' then fnmatch s p \<or> (case s of [] \<Rightarrow> False | x # t \<Rightarrow> fnmatch t (c # p))
      else if c = CHR ''?'' then (case s of [] \<Rightarrow> False | x # t \<Rightarrow> fnmatch t p)
      else case (if c = CHR ''['' then bracket p else None) of
        None \<Rightarrow> (case s of [] \<Rightarrow> False | x # t \<Rightarrow> if x = c then fnmatch t p else False)
      | Some (neg, body, r) \<Rightarrow>
          (case s of [] \<Rightarrow> False | x # t \<Rightarrow> if class_match body x \<noteq> neg then fnmatch t r else False))"
  by pat_completeness auto
termination
  by (relation "measures [\<lambda>(s, p). length p, \<lambda>(s, p). length s]")
    (auto dest: bracket_shorter simp: less_SucI split: if_splits)

declare fnmatch.simps(2) [simp del]

section \<open>The engine\<close>

record resolved =
  rs_methods :: "method_policy option"
  rs_rate :: "rate_limit_policy option"
  rs_size :: "size_policy option"
  rs_redaction :: "redaction_policy option"

definition py_or :: "'a opt \<Rightarrow> 'a opt \<Rightarrow> 'a option" where
  "py_or a b = (case opt_val a of Some x \<Rightarrow> Some x | None \<Rightarrow> opt_val b)"

definition resolve_for :: "policies_config \<Rightarrow> string \<Rightarrow> resolved" where
  "resolve_for c upstream =
     (let global = nullish (opt_val (pc_global c)) no_policies;
          per = nullish (obj_get (pc_per_upstream c) upstream) no_policies
      in \<lparr>rs_methods = py_or (up_methods per) (up_methods global),
          rs_rate = py_or (up_rate per) (up_rate global),
          rs_size = py_or (up_size per) (up_size global),
          rs_redaction = py_or (up_redaction per) (up_redaction global)\<rparr>)"

definition method_allowed :: "method_policy \<Rightarrow> string option \<Rightarrow> bool" where
  "method_allowed policy m =
     (let m = nullish m [];
          deny = nullish (opt_val (mp_deny policy)) []; allow = nullish (opt_val (mp_allow policy)) []
      in if list_ex (fnmatch m) deny then False
         else if allow \<noteq> [] then list_ex (fnmatch m) allow
         else True)"

text \<open>The first two checks of \<open>check\<close>: the size cap, then the ACL.\<close>

definition acl_denies :: "policies_config \<Rightarrow> string \<Rightarrow> string option \<Rightarrow> bool" where
  "acl_denies c upstream m =
     (case rs_methods (resolve_for c upstream) of Some p \<Rightarrow> \<not> method_allowed p m | None \<Rightarrow> False)"

definition size_denies :: "policies_config \<Rightarrow> string \<Rightarrow> int \<Rightarrow> bool" where
  "size_denies c upstream request_bytes =
     (case rs_size (resolve_for c upstream) of Some p \<Rightarrow> request_bytes > sz_max p | None \<Rightarrow> False)"

text \<open>The field constraints of \<open>RateLimitPolicy\<close> and \<open>SizePolicy\<close>.\<close>

definition number_positive :: "js_number \<Rightarrow> bool" where
  "number_positive n = (case n of Finite d \<Rightarrow> dec_pos d | _ \<Rightarrow> False)"

definition policies_valid :: "upstream_policies \<Rightarrow> bool" where
  "policies_valid p \<longleftrightarrow>
     (case up_rate p of Val r \<Rightarrow> number_positive (rl_rps r) \<and> number_positive (rl_burst r) | _ \<Rightarrow> True)
     \<and> (case up_size p of Val z \<Rightarrow> sz_max z > 0 | _ \<Rightarrow> True)"

lemma method_allowed_empty:
  "nullish (opt_val (mp_deny p)) [] = [] \<Longrightarrow> nullish (opt_val (mp_allow p)) [] = [] \<Longrightarrow> method_allowed p m"
  by (simp add: method_allowed_def)

lemma fnmatch_star: "fnmatch s ''*''"
  by (induction s) (simp_all add: fnmatch.simps(2))

lemma fnmatch_literal: "\<forall>c \<in> set p. c \<notin> {CHR ''*'', CHR ''?'', CHR ''[''} \<Longrightarrow> fnmatch s p \<longleftrightarrow> s = p"
proof (induction p arbitrary: s)
  case (Cons c p)
  then show ?case by (cases s) (auto simp: fnmatch.simps(2))
qed simp

end
