(* ===== verification/PoliciesPage.thy ===== *)
theory PoliciesPage
  imports PolicyEngine ApiClient View
begin

text \<open>
  \<open>frontend/src/pages/Policies.tsx\<close>: the editor of the policy document. A card's handlers are functions
  on its \<open>upstream_policies\<close>; the page stores what they return in the global slot or under the
  upstream's name. The drafts of the tag editors belong to the cards and disappear with them. The
  Enter key of a tag editor is the button \<open>BtnTagEnter\<close>.
\<close>

section \<open>The handlers of a card\<close>

datatype acl = Allow | Deny

definition methods_of :: "upstream_policies \<Rightarrow> method_policy" where
  "methods_of p = nullish (opt_val (up_methods p)) \<lparr>mp_allow = Undefined, mp_deny = Undefined\<rparr>"

fun tags :: "acl \<Rightarrow> upstream_policies \<Rightarrow> string list" where
  "tags Allow p = nullish (opt_val (mp_allow (methods_of p))) []"
| "tags Deny p = nullish (opt_val (mp_deny (methods_of p))) []"

definition list_or_null :: "string list \<Rightarrow> string list opt" where
  "list_or_null ts = (if length ts > 0 then Val ts else Null)"

fun set_tags :: "acl \<Rightarrow> string list \<Rightarrow> upstream_policies \<Rightarrow> upstream_policies" where
  "set_tags Allow ts p = p\<lparr>up_methods := Val ((methods_of p)\<lparr>mp_allow := list_or_null ts\<rparr>)\<rparr>"
| "set_tags Deny ts p = p\<lparr>up_methods := Val ((methods_of p)\<lparr>mp_deny := list_or_null ts\<rparr>)\<rparr>"

definition remove_tag :: "acl \<Rightarrow> nat \<Rightarrow> upstream_policies \<Rightarrow> upstream_policies" where
  "remove_tag k i p = set_tags k (take i (tags k p) @ drop (Suc i) (tags k p)) p"

definition add_tag :: "acl \<Rightarrow> string \<Rightarrow> upstream_policies \<Rightarrow> upstream_policies" where
  "add_tag k draft p = set_tags k (tags k p @ [js_trim draft]) p"

definition set_rate_text :: "string \<Rightarrow> upstream_policies \<Rightarrow> upstream_policies" where
  "set_rate_text t p = p\<lparr>up_rate := (case positive_number (parse_float t) of
      None \<Rightarrow> Null
    | Some v \<Rightarrow> Val \<lparr>rl_rps = v,
        rl_burst = (case up_rate p of Val r \<Rightarrow> rl_burst r | _ \<Rightarrow> js_ceil v),
        rl_scope = (case up_rate p of Val r \<Rightarrow> rl_scope r | _ \<Rightarrow> ScopeUpstream)\<rparr>)\<rparr>"

definition int_number :: "int \<Rightarrow> js_number" where
  "int_number i = Finite (mk_dec i 0)"

definition set_burst_text :: "string \<Rightarrow> upstream_policies \<Rightarrow> upstream_policies" where
  "set_burst_text t p = p\<lparr>up_rate := (case up_rate p of
      Val r \<Rightarrow> Val (r\<lparr>rl_burst := int_number (case parse_int t of Some i \<Rightarrow> if i = 0 then 1 else i | None \<Rightarrow> 1)\<rparr>)
    | _ \<Rightarrow> Null)\<rparr>"

fun scope_id :: "rate_scope \<Rightarrow> string" where
  "scope_id ScopeUpstream = ''upstream''"
| "scope_id ScopeClientIp = ''client_ip''"
| "scope_id ScopeBoth = ''both''"

definition scope_of_id :: "string \<Rightarrow> rate_scope" where
  "scope_of_id s = (if s = ''client_ip'' then ScopeClientIp else if s = ''both'' then ScopeBoth else ScopeUpstream)"

definition set_scope :: "rate_scope \<Rightarrow> upstream_policies \<Rightarrow> upstream_policies" where
  "set_scope sc p = p\<lparr>up_rate := (case up_rate p of Val r \<Rightarrow> Val (r\<lparr>rl_scope := sc\<rparr>) | _ \<Rightarrow> Null)\<rparr>"

definition set_size_text :: "string \<Rightarrow> upstream_policies \<Rightarrow> upstream_policies" where
  "set_size_text t p = p\<lparr>up_size := (case parse_int t of
      Some v \<Rightarrow> if v \<le> 0 then Null else Val \<lparr>sz_max = v\<rparr> | None \<Rightarrow> Null)\<rparr>"

definition toggle_redaction :: "upstream_policies \<Rightarrow> upstream_policies" where
  "toggle_redaction p = p\<lparr>up_redaction := (case up_redaction p of
      Val r \<Rightarrow> Null
    | _ \<Rightarrow> Val \<lparr>rp_pii = Some True, rp_pci = Some True, rp_request = Some True, rp_response = Some True,
                rp_replacement = None, rp_custom = None\<rparr>)\<rparr>"

datatype redact_flag = RfPii | RfPci | RfRequest | RfResponse

fun flag_of :: "redact_flag \<Rightarrow> redaction_policy \<Rightarrow> bool option" where
  "flag_of RfPii r = rp_pii r"
| "flag_of RfPci r = rp_pci r"
| "flag_of RfRequest r = rp_request r"
| "flag_of RfResponse r = rp_response r"

fun set_flag :: "redact_flag \<Rightarrow> bool \<Rightarrow> redaction_policy \<Rightarrow> redaction_policy" where
  "set_flag RfPii b r = r\<lparr>rp_pii := Some b\<rparr>"
| "set_flag RfPci b r = r\<lparr>rp_pci := Some b\<rparr>"
| "set_flag RfRequest b r = r\<lparr>rp_request := Some b\<rparr>"
| "set_flag RfResponse b r = r\<lparr>rp_response := Some b\<rparr>"

definition flag_shown :: "redact_flag \<Rightarrow> redaction_policy \<Rightarrow> bool" where
  "flag_shown f r \<longleftrightarrow> flag_of f r \<noteq> Some False"

definition toggle_flag :: "redact_flag \<Rightarrow> upstream_policies \<Rightarrow> upstream_policies" where
  "toggle_flag f p = (case up_redaction p of
      Val r \<Rightarrow> p\<lparr>up_redaction := Val (set_flag f (\<not> flag_shown f r) r)\<rparr> | _ \<Rightarrow> p)"

section \<open>The page\<close>

datatype card = GlobalCard | UpstreamCard string

datatype po_req = PoLoad | PoSave policies_config

record policies_page =
  po_config :: policies_config
  po_busy :: bool
  po_feedback :: "(bool \<times> string) option"
  po_new :: string
  po_drafts :: "((card \<times> acl) \<times> string) list"
  po_pending :: "po_req list"

text \<open>The mount effect loads the document.\<close>

definition policies_init :: policies_page where
  "policies_init = \<lparr>po_config = \<lparr>pc_global = Undefined, pc_per_upstream = []\<rparr>, po_busy = False,
     po_feedback = None, po_new = [], po_drafts = [], po_pending = [PoLoad]\<rparr>"

definition setPerUpstream :: "string \<Rightarrow> upstream_policies option \<Rightarrow> policies_config \<Rightarrow> policies_config" where
  "setPerUpstream name p c = c\<lparr>pc_per_upstream := (case p of
      None \<Rightarrow> obj_del name (pc_per_upstream c)
    | Some q \<Rightarrow> obj_assign name q (pc_per_upstream c))\<rparr>"

fun card_policy :: "card \<Rightarrow> policies_config \<Rightarrow> upstream_policies" where
  "card_policy GlobalCard c = nullish (opt_val (pc_global c)) no_policies"
| "card_policy (UpstreamCard name) c = nullish (obj_get (pc_per_upstream c) name) no_policies"

fun card_change :: "card \<Rightarrow> upstream_policies \<Rightarrow> policies_config \<Rightarrow> policies_config" where
  "card_change GlobalCard p c = c\<lparr>pc_global := Val p\<rparr>"
| "card_change (UpstreamCard name) p c = setPerUpstream name (Some p) c"

definition on_card :: "card \<Rightarrow> (upstream_policies \<Rightarrow> upstream_policies) \<Rightarrow> policies_page \<Rightarrow> policies_page" where
  "on_card cd h s = s\<lparr>po_config := card_change cd (h (card_policy cd (po_config s))) (po_config s)\<rparr>"

definition draft :: "card \<Rightarrow> acl \<Rightarrow> policies_page \<Rightarrow> string" where
  "draft cd k s = nullish (map_of (po_drafts s) (cd, k)) []"

definition remove_upstream :: "string \<Rightarrow> policies_page \<Rightarrow> policies_page" where
  "remove_upstream name s = s\<lparr>po_config := setPerUpstream name None (po_config s),
     po_drafts := filter (\<lambda>((cd, k), d). cd \<noteq> UpstreamCard name) (po_drafts s)\<rparr>"

definition add_upstream :: "policies_page \<Rightarrow> policies_page" where
  "add_upstream s = s\<lparr>po_config := setPerUpstream (js_trim (po_new s)) (Some no_policies) (po_config s), po_new := []\<rparr>"

definition tag_enter :: "card \<Rightarrow> acl \<Rightarrow> policies_page \<Rightarrow> policies_page" where
  "tag_enter cd k s = (on_card cd (add_tag k (draft cd k s)) s)
     \<lparr>po_drafts := AList.update (cd, k) [] (po_drafts s)\<rparr>"

definition load_reply :: "js_error + policies_config \<Rightarrow> policies_page \<Rightarrow> policies_page" where
  "load_reply r s = (case r of
      Inr data \<Rightarrow> s\<lparr>po_config := data, po_feedback := None\<rparr>
    | Inl e \<Rightarrow> s\<lparr>po_feedback := Some (False, error_message_or ''Load failed'' e)\<rparr>)"

definition save_policies :: "policies_page \<Rightarrow> policies_page" where
  "save_policies s = s\<lparr>po_busy := True, po_pending := po_pending s @ [PoSave (po_config s)]\<rparr>"

text \<open>The reply carries \<open>applied\<close> and \<open>error\<close>.\<close>

definition save_reply :: "js_error + (bool \<times> string option) \<Rightarrow> policies_page \<Rightarrow> policies_page" where
  "save_reply r s = (case r of
      Inr (applied, err) \<Rightarrow>
        if applied then s\<lparr>po_feedback := Some (True, ''Policies applied.''), po_busy := False,
          po_pending := po_pending s @ [PoLoad]\<rparr>
        else s\<lparr>po_feedback := Some (False, nullish err ''Apply failed''), po_busy := False\<rparr>
    | Inl e \<Rightarrow> s\<lparr>po_feedback := Some (False, error_message_or ''Apply failed'' e), po_busy := False\<rparr>)"

section \<open>What is shown\<close>

datatype po_btn = BtnSave | BtnAdd | BtnRemove string | BtnTagRemove card acl nat | BtnTagEnter card acl

datatype po_field = FNew | FDraft card acl | FRate card | FBurst card | FScope card | FSize card
  | FRedact card | FFlag card redact_flag

type_synonym po_view = "(po_btn, po_field) view"

definition show_number :: "js_number \<Rightarrow> string" where
  "show_number n = (case n of Finite d \<Rightarrow> show_dec d | Infinite neg \<Rightarrow> (if neg then ''-Infinity'' else ''Infinity'') | NaN \<Rightarrow> ''NaN'')"

definition tagListEditor :: "card \<Rightarrow> acl \<Rightarrow> string \<Rightarrow> string list \<Rightarrow> string \<Rightarrow> po_view" where
  "tagListEditor cd k label ts d = Box [Txt label,
     Box (map (\<lambda>(i, v). Box [Txt v, Button (BtnTagRemove cd k i) False [Txt ''x'']]) (enumerate 0 ts)),
     Input (FDraft cd k) False d,
     Button (BtnTagEnter cd k) (js_trim d = []) []]"

definition PolicyCard :: "card \<Rightarrow> string \<Rightarrow> upstream_policies \<Rightarrow> policies_page \<Rightarrow> po_view" where
  "PolicyCard cd name p s = (let rate = opt_val (up_rate p) in Box [
     Txt name, Badge ToneDefault [Txt ''policies''],
     (case cd of UpstreamCard n \<Rightarrow> Button (BtnRemove n) False [Txt ''Remove''] | GlobalCard \<Rightarrow> Box []),
     tagListEditor cd Allow ''Allow methods (whitelist)'' (tags Allow p) (draft cd Allow s),
     tagListEditor cd Deny ''Deny methods'' (tags Deny p) (draft cd Deny s),
     Txt ''Rate (req/s)'',
     Input (FRate cd) False (case rate of Some r \<Rightarrow> show_number (rl_rps r) | None \<Rightarrow> []),
     Txt ''Burst'',
     Input (FBurst cd) (rate = None) (case rate of Some r \<Rightarrow> show_number (rl_burst r) | None \<Rightarrow> []),
     Txt ''Scope'',
     Choice (FScope cd) (rate = None) (scope_id (case rate of Some r \<Rightarrow> rl_scope r | None \<Rightarrow> ScopeUpstream))
       [''upstream'', ''client_ip'', ''both''],
     Txt ''Max request bytes'',
     Input (FSize cd) False (case up_size p of Val z \<Rightarrow> show_int (sz_max z) | _ \<Rightarrow> []),
     Txt ''PII / PCI Redaction'',
     Check (FRedact cd) False (opt_val (up_redaction p) \<noteq> None), Txt ''Enable redaction'',
     (case up_redaction p of Val r \<Rightarrow> Box [
        Check (FFlag cd RfPii) False (flag_shown RfPii r), Txt ''PII'',
        Check (FFlag cd RfPci) False (flag_shown RfPci r), Txt ''PCI'',
        Check (FFlag cd RfRequest) False (flag_shown RfRequest r), Txt ''Requests'',
        Check (FFlag cd RfResponse) False (flag_shown RfResponse r), Txt ''Responses'']
      | _ \<Rightarrow> Box [])])"

definition policies_view :: "policies_page \<Rightarrow> po_view" where
  "policies_view s = (let c = po_config s in Box [
     Txt ''Policies'', Txt ''Method ACLs, rate limits, and size caps. Applied via hot reload.'',
     Button BtnSave (po_busy s) [Txt ''Save and apply''],
     (case po_feedback s of Some (ok, m) \<Rightarrow> Txt m | None \<Rightarrow> Box []),
     SectionCard ''Global'' (Box []) [PolicyCard GlobalCard ''(global)'' (card_policy GlobalCard c) s],
     SectionCard ''Per upstream''
       (Box [Input FNew False (po_new s), Button BtnAdd (js_trim (po_new s) = []) [Txt ''Add'']])
       [Box (map (\<lambda>(name, p). PolicyCard (UpstreamCard name) name p s) (own_entries (pc_per_upstream c))),
        cond (pc_per_upstream c = []) (Txt ''No per-upstream policies configured.'')]])"

section \<open>The machine\<close>

fun po_click :: "po_btn \<Rightarrow> policies_page \<Rightarrow> policies_page" where
  "po_click BtnSave s = save_policies s"
| "po_click BtnAdd s = add_upstream s"
| "po_click (BtnRemove name) s = remove_upstream name s"
| "po_click (BtnTagRemove cd k i) s = on_card cd (remove_tag k i) s"
| "po_click (BtnTagEnter cd k) s = tag_enter cd k s"

fun po_edit :: "po_field \<Rightarrow> string \<Rightarrow> policies_page \<Rightarrow> policies_page" where
  "po_edit FNew v s = s\<lparr>po_new := v\<rparr>"
| "po_edit (FDraft cd k) v s = s\<lparr>po_drafts := AList.update (cd, k) v (po_drafts s)\<rparr>"
| "po_edit (FRate cd) v s = on_card cd (set_rate_text v) s"
| "po_edit (FBurst cd) v s = on_card cd (set_burst_text v) s"
| "po_edit (FScope cd) v s = on_card cd (set_scope (scope_of_id v)) s"
| "po_edit (FSize cd) v s = on_card cd (set_size_text v) s"
| "po_edit _ v s = s"

fun po_toggle :: "po_field \<Rightarrow> policies_page \<Rightarrow> policies_page" where
  "po_toggle (FRedact cd) s = on_card cd toggle_redaction s"
| "po_toggle (FFlag cd f) s = on_card cd (toggle_flag f) s"
| "po_toggle _ s = s"

datatype po_event = PoAct "(po_btn, po_field) action" | PoLoaded "js_error + policies_config"
  | PoSaved policies_config "js_error + (bool \<times> string option)"

fun po_step :: "po_event \<Rightarrow> policies_page \<Rightarrow> policies_page" where
  "po_step (PoAct (Click b)) s = po_click b s"
| "po_step (PoAct (Edit f v)) s = po_edit f v s"
| "po_step (PoAct (Toggle f)) s = po_toggle f s"
| "po_step (PoLoaded r) s = load_reply r (s\<lparr>po_pending := remove1 PoLoad (po_pending s)\<rparr>)"
| "po_step (PoSaved c r) s = save_reply r (s\<lparr>po_pending := remove1 (PoSave c) (po_pending s)\<rparr>)"

fun po_enabled :: "policies_page \<Rightarrow> po_event \<Rightarrow> bool" where
  "po_enabled s (PoAct a) = offers (policies_view s) a"
| "po_enabled s (PoLoaded r) = (PoLoad \<in> set (po_pending s))"
| "po_enabled s (PoSaved c r) = (PoSave c \<in> set (po_pending s))"

section \<open>Lemmas\<close>

lemma dec_pos_mk: "dec_pos (mk_dec m e) \<longleftrightarrow> 0 < m"
proof (induction m e rule: mk_dec.induct)
  case (1 m e)
  then show ?case by (subst mk_dec.simps) (auto simp: dec_pos_def)
qed

lemma number_positive_int [simp]: "number_positive (int_number i) \<longleftrightarrow> 0 < i"
  by (simp add: number_positive_def int_number_def dec_pos_mk)

lemma positive_number_valid: "positive_number v = Some w \<Longrightarrow> (\<forall>b. v \<noteq> Infinite b) \<Longrightarrow>
    w = v \<and> number_positive v \<and> number_positive (js_ceil v)"
  by (auto simp: positive_number_def number_positive_def js_ceil_def dec_pos_mk
      split: js_number.splits if_splits dest: dec_ceil_pos)

lemma resolve_other: "u \<noteq> name \<Longrightarrow> resolve_for (setPerUpstream name p c) u = resolve_for c u"
  by (auto simp: resolve_for_def setPerUpstream_def obj_simps split: option.splits)

lemma resolve_own:
  "name \<noteq> ''__proto__'' \<Longrightarrow> resolve_for (setPerUpstream name (Some q) c) name =
     \<lparr>rs_methods = (case opt_val (up_methods q) of Some m \<Rightarrow> Some m | None \<Rightarrow> opt_val (up_methods (card_policy GlobalCard c))),
      rs_rate = (case opt_val (up_rate q) of Some r \<Rightarrow> Some r | None \<Rightarrow> opt_val (up_rate (card_policy GlobalCard c))),
      rs_size = (case opt_val (up_size q) of Some z \<Rightarrow> Some z | None \<Rightarrow> opt_val (up_size (card_policy GlobalCard c))),
      rs_redaction = (case opt_val (up_redaction q) of Some r \<Rightarrow> Some r
        | None \<Rightarrow> opt_val (up_redaction (card_policy GlobalCard c)))\<rparr>"
  by (simp add: resolve_for_def setPerUpstream_def obj_simps py_or_def nullish_def Let_def cong: option.case_cong)

lemma card_policy_change [simp]:
  "name \<noteq> ''__proto__'' \<Longrightarrow> card_policy (UpstreamCard name) (setPerUpstream name (Some p) c) = p"
  by (simp add: setPerUpstream_def obj_simps nullish_def)

lemma tags_set_tags: "tags k (set_tags k' ts p) = (if k = k' then ts else tags k p)"
  by (cases k; cases k') (auto simp: methods_of_def nullish_def list_or_null_def split: option.splits opt.splits)

lemma tags_remove_add: "tags k p = [] \<Longrightarrow> tags k' (remove_tag k 0 (add_tag k d p)) = tags k' p"
  by (simp add: remove_tag_def add_tag_def tags_set_tags)

lemma empty_tags_allow_all: "tags Allow p = [] \<Longrightarrow> tags Deny p = [] \<Longrightarrow> up_methods p = Val m \<Longrightarrow> method_allowed m x"
  by (simp add: method_allowed_def methods_of_def nullish_def)

lemma set_tags_Val: "\<exists>m. up_methods (set_tags k ts p) = Val m"
  by (cases k) simp_all

text \<open>The card whose part of the document an action changes, if any.\<close>

fun acts_on :: "policies_page \<Rightarrow> (po_btn, po_field) action \<Rightarrow> card option" where
  "acts_on s (Click BtnSave) = None"
| "acts_on s (Click BtnAdd) = Some (UpstreamCard (js_trim (po_new s)))"
| "acts_on s (Click (BtnRemove name)) = Some (UpstreamCard name)"
| "acts_on s (Click (BtnTagRemove cd k i)) = Some cd"
| "acts_on s (Click (BtnTagEnter cd k)) = Some cd"
| "acts_on s (Edit (FRate cd) v) = Some cd"
| "acts_on s (Edit (FBurst cd) v) = Some cd"
| "acts_on s (Edit (FScope cd) v) = Some cd"
| "acts_on s (Edit (FSize cd) v) = Some cd"
| "acts_on s (Edit f v) = None"
| "acts_on s (Toggle (FRedact cd)) = Some cd"
| "acts_on s (Toggle (FFlag cd f)) = Some cd"
| "acts_on s (Toggle f) = None"

definition perform :: "(po_btn, po_field) action list \<Rightarrow> policies_page \<Rightarrow> policies_page" where
  "perform = fold (\<lambda>a. po_step (PoAct a))"

fun spares :: "card set \<Rightarrow> (po_btn, po_field) action list \<Rightarrow> policies_page \<Rightarrow> bool" where
  "spares D [] s \<longleftrightarrow> True"
| "spares D (a # as) s \<longleftrightarrow> (case acts_on s a of Some cd \<Rightarrow> cd \<notin> D | None \<Rightarrow> True) \<and> spares D as (po_step (PoAct a) s)"

lemma section_other: "u \<noteq> name \<Longrightarrow> obj_get (pc_per_upstream (setPerUpstream name p c)) u = obj_get (pc_per_upstream c) u"
  by (auto simp: setPerUpstream_def obj_simps split: option.splits)

lemma global_setPerUpstream [simp]: "pc_global (setPerUpstream name p c) = pc_global c"
  by (simp add: setPerUpstream_def)

lemma section_on_card:
  "cd \<noteq> UpstreamCard u \<Longrightarrow> obj_get (pc_per_upstream (po_config (on_card cd h s))) u = obj_get (pc_per_upstream (po_config s)) u"
  "cd \<noteq> GlobalCard \<Longrightarrow> pc_global (po_config (on_card cd h s)) = pc_global (po_config s)"
  by (cases cd; simp add: on_card_def section_other)+

lemma section_step:
  assumes "case acts_on s a of Some cd \<Rightarrow> cd \<noteq> UpstreamCard u | None \<Rightarrow> True"
  shows "obj_get (pc_per_upstream (po_config (po_step (PoAct a) s))) u = obj_get (pc_per_upstream (po_config s)) u"
  using assms by (cases "(s, a)" rule: acts_on.cases)
    (auto simp: section_on_card section_other save_policies_def add_upstream_def remove_upstream_def tag_enter_def)

lemma global_step:
  assumes "case acts_on s a of Some cd \<Rightarrow> cd \<noteq> GlobalCard | None \<Rightarrow> True"
  shows "pc_global (po_config (po_step (PoAct a) s)) = pc_global (po_config s)"
  using assms by (cases "(s, a)" rule: acts_on.cases)
    (auto simp: section_on_card save_policies_def add_upstream_def remove_upstream_def tag_enter_def)

lemma section_perform:
  "spares D as s \<Longrightarrow> UpstreamCard u \<in> D \<Longrightarrow>
     obj_get (pc_per_upstream (po_config (perform as s))) u = obj_get (pc_per_upstream (po_config s)) u"
proof (induction as arbitrary: s)
  case (Cons a as)
  then have "obj_get (pc_per_upstream (po_config (po_step (PoAct a) s))) u = obj_get (pc_per_upstream (po_config s)) u"
    by (intro section_step) (auto split: option.splits)
  then show ?case using Cons by (simp add: perform_def)
qed (simp add: perform_def)

lemma global_perform:
  "spares D as s \<Longrightarrow> GlobalCard \<in> D \<Longrightarrow> pc_global (po_config (perform as s)) = pc_global (po_config s)"
proof (induction as arbitrary: s)
  case (Cons a as)
  then have "pc_global (po_config (po_step (PoAct a) s)) = pc_global (po_config s)"
    by (intro global_step) (auto split: option.splits)
  then show ?case using Cons by (simp add: perform_def)
qed (simp add: perform_def)

section \<open>Properties\<close>

text \<open>C25: What is done on other cards stays there: after any sequence of clicks, edits and toggles on the page of
  which none acts on the card of an upstream (adding a name acts on its card), that card shows the policies it
  showed, and each of the four policies it has is still the one in force for the upstream, whatever was done to
  the global card. If none acts on the global card either, everything in force for the upstream is as it was, and
  Save posts a document in which the engine gives the same verdicts on methods and sizes.\<close>

theorem per_upstream_frame:
  assumes "spares {UpstreamCard u} as s"
  shows "card_policy (UpstreamCard u) (po_config (perform as s)) = card_policy (UpstreamCard u) (po_config s)
    \<and> opt_val (up_methods (card_policy (UpstreamCard u) (po_config s))) \<in> {None, rs_methods (resolve_for (po_config (perform as s)) u)}
    \<and> opt_val (up_rate (card_policy (UpstreamCard u) (po_config s))) \<in> {None, rs_rate (resolve_for (po_config (perform as s)) u)}
    \<and> opt_val (up_size (card_policy (UpstreamCard u) (po_config s))) \<in> {None, rs_size (resolve_for (po_config (perform as s)) u)}
    \<and> opt_val (up_redaction (card_policy (UpstreamCard u) (po_config s)))
        \<in> {None, rs_redaction (resolve_for (po_config (perform as s)) u)}
    \<and> (spares {GlobalCard, UpstreamCard u} as s \<longrightarrow>
        resolve_for (po_config (perform as s)) u = resolve_for (po_config s) u
        \<and> (\<exists>c. po_pending (perform (as @ [Click BtnSave]) s) = po_pending (perform as s) @ [PoSave c]
              \<and> acl_denies c u m = acl_denies (po_config s) u m \<and> size_denies c u n = size_denies (po_config s) u n))"
proof -
  let ?c = "po_config s" and ?d = "po_config (perform as s)"
  have sec: "obj_get (pc_per_upstream ?d) u = obj_get (pc_per_upstream ?c) u" by (rule section_perform [OF assms]) simp
  have own: "opt_val x \<in> {None, py_or x y}" for x y :: "'a opt" by (simp add: py_or_def split: option.splits)
  have same: "resolve_for ?d u = resolve_for ?c u" if "spares {GlobalCard, UpstreamCard u} as s"
    using global_perform [OF that] sec by (simp add: resolve_for_def)
  have save: "po_pending (perform (as @ [Click BtnSave]) s) = po_pending (perform as s) @ [PoSave ?d]"
    by (simp add: perform_def save_policies_def)
  have "card_policy (UpstreamCard u) ?d = card_policy (UpstreamCard u) ?c" using sec by simp
  then have "card_policy (UpstreamCard u) ?c = card_policy (UpstreamCard u) ?d" by (rule sym)
  moreover have "rs_methods (resolve_for ?d u) = py_or (up_methods (card_policy (UpstreamCard u) ?d)) (up_methods (card_policy GlobalCard ?d))"
    "rs_rate (resolve_for ?d u) = py_or (up_rate (card_policy (UpstreamCard u) ?d)) (up_rate (card_policy GlobalCard ?d))"
    "rs_size (resolve_for ?d u) = py_or (up_size (card_policy (UpstreamCard u) ?d)) (up_size (card_policy GlobalCard ?d))"
    "rs_redaction (resolve_for ?d u) = py_or (up_redaction (card_policy (UpstreamCard u) ?d)) (up_redaction (card_policy GlobalCard ?d))"
    by (simp_all add: resolve_for_def Let_def)
  moreover have "\<exists>c. po_pending (perform (as @ [Click BtnSave]) s) = po_pending (perform as s) @ [PoSave c]
      \<and> acl_denies c u m = acl_denies ?c u m \<and> size_denies c u n = size_denies ?c u n"
    if "spares {GlobalCard, UpstreamCard u} as s"
    using save same [OF that] by (intro exI [of _ ?d]) (simp add: acl_denies_def size_denies_def)
  ultimately show ?thesis using same by (intro conjI impI) (simp_all only: own)
qed

definition sample_policies :: policies_config where
  "sample_policies = \<lparr>pc_global = Val (no_policies\<lparr>up_methods := Val \<lparr>mp_allow = Null, mp_deny = Val [''tools/*'']\<rparr>\<rparr>),
     pc_per_upstream = [(''github'', no_policies)]\<rparr>"

theorem per_upstream_frame_witness:
  "resolve_for (po_config (perform [Click (BtnRemove ''github''), Edit (FSize (UpstreamCard ''jira'')) ''512'']
     (policies_init\<lparr>po_config := sample_policies\<rparr>))) ''slack'' = resolve_for sample_policies ''slack''"
proof -
  let ?as = "[Click (BtnRemove ''github''), Edit (FSize (UpstreamCard ''jira'')) ''512'']"
  have "spares {UpstreamCard ''slack''} ?as s" "spares {GlobalCard, UpstreamCard ''slack''} ?as s" for s by simp_all
  from per_upstream_frame [OF this(1), of "policies_init\<lparr>po_config := sample_policies\<rparr>"] this(2)
  show ?thesis by simp
qed

text \<open>Adding a name that is listed already replaces its policies with an empty section.\<close>

theorem added_again_resets:
  assumes "js_trim (po_new s) = u" and "u \<noteq> []" and "u \<noteq> ''__proto__''"
  shows "po_enabled s (PoAct (Click BtnAdd))
    \<and> card_policy (UpstreamCard u) (po_config (po_step (PoAct (Click BtnAdd)) s)) = no_policies"
  using assms by (auto simp: policies_view_def Let_def add_upstream_def setPerUpstream_def obj_simps nullish_def)

text \<open>A method that the global ACL denies is let through to an upstream whose own ACL allows it.\<close>

theorem global_acl_not_applied:
  assumes "obj_get (pc_per_upstream c) u = Some p" and "up_methods p = Val own" and "method_allowed own m"
    and "up_methods (card_policy GlobalCard c) = Val g" and "\<not> method_allowed g m"
  shows "\<not> acl_denies c u m"
  using assms by (simp add: acl_denies_def resolve_for_def py_or_def nullish_def Let_def)

text \<open>C24: Adding a method to an upstream's deny list and taking it off again does not restore the state
  before: the card shows the same empty lists, but what is left is an empty method policy, which the
  engine prefers to the global one. An upstream without a method policy of its own, so under the
  global ACL, is then under none, and every method is let through.\<close>

theorem undone_tag_lifts_global_acl:
  assumes "obj_get (pc_per_upstream c) name = Some p" and "opt_val (up_methods p) = None"
    and "name \<noteq> ''__proto__''"
  shows "acl_denies c name m = (case opt_val (up_methods (card_policy GlobalCard c)) of
        Some g \<Rightarrow> \<not> method_allowed g m | None \<Rightarrow> False)
    \<and> (\<forall>k'. tags k' (remove_tag k 0 (add_tag k d p)) = tags k' p)
    \<and> \<not> acl_denies (card_change (UpstreamCard name) (remove_tag k 0 (add_tag k d p)) c) name m"
proof -
  have e: "tags k' p = []" for k' using assms(2) by (cases k') (simp_all add: methods_of_def nullish_def)
  let ?q = "remove_tag k 0 (add_tag k d p)"
  have t: "tags k' ?q = []" for k' using tags_remove_add [OF e, of k'] e by simp
  obtain mp where mp: "up_methods ?q = Val mp" using set_tags_Val by (metis remove_tag_def)
  have "rs_methods (resolve_for (setPerUpstream name (Some ?q) c) name) = Some mp"
    using assms(3) mp by (simp add: resolve_for_def setPerUpstream_def obj_simps py_or_def nullish_def Let_def)
  then have "\<not> acl_denies (setPerUpstream name (Some ?q) c) name m"
    using empty_tags_allow_all [OF t t mp] by (simp add: acl_denies_def)
  then show ?thesis
    using assms e t by (simp add: acl_denies_def resolve_for_def py_or_def nullish_def Let_def)
qed

theorem undone_tag_lifts_global_acl_witness:
  "acl_denies sample_policies ''github'' (Some ''tools/call'')
   \<and> \<not> acl_denies (card_change (UpstreamCard ''github'') (remove_tag Deny 0 (add_tag Deny ''x'' no_policies)) sample_policies)
        ''github'' (Some ''tools/call'')"
proof -
  have "obj_get (pc_per_upstream sample_policies) ''github'' = Some no_policies" "opt_val (up_methods no_policies) = None"
    by (simp_all add: sample_policies_def no_policies_def)
  moreover have "acl_denies sample_policies ''github'' (Some ''tools/call'')" by code_simp
  ultimately show ?thesis using undone_tag_lifts_global_acl [of sample_policies "''github''" no_policies] by simp
qed

text \<open>The rate, scope and size controls only produce policies the server accepts: from an accepted policy,
  every input gives an accepted one or none (an unparsable or non-positive entry removes the policy).
  The burst control is the exception: it accepts exactly the entries that are not negative numbers.\<close>

theorem policy_controls_valid:
  assumes "policies_valid p" and "\<forall>b. parse_float t \<noteq> Infinite b"
  shows "policies_valid (set_rate_text t p) \<and> policies_valid (set_size_text t p) \<and> policies_valid (set_scope sc p)
    \<and> (policies_valid (set_burst_text t p) \<longleftrightarrow>
        opt_val (up_rate p) = None \<or> \<not> (\<exists>i. parse_int t = Some i \<and> i < 0))"
proof -
  have "policies_valid (set_rate_text t p)"
  proof (cases "positive_number (parse_float t)")
    case None
    then show ?thesis using assms(1) by (simp add: policies_valid_def set_rate_text_def)
  next
    case (Some v)
    then have "v = parse_float t" "number_positive v" "number_positive (js_ceil v)"
      using positive_number_valid assms(2) by auto
    then show ?thesis using assms(1) Some by (auto simp: policies_valid_def set_rate_text_def split: opt.splits)
  qed
  moreover have "policies_valid (set_size_text t p)"
    using assms(1) by (auto simp: policies_valid_def set_size_text_def split: option.splits)
  moreover have "policies_valid (set_scope sc p)"
    using assms(1) by (auto simp: policies_valid_def set_scope_def split: opt.splits)
  moreover have "policies_valid (set_burst_text t p) \<longleftrightarrow>
        opt_val (up_rate p) = None \<or> \<not> (\<exists>i. parse_int t = Some i \<and> i < 0)"
    using assms(1) by (cases "up_rate p"; cases "parse_int t")
      (auto simp: policies_valid_def set_burst_text_def)
  ultimately show ?thesis by blast
qed

theorem policy_controls_valid_witness:
  "policies_valid (set_rate_text ''2.5'' no_policies)
   \<and> \<not> policies_valid (set_burst_text ''-5'' (set_rate_text ''2.5'' no_policies))"
proof -
  have v: "policies_valid no_policies" by (simp add: policies_valid_def no_policies_def)
  have "\<forall>b. parse_float ''2.5'' \<noteq> Infinite b" "\<forall>b. parse_float ''-5'' \<noteq> Infinite b"
  proof -
    have "parse_float ''2.5'' = Finite (Dec 25 (-1)) \<and> parse_float ''-5'' = Finite (Dec (-5) 0)" by code_simp
    then show "\<forall>b. parse_float ''2.5'' \<noteq> Infinite b" "\<forall>b. parse_float ''-5'' \<noteq> Infinite b" by simp_all
  qed
  moreover have "opt_val (up_rate (set_rate_text ''2.5'' no_policies)) \<noteq> None" by code_simp
  moreover have "parse_int ''-5'' = Some (-5)" by code_simp
  ultimately show ?thesis
    using policy_controls_valid [OF v, of "''2.5''"] policy_controls_valid [of "set_rate_text ''2.5'' no_policies" "''-5''"]
    by simp
qed

text \<open>A successful save discards what is edited while it is in flight: its reply starts a reload, and when
  that is answered the page shows the server's document, whatever was changed in between, and the
  message that announced the success is gone.\<close>

theorem save_then_reload:
  assumes "PoSave c \<in> set (po_pending s)"
  shows "\<exists>t. run po_enabled po_step s [PoSaved c (Inr (True, err)), PoLoaded (Inr data)] = Some t
    \<and> po_config t = data \<and> po_feedback t = None \<and> \<not> po_busy t
    \<and> po_feedback (po_step (PoSaved c (Inr (True, err))) s) = Some (True, ''Policies applied.'')"
  using assms by (simp add: save_reply_def load_reply_def)

theorem save_then_reload_witness:
  "\<exists>t u. run po_enabled po_step policies_init [PoLoaded (Inr sample_policies), PoAct (Click BtnSave),
      PoAct (Click (BtnTagRemove GlobalCard Deny 0))] = Some t \<and> po_config t \<noteq> sample_policies
    \<and> run po_enabled po_step t [PoSaved sample_policies (Inr (True, None)), PoLoaded (Inr sample_policies)] = Some u
    \<and> po_config u = sample_policies"
proof -
  let ?r = "run po_enabled po_step policies_init [PoLoaded (Inr sample_policies), PoAct (Click BtnSave),
      PoAct (Click (BtnTagRemove GlobalCard Deny 0))]"
  have "?r \<noteq> None" by code_simp
  then obtain t where t: "?r = Some t" by blast
  have "PoSave sample_policies \<in> set (po_pending (the ?r))" by code_simp
  moreover have "tags Deny (card_policy GlobalCard (po_config (the ?r))) = []" by code_simp
  moreover have "tags Deny (card_policy GlobalCard sample_policies) = [''tools/*'']" by code_simp
  ultimately show ?thesis
    using t save_then_reload [of sample_policies t None sample_policies] by fastforce
qed

end
