(* ===== verification/Numbers.thy ===== *)
theory Numbers
  imports ApiTypes
begin

text \<open>
  How numbers and dates are turned into text. \<open>toFixed\<close> and \<open>Math.round\<close> are computed on exact reals;
  \<open>toFixed\<close> is written for arguments below $10^{21}$. What depends on the browser's locale, and the
  shortest decimal of a double, is a parameter of the views (\<open>formats\<close>).
\<close>

record formats =
  fm_time :: "real \<Rightarrow> string"
  fm_date :: "real \<Rightarrow> string"
  fm_num :: "real \<Rightarrow> string"
  fm_int :: "int \<Rightarrow> string"

text \<open>Formats for witnesses that do not look at the texts.\<close>

definition plain_formats :: formats where
  "plain_formats = \<lparr>fm_time = (\<lambda>x. []), fm_date = (\<lambda>x. []), fm_num = (\<lambda>x. []), fm_int = (\<lambda>i. [])\<rparr>"

definition math_round :: "real \<Rightarrow> int" where
  "math_round x = \<lfloor>x + 1 / 2\<rfloor>"

definition fixed_digits :: "nat \<Rightarrow> nat \<Rightarrow> string" where
  "fixed_digits d n =
     (let s = show_nat n; t = replicate (Suc d - length s) (CHR ''0'') @ s
      in if d = 0 then t else take (length t - d) t @ ''.'' @ drop (length t - d) t)"

definition to_fixed :: "nat \<Rightarrow> real \<Rightarrow> string" where
  "to_fixed d x = (if x < 0 then ''-'' else []) @ fixed_digits d (nat \<lfloor>\<bar>x\<bar> * 10 ^ d + 1 / 2\<rfloor>)"

lemma math_round_near: "\<bar>x - of_int (math_round x)\<bar> \<le> 1 / 2"
  unfolding math_round_def by linarith

lemma math_round_mono: "x \<le> y \<Longrightarrow> math_round x \<le> math_round y"
  unfolding math_round_def by (intro floor_mono) simp

lemma to_fixed_near:
  assumes "0 \<le> x"
  shows "\<exists>n. to_fixed d x = fixed_digits d n \<and> \<bar>x * 10 ^ d - real n\<bar> \<le> 1 / 2"
proof -
  let ?y = "x * 10 ^ d"
  have y: "0 \<le> ?y" using assms by simp
  have "\<bar>?y - real (nat \<lfloor>?y + 1 / 2\<rfloor>)\<bar> \<le> 1 / 2"
    using y by linarith
  moreover have "to_fixed d x = fixed_digits d (nat \<lfloor>?y + 1 / 2\<rfloor>)"
    using assms by (simp add: to_fixed_def)
  ultimately show ?thesis by blast
qed

end
