(* ===== verification/Url.thy ===== *)
theory Url
  imports Json
begin

text \<open>
  Query strings and path segments: \<open>URLSearchParams\<close> and \<open>encodeURIComponent\<close> as the pages use them, and
  the decoding of the URL standard, which is what the server's framework applies. Both work on the
  UTF-8 encoding of the text; the code units represented here take one or two bytes.
\<close>

section \<open>Percent encoding\<close>

definition utf8 :: "char \<Rightarrow> string" where
  "utf8 c = (let n = (of_char c :: nat) in
     if n < 128 then [c] else [char_of (192 + n div 64), char_of (128 + n mod 64)])"

definition hex_upper :: "nat \<Rightarrow> char" where
  "hex_upper d = (if d < 10 then char_of (48 + d) else char_of (55 + d))"

definition percent_byte :: "char \<Rightarrow> string" where
  "percent_byte b = (let n = (of_char b :: nat) in [CHR ''%'', hex_upper (n div 16), hex_upper (n mod 16)])"

definition percent_encode :: "char \<Rightarrow> string" where
  "percent_encode c = concat (map percent_byte (utf8 c))"

definition alnum :: "char \<Rightarrow> bool" where
  "alnum c \<longleftrightarrow> (let n = (of_char c :: nat) in (48 \<le> n \<and> n \<le> 57) \<or> (65 \<le> n \<and> n \<le> 90) \<or> (97 \<le> n \<and> n \<le> 122))"

definition component_char :: "char \<Rightarrow> string" where
  "component_char c = (if alnum c \<or> c \<in> set ''-_.!~*()'' \<or> c = CHR 39 then [c] else percent_encode c)"

definition encodeURIComponent :: "string \<Rightarrow> string" where
  "encodeURIComponent s = concat (map component_char s)"

definition form_char :: "char \<Rightarrow> string" where
  "form_char c = (if alnum c \<or> c \<in> set ''*-._'' then [c] else if c = CHR '' '' then ''+'' else percent_encode c)"

definition form_encode :: "string \<Rightarrow> string" where
  "form_encode s = concat (map form_char s)"

text \<open>\<open>params.toString()\<close> for the name-value pairs set so far.\<close>

definition query_string :: "(string \<times> string) list \<Rightarrow> string" where
  "query_string kvs = join ''&'' (map (\<lambda>(k, v). form_encode k @ ''='' @ form_encode v) kvs)"

section \<open>Decoding\<close>

fun percent_decode :: "string \<Rightarrow> string" where
  "percent_decode [] = []"
| "percent_decode (c # r) =
     (if c = CHR ''%'' then
        (case r of
           h # l # t \<Rightarrow> (case (hex_val h, hex_val l) of
               (Some a, Some b) \<Rightarrow> char_of (16 * a + b) # percent_decode t
             | _ \<Rightarrow> c # percent_decode r)
         | _ \<Rightarrow> c # percent_decode r)
      else c # percent_decode r)"

text \<open>UTF-8 to code units; a byte that starts no sequence of the represented range becomes \<open>?\<close>.\<close>

fun utf8_decode :: "string \<Rightarrow> string" where
  "utf8_decode [] = []"
| "utf8_decode (b # r) =
     (let n = (of_char b :: nat) in
      if n < 128 then b # utf8_decode r
      else case r of
        d # t \<Rightarrow> (let m = (of_char d :: nat) in
          if 194 \<le> n \<and> n < 196 \<and> 128 \<le> m \<and> m < 192 then char_of (64 * (n - 192) + (m - 128)) # utf8_decode t
          else CHR ''?'' # utf8_decode r)
      | [] \<Rightarrow> [CHR ''?''])"

definition form_decode :: "string \<Rightarrow> string" where
  "form_decode s = utf8_decode (percent_decode (map (\<lambda>c. if c = CHR ''+'' then CHR '' '' else c) s))"

definition split_pair :: "string \<Rightarrow> string \<times> string" where
  "split_pair s = (takeWhile (\<lambda>c. c \<noteq> CHR ''='') s, drop 1 (dropWhile (\<lambda>c. c \<noteq> CHR ''='') s))"

definition decode_query :: "string \<Rightarrow> (string \<times> string) list" where
  "decode_query s = map (\<lambda>p. map_prod form_decode form_decode (split_pair p)) (filter (\<lambda>p. p \<noteq> []) (split_char (CHR ''&'') s))"

section \<open>Round trips\<close>

lemma hex_val_upper: "d < 16 \<Longrightarrow> hex_val (hex_upper d) = Some d"
  by (cases "d < 10") (simp_all add: hex_upper_def hex_val_def)

lemma byte_less: "(of_char c :: nat) < 256"
  using of_char_mod_256 [of c, where 'a = nat] by (metis mod_less_divisor zero_less_numeral)

lemma nibble_less: "(of_char c :: nat) div 16 < 16"
  using byte_less [of c] by (simp add: less_mult_imp_div_less)

lemma decode_percent_byte [simp]: "percent_decode (percent_byte b @ r) = b # percent_decode r"
proof -
  let ?n = "of_char b :: nat"
  have "hex_val (hex_upper (?n div 16)) = Some (?n div 16)" "hex_val (hex_upper (?n mod 16)) = Some (?n mod 16)"
    using nibble_less [of b] by (simp_all add: hex_val_upper)
  then show ?thesis by (simp add: percent_byte_def Let_def)
qed

lemma decode_percent_encode [simp]: "percent_decode (percent_encode c @ r) = utf8 c @ percent_decode r"
  by (simp add: percent_encode_def utf8_def Let_def)

lemma alnum_plain: "alnum c \<Longrightarrow> utf8 c = [c] \<and> c \<noteq> CHR ''%'' \<and> c \<noteq> CHR ''+'' \<and> c \<noteq> CHR ''&'' \<and> c \<noteq> CHR ''=''"
  by (auto simp: alnum_def utf8_def Let_def)

lemma decode_component_char [simp]: "percent_decode (component_char c @ r) = utf8 c @ percent_decode r"
  using alnum_plain [of c] by (auto simp: component_char_def) (simp_all add: utf8_def)

lemma decode_utf8 [simp]: "utf8_decode (utf8 c @ r) = c # utf8_decode r"
proof (cases "(of_char c :: nat) < 128")
  case False
  let ?n = "of_char c :: nat"
  have n: "?n < 256" "128 \<le> ?n" using byte_less False by auto
  from n(1) have "?n div 64 < 4" by (simp add: less_mult_imp_div_less)
  moreover from n(2) have "2 \<le> ?n div 64" using div_le_mono [OF n(2), of 64] by simp
  ultimately have d: "192 + ?n div 64 < 256" "194 \<le> 192 + ?n div 64" "192 + ?n div 64 < 196" by auto
  have m: "128 + ?n mod 64 < 256" "128 + ?n mod 64 < 192" by (simp_all add: less_trans [OF mod_less_divisor])
  have "char_of (64 * (?n div 64) + ?n mod 64) = c" by simp
  then show ?thesis using False d m by (simp add: utf8_def Let_def)
qed (simp add: utf8_def Let_def)

lemma decode_utf8s: "utf8_decode (concat (map utf8 s)) = s"
  by (induction s) simp_all

lemma component_round_trip: "utf8_decode (percent_decode (encodeURIComponent s)) = s"
proof -
  have "percent_decode (encodeURIComponent s) = concat (map utf8 s)"
    by (induction s) (simp_all add: encodeURIComponent_def)
  then show ?thesis by (simp add: decode_utf8s)
qed

text \<open>No reserved character survives in an encoded component.\<close>

lemma hex_upper_plain: "d < 16 \<Longrightarrow> alnum (hex_upper d)"
  by (cases "d < 10") (simp_all add: hex_upper_def alnum_def)

lemma percent_chars: "x \<in> set (percent_encode c) \<Longrightarrow> alnum x \<or> x = CHR ''%''"
proof -
  have "x \<in> set (percent_byte b) \<Longrightarrow> alnum x \<or> x = CHR ''%''" for b
    using nibble_less [of b] by (auto simp: percent_byte_def Let_def intro: hex_upper_plain)
  then show "x \<in> set (percent_encode c) \<Longrightarrow> alnum x \<or> x = CHR ''%''"
    by (auto simp: percent_encode_def)
qed

lemma component_chars:
  "x \<in> set (encodeURIComponent s) \<Longrightarrow> alnum x \<or> x = CHR ''%'' \<or> x \<in> set ''-_.!~*()'' \<or> x = CHR 39"
  by (fastforce simp: encodeURIComponent_def component_char_def dest: percent_chars split: if_splits)

lemma form_chars: "x \<in> set (form_encode s) \<Longrightarrow> alnum x \<or> x = CHR ''%'' \<or> x \<in> set ''*-._+''"
  by (fastforce simp: form_encode_def form_char_def dest: percent_chars split: if_splits)

lemma form_no_separators: "CHR ''&'' \<notin> set (form_encode s) \<and> CHR ''='' \<notin> set (form_encode s)"
  by (auto dest!: form_chars simp: alnum_def)

lemma component_no_plus: "CHR ''+'' \<notin> set (encodeURIComponent s) \<and> CHR ''&'' \<notin> set (encodeURIComponent s)"
  by (auto dest!: component_chars simp: alnum_def)

lemma form_decode_component [simp]: "form_decode (encodeURIComponent s) = s"
proof -
  have "map (\<lambda>c. if c = CHR ''+'' then CHR '' '' else c) (encodeURIComponent s) = encodeURIComponent s"
    using component_no_plus [of s] by (intro map_idI) auto
  then show ?thesis by (simp add: form_decode_def component_round_trip)
qed

abbreviation plus_to_space :: "string \<Rightarrow> string" where
  "plus_to_space \<equiv> map (\<lambda>c. if c = CHR ''+'' then CHR '' '' else c)"

lemma plus_percent: "plus_to_space (percent_encode c) = percent_encode c"
proof -
  have "CHR ''+'' \<notin> set (percent_encode c)" by (auto dest!: percent_chars simp: alnum_def)
  then show ?thesis by (intro map_idI) auto
qed

lemma decode_form_char: "percent_decode (plus_to_space (form_char c) @ r) = utf8 c @ percent_decode r"
  using alnum_plain [of c] by (auto simp: form_char_def plus_percent) (simp_all add: utf8_def)

lemma form_round_trip [simp]: "form_decode (form_encode s) = s"
proof -
  have "percent_decode (plus_to_space (form_encode s)) = concat (map utf8 s)"
    by (induction s) (simp_all add: form_encode_def decode_form_char)
  then show ?thesis by (simp add: form_decode_def decode_utf8s)
qed

lemma split_pair_encoded [simp]: "split_pair (form_encode k @ CHR ''='' # form_encode v) = (form_encode k, form_encode v)"
proof -
  have "\<forall>c \<in> set (form_encode k). c \<noteq> CHR ''=''" using form_no_separators by metis
  then show ?thesis by (simp add: split_pair_def takeWhile_append dropWhile_append)
qed

lemma split_join:
  assumes "\<forall>w \<in> set ws. c \<notin> set w" and "ws \<noteq> []"
  shows "split_char c (join [c] ws) = ws"
  using assms
proof (induction ws rule: induct_list012)
  case (3 w v ws)
  then show ?case by (simp add: split_char_append_sep)
qed (simp_all add: split_char_single)

text \<open>The server reads back exactly the parameters that were set, whatever characters they contain.\<close>

lemma query_round_trip: "decode_query (query_string kvs) = kvs"
proof (cases "kvs = []")
  case False
  let ?p = "\<lambda>(k, v). form_encode k @ ''='' @ form_encode v"
  have "\<forall>w \<in> set (map ?p kvs). CHR ''&'' \<notin> set w" using form_no_separators by auto
  then have "split_char (CHR ''&'') (query_string kvs) = map ?p kvs"
    using False unfolding query_string_def by (intro split_join) auto
  then show ?thesis by (simp add: decode_query_def filter_map comp_def case_prod_unfold)
qed (simp add: query_string_def decode_query_def)

text \<open>A single parameter written by hand with \<open>encodeURIComponent\<close>.\<close>

lemma component_query:
  assumes "list_all alnum k" and "k \<noteq> []"
  shows "decode_query (k @ CHR ''='' # encodeURIComponent v) = [(form_decode k, v)]"
proof -
  have k: "CHR ''&'' \<notin> set k" "\<forall>c \<in> set k. c \<noteq> CHR ''=''" using assms(1) by (auto simp: list_all_iff alnum_def)
  have "CHR ''&'' \<notin> set (k @ CHR ''='' # encodeURIComponent v)" using k(1) component_no_plus [of v] by simp
  then have "split_char (CHR ''&'') (k @ CHR ''='' # encodeURIComponent v) = [k @ CHR ''='' # encodeURIComponent v]"
    by (rule split_char_single)
  moreover have "split_pair (k @ CHR ''='' # encodeURIComponent v) = (k, encodeURIComponent v)"
    using k(2) by (simp add: split_pair_def takeWhile_append2 dropWhile_append2)
  ultimately show ?thesis by (simp add: decode_query_def)
qed

end
