(* ===== verification/LogsPage.thy ===== *)
theory LogsPage
  imports ApiClient View Numbers Url
begin

text \<open>
  \<open>frontend/src/pages/Logs.tsx\<close>. The page refreshes on the button, which is disabled while a refresh is in
  flight, and whenever one of the two filters loses the focus, which is not; so several requests can be
  in flight, each with the filters of its moment, and each reply replaces the table.
\<close>

section \<open>State\<close>

definition LEVELS :: "string list" where
  "LEVELS = ['''', ''DEBUG'', ''INFO'', ''WARNING'', ''ERROR'']"

definition levelColor :: "string \<Rightarrow> string" where
  "levelColor level =
     (if level = ''ERROR'' then ''text-err'' else if level = ''WARNING'' then ''text-warn''
      else if level = ''DEBUG'' then ''text-slate-500'' else ''text-slate-200'')"

record logs_page =
  lp_items :: "log_entry list"
  lp_level :: string
  lp_upstream :: string
  lp_error :: "string option"
  lp_loading :: bool
  lp_pending :: "(string \<times> string) list"

section \<open>Handlers\<close>

definition log_params :: "string \<Rightarrow> string \<Rightarrow> (string \<times> string) list" where
  "log_params level upstream =
     (if level \<noteq> [] then [(''level'', level)] else []) @ (if upstream \<noteq> [] then [(''upstream'', upstream)] else [])"

definition logs_path :: "string \<times> string \<Rightarrow> string" where
  "logs_path p = ''/admin/api/logs?'' @ query_string (log_params (fst p) (snd p))"

definition refresh_logs :: "logs_page \<Rightarrow> logs_page" where
  "refresh_logs s = s\<lparr>lp_loading := True, lp_pending := lp_pending s @ [(lp_level s, lp_upstream s)]\<rparr>"

definition logs_reply :: "string \<times> string \<Rightarrow> js_error + log_entry list \<Rightarrow> logs_page \<Rightarrow> logs_page" where
  "logs_reply p r s =
     (let s1 = s\<lparr>lp_loading := False, lp_pending := remove1 p (lp_pending s)\<rparr> in case r of
        Inr items \<Rightarrow> s1\<lparr>lp_items := rev items, lp_error := None\<rparr>
      | Inl e \<Rightarrow> s1\<lparr>lp_error := Some (error_message_or ''Failed to load logs'' e)\<rparr>)"

definition logs_init :: logs_page where
  "logs_init = refresh_logs \<lparr>lp_items = [], lp_level = [], lp_upstream = [], lp_error = None,
     lp_loading = False, lp_pending = []\<rparr>"

section \<open>What is shown\<close>

datatype lp_btn = BtnRefresh
datatype lp_field = FLevel | FUpstream

definition log_row :: "formats \<Rightarrow> log_entry \<Rightarrow> (lp_btn, lp_field) view" where
  "log_row fm e = Box [Txt (fm_time fm (le_timestamp e * 1000)), Txt (le_level e),
     Txt (nullish (le_upstream e) (le_logger e)), Txt (le_message e)]"

definition logs_view :: "formats \<Rightarrow> logs_page \<Rightarrow> (lp_btn, lp_field) view" where
  "logs_view fm s = Box [
     Txt ''Logs'', Txt ''Recent in-memory log entries'',
     Button BtnRefresh (lp_loading s) [Txt ''Refresh''],
     SectionCard (show_nat (length (lp_items s)) @ '' entries'')
       (Box [Choice FLevel False (lp_level s) LEVELS, Input FUpstream False (lp_upstream s)])
       [error_box (lp_error s),
        cond (lp_items s = []) (Txt ''No log entries match.''),
        Box (map (log_row fm) (lp_items s))]]"

section \<open>The machine\<close>

datatype lp_event =
    LpAct "(lp_btn, lp_field) action"
  | LpBlur lp_field
  | LpLoaded "string \<times> string" "js_error + log_entry list"

fun lp_step :: "lp_event \<Rightarrow> logs_page \<Rightarrow> logs_page" where
  "lp_step (LpAct (Click BtnRefresh)) s = refresh_logs s"
| "lp_step (LpAct (Edit FLevel v)) s = s\<lparr>lp_level := v\<rparr>"
| "lp_step (LpAct (Edit FUpstream v)) s = s\<lparr>lp_upstream := v\<rparr>"
| "lp_step (LpAct (Toggle f)) s = s"
| "lp_step (LpBlur f) s = refresh_logs s"
| "lp_step (LpLoaded p r) s = logs_reply p r s"

fun lp_enabled :: "formats \<Rightarrow> logs_page \<Rightarrow> lp_event \<Rightarrow> bool" where
  "lp_enabled fm s (LpAct a) = offers (logs_view fm s) a"
| "lp_enabled fm s (LpBlur f) = True"
| "lp_enabled fm s (LpLoaded p r) = (p \<in> set (lp_pending s))"

section \<open>Lemmas\<close>

lemma refresh_offered: "offers (logs_view fm s) (Click BtnRefresh) \<longleftrightarrow> \<not> lp_loading s"
  by (auto simp: logs_view_def log_row_def list_ex_iff)

text \<open>The server reads the filters back: \<open>get_logs\<close> receives them as query parameters.\<close>

definition server_filter :: "string \<Rightarrow> string \<Rightarrow> string option" where
  "server_filter path k = map_of (decode_query (drop 1 (dropWhile (\<lambda>c. c \<noteq> CHR ''?'') path))) k"

lemma server_filter_logs:
  "server_filter (logs_path (l, u)) ''level'' = (if l = [] then None else Some l)"
  "server_filter (logs_path (l, u)) ''upstream'' = (if u = [] then None else Some u)"
  by (simp_all add: server_filter_def logs_path_def query_round_trip log_params_def)

lemma level_offered: "offers (logs_view fm s) (Edit FLevel v) \<longleftrightarrow> v \<in> set LEVELS"
  by (auto simp: logs_view_def log_row_def list_ex_iff LEVELS_def)

text \<open>A refresh that is answered late is shown whatever the filters are by then.\<close>

lemma stale_logs_shown:
  "\<exists>s. run (lp_enabled fm) lp_step logs_init
         [LpAct (Edit FUpstream ''fs''), LpBlur FUpstream, LpLoaded ([], ''fs'') (Inr []), LpLoaded ([], []) (Inr [e])] = Some s
     \<and> lp_upstream s = ''fs'' \<and> lp_items s = [e] \<and> lp_pending s = []"
  by (simp add: logs_init_def refresh_logs_def logs_reply_def Let_def logs_view_def)

end
