(* ===== verification/RoutesPage.thy ===== *)
theory RoutesPage
  imports LogsPage
begin

text \<open>
  \<open>frontend/src/pages/Routes.tsx\<close>: the cards of the upstream servers with their badges, errors, tools and
  logs, and the three operations (rediscover, restart, remove). \<open>busy\<close> is one slot for all of them. A card's
  log panel keeps its state as long as its route is listed; \<open>ul_id\<close> tells its instances apart, since the
  reply to a request of an unmounted panel has no effect. The page polls every 8 seconds (\<open>RpTick\<close>).
\<close>

section \<open>A card's logs\<close>

record up_logs =
  ul_id :: nat
  ul_logs :: "log_entry list option"
  ul_open :: bool
  ul_error :: "string option"

definition up_logs_init :: "nat \<Rightarrow> up_logs" where
  "up_logs_init i = \<lparr>ul_id = i, ul_logs = None, ul_open = False, ul_error = None\<rparr>"

definition up_logs_path :: "string \<Rightarrow> string" where
  "up_logs_path name = ''/admin/api/logs?upstream='' @ encodeURIComponent name"

definition up_logs_loaded :: "js_error + log_entry list \<Rightarrow> up_logs \<Rightarrow> up_logs" where
  "up_logs_loaded r u = (case r of
      Inr items \<Rightarrow> u\<lparr>ul_logs := Some (rev items), ul_error := None\<rparr>
    | Inl e \<Rightarrow> u\<lparr>ul_error := Some (error_message_or ''Failed to load logs'' e)\<rparr>)"

section \<open>What a card says\<close>

definition health_get :: "route_info \<Rightarrow> string \<Rightarrow> json option" where
  "health_get info k = obj_get (ri_health info) k"

definition healthOk :: "route_info \<Rightarrow> bool" where
  "healthOk info \<longleftrightarrow> health_get info ''status'' = Some (JStr ''ok'') \<or> health_get info ''running'' = Some (JBool True)"

text \<open>\<open>(v as string) || null\<close>: the server sends a string or null.\<close>

definition text_or_null :: "json option \<Rightarrow> string option" where
  "text_or_null v = (case v of Some (JStr t) \<Rightarrow> if t = [] then None else Some t | _ \<Rightarrow> None)"

definition lastError :: "route_info \<Rightarrow> string option" where
  "lastError info = text_or_null (health_get info ''last_error'')"

definition discoveryError :: "route_info \<Rightarrow> string option" where
  "discoveryError info = (case rd_error (ri_discovery info) of Some t \<Rightarrow> if t = [] then None else Some t | None \<Rightarrow> None)"

definition restartAttempts :: "route_info \<Rightarrow> dec" where
  "restartAttempts info = (case health_get info ''restart_attempts'' of Some (JNum d) \<Rightarrow> d | _ \<Rightarrow> Dec 0 0)"

definition route_transport :: "route_info \<Rightarrow> string option" where
  "route_transport info = text_or_null (health_get info ''type'')"

definition dec_above_one :: "dec \<Rightarrow> bool" where
  "dec_above_one d \<longleftrightarrow> dec_pos d \<and> d \<noteq> Dec 1 0"

section \<open>The page\<close>

datatype rp_req = RqRoutes | RqRediscover | RqRestart string | RqRemove string | RqAfter string | RqLogs string nat

record routes_page =
  rp_routes :: route_snapshot
  rp_busy :: "string option"
  rp_error :: "string option"
  rp_logs :: "up_logs obj"
  rp_next :: nat
  rp_pending :: "rp_req list"

definition rp_send :: "rp_req \<Rightarrow> routes_page \<Rightarrow> routes_page" where
  "rp_send q s = s\<lparr>rp_pending := rp_pending s @ [q]\<rparr>"

definition rp_settle :: "rp_req \<Rightarrow> routes_page \<Rightarrow> routes_page" where
  "rp_settle q s = s\<lparr>rp_pending := remove1 q (rp_pending s)\<rparr>"

definition routes_init :: routes_page where
  "routes_init = \<lparr>rp_routes = [], rp_busy = None, rp_error = None, rp_logs = [], rp_next = 0, rp_pending = [RqRoutes]\<rparr>"

text \<open>Panels of routes that are gone are unmounted, those of new routes mounted.\<close>

definition setRoutes :: "route_snapshot \<Rightarrow> routes_page \<Rightarrow> routes_page" where
  "setRoutes data s = s\<lparr>rp_routes := data,
     rp_logs := map (\<lambda>(i, name). (name, nullish (obj_get (rp_logs s) name) (up_logs_init i)))
       (enumerate (rp_next s) (own_keys data)),
     rp_next := rp_next s + length data\<rparr>"

definition routes_refresh_reply :: "js_error + route_snapshot \<Rightarrow> routes_page \<Rightarrow> routes_page" where
  "routes_refresh_reply r s = (case r of
      Inr data \<Rightarrow> (setRoutes data s)\<lparr>rp_error := None\<rparr>
    | Inl e \<Rightarrow> s\<lparr>rp_error := Some (error_message_or ''Failed to load routes'' e)\<rparr>)"

definition REFRESH_BUSY :: string where
  "REFRESH_BUSY = ''__refresh__''"

definition rediscover :: "routes_page \<Rightarrow> routes_page" where
  "rediscover s = rp_send RqRediscover (s\<lparr>rp_busy := Some REFRESH_BUSY\<rparr>)"

definition rediscover_reply :: "js_error + route_snapshot \<Rightarrow> routes_page \<Rightarrow> routes_page" where
  "rediscover_reply r s = (case r of
      Inr data \<Rightarrow> (setRoutes data s)\<lparr>rp_busy := None\<rparr>
    | Inl e \<Rightarrow> s\<lparr>rp_error := Some (error_message_or ''Rediscovery failed'' e), rp_busy := None\<rparr>)"

definition restart :: "string \<Rightarrow> routes_page \<Rightarrow> routes_page" where
  "restart name s = rp_send (RqRestart name) (s\<lparr>rp_busy := Some name\<rparr>)"

text \<open>The user confirmed the dialog.\<close>

definition remove_route :: "string \<Rightarrow> routes_page \<Rightarrow> routes_page" where
  "remove_route name s = rp_send (RqRemove name) (s\<lparr>rp_busy := Some name\<rparr>)"

text \<open>The path given to \<open>apiDelete\<close>. What the browser makes of it (a name \<open>.\<close> or \<open>..\<close> is a dot segment, which
  URL parsing removes) and how the server routes the decoded path is not modelled.\<close>

definition remove_path :: "string \<Rightarrow> string" where
  "remove_path name = ''/admin/api/upstreams/'' @ encodeURIComponent name"

definition operation_reply :: "string \<Rightarrow> string \<Rightarrow> js_error + json \<Rightarrow> routes_page \<Rightarrow> routes_page" where
  "operation_reply fallback name r s = (case r of
      Inr v \<Rightarrow> rp_send (RqAfter name) s
    | Inl e \<Rightarrow> s\<lparr>rp_error := Some (error_message_or fallback e), rp_busy := None\<rparr>)"

definition after_operation :: "js_error + route_snapshot \<Rightarrow> routes_page \<Rightarrow> routes_page" where
  "after_operation r s = (routes_refresh_reply r s)\<lparr>rp_busy := None\<rparr>"

definition toggle_logs :: "string \<Rightarrow> routes_page \<Rightarrow> routes_page" where
  "toggle_logs name s = (case obj_get (rp_logs s) name of
      None \<Rightarrow> s
    | Some u \<Rightarrow>
        let s1 = s\<lparr>rp_logs := obj_put name (u\<lparr>ul_open := \<not> ul_open u\<rparr>) (rp_logs s)\<rparr>
        in if ul_open u then s1 else rp_send (RqLogs name (ul_id u)) s1)"

definition logs_loaded :: "string \<Rightarrow> nat \<Rightarrow> js_error + log_entry list \<Rightarrow> routes_page \<Rightarrow> routes_page" where
  "logs_loaded name i r s = (case obj_get (rp_logs s) name of
      Some u \<Rightarrow> if ul_id u = i then s\<lparr>rp_logs := obj_put name (up_logs_loaded r u) (rp_logs s)\<rparr> else s
    | None \<Rightarrow> s)"

section \<open>What is shown\<close>

datatype rp_btn = BtnRediscover | BtnRestart string | BtnRemove string | BtnLogs string

type_synonym rp_view = "(rp_btn, unit) view"

definition UpstreamLogs :: "formats \<Rightarrow> string \<Rightarrow> up_logs \<Rightarrow> rp_view" where
  "UpstreamLogs fm name u = Box [
     Button (BtnLogs name) False [Txt ((if ul_open u then ''v'' else ''>'') @ '' Logs''
       @ (case ul_logs u of Some ls \<Rightarrow> '' ('' @ show_nat (length ls) @ '')'' | None \<Rightarrow> []))],
     cond (ul_open u) (Box [
       error_box (ul_error u),
       cond (ul_logs u = Some []) (Txt ''No log entries for this upstream.''),
       Box (map (\<lambda>e. Box [Txt (fm_time fm (le_timestamp e * 1000)), Txt (le_level e), Txt (le_message e)])
         (nullish (ul_logs u) []))])]"

definition tool_row :: "tool_info \<Rightarrow> rp_view" where
  "tool_row t = Box [opt_text (tool_name t),
     (case tool_description t of Some d \<Rightarrow> cond (d \<noteq> []) (Txt (''- '' @ d)) | None \<Rightarrow> Box [])]"

definition error_lines :: "route_info \<Rightarrow> rp_view" where
  "error_lines info = Box [
     opt_text (lastError info),
     (case discoveryError info of
        Some d \<Rightarrow> cond (lastError info \<noteq> Some d) (Txt (''discovery: '' @ d))
      | None \<Rightarrow> Box [])]"

definition RouteCard :: "formats \<Rightarrow> routes_page \<Rightarrow> string \<times> route_info \<Rightarrow> rp_view" where
  "RouteCard fm s ni = (case ni of (name, info) \<Rightarrow>
     let tools = rd_tools (ri_discovery info); ok = rd_ok (ri_discovery info); n = restartAttempts info in Box [
       Txt name,
       Badge (if healthOk info then ToneOk else ToneErr) [Txt (if healthOk info then ''healthy'' else ''unhealthy'')],
       (case route_transport info of Some t \<Rightarrow> Badge ToneDefault [Txt t] | None \<Rightarrow> Box []),
       cond (ok = Some True) (Badge ToneAccent [Txt (show_nat (length tools) @ '' tools'')]),
       cond (ok = Some False) (Badge ToneWarn [Txt ''discovery failed'']),
       cond (dec_pos n) (Badge ToneWarn [Txt (show_dec n @ '' restart'' @ (if dec_above_one n then ''s'' else []))]),
       Button (BtnRestart name) (rp_busy s = Some name) [Txt ''Restart''],
       Button (BtnRemove name) (rp_busy s = Some name) [],
       error_lines info,
       cond (tools \<noteq> []) (Box (Txt ''Tools'' # map tool_row tools)),
       UpstreamLogs fm name (nullish (obj_get (rp_logs s) name) (up_logs_init 0)),
       Txt ''Raw health'', Txt (json_stringify2 (JObj (ri_health info)))])"

definition routes_view :: "formats \<Rightarrow> routes_page \<Rightarrow> rp_view" where
  "routes_view fm s = Box [
     Txt ''Routes'', Txt ''Upstream MCP servers and their discovered tools'',
     Button BtnRediscover (rp_busy s = Some REFRESH_BUSY) [Txt ''Rediscover tools''],
     error_box (rp_error s),
     (if rp_routes s = []
      then SectionCard ''No upstreams'' (Box []) [Txt ''No upstreams are configured. Add one from the Config page.'']
      else Box (map (RouteCard fm s) (own_entries (rp_routes s))))]"

section \<open>The machine\<close>

datatype rp_event =
    RpAct "(rp_btn, unit) action" bool
  | RpTick
  | RpRoutes "js_error + route_snapshot"
  | RpRediscovered "js_error + route_snapshot"
  | RpRestarted string "js_error + json"
  | RpRemoved string "js_error + json"
  | RpAfter string "js_error + route_snapshot"
  | RpLogs string nat "js_error + log_entry list"

fun rp_req_of :: "rp_event \<Rightarrow> rp_req option" where
  "rp_req_of (RpRoutes r) = Some RqRoutes"
| "rp_req_of (RpRediscovered r) = Some RqRediscover"
| "rp_req_of (RpRestarted n r) = Some (RqRestart n)"
| "rp_req_of (RpRemoved n r) = Some (RqRemove n)"
| "rp_req_of (RpAfter n r) = Some (RqAfter n)"
| "rp_req_of (RpLogs n i r) = Some (RqLogs n i)"
| "rp_req_of _ = None"

text \<open>The second argument of \<open>RpAct\<close> is the user's answer to the confirmation of a removal.\<close>

fun rp_handle :: "rp_event \<Rightarrow> routes_page \<Rightarrow> routes_page" where
  "rp_handle (RpAct (Click BtnRediscover) c) s = rediscover s"
| "rp_handle (RpAct (Click (BtnRestart n)) c) s = restart n s"
| "rp_handle (RpAct (Click (BtnRemove n)) c) s = (if c then remove_route n s else s)"
| "rp_handle (RpAct (Click (BtnLogs n)) c) s = toggle_logs n s"
| "rp_handle (RpAct _ c) s = s"
| "rp_handle RpTick s = rp_send RqRoutes s"
| "rp_handle (RpRoutes r) s = routes_refresh_reply r s"
| "rp_handle (RpRediscovered r) s = rediscover_reply r s"
| "rp_handle (RpRestarted n r) s = operation_reply ''Restart failed'' n r s"
| "rp_handle (RpRemoved n r) s = operation_reply ''Remove failed'' n r s"
| "rp_handle (RpAfter n r) s = after_operation r s"
| "rp_handle (RpLogs n i r) s = logs_loaded n i r s"

definition rp_step :: "rp_event \<Rightarrow> routes_page \<Rightarrow> routes_page" where
  "rp_step ev s = rp_handle ev (case rp_req_of ev of Some q \<Rightarrow> rp_settle q s | None \<Rightarrow> s)"

definition rp_enabled :: "formats \<Rightarrow> routes_page \<Rightarrow> rp_event \<Rightarrow> bool" where
  "rp_enabled fm s ev = (case ev of
      RpAct a c \<Rightarrow> offers (routes_view fm s) a
    | RpTick \<Rightarrow> True
    | _ \<Rightarrow> (case rp_req_of ev of Some q \<Rightarrow> q \<in> set (rp_pending s) | None \<Rightarrow> False))"

section \<open>Lemmas\<close>

text \<open>The operation \<open>busy\<close> names is in flight.\<close>

definition op_pending :: "string \<Rightarrow> rp_req list \<Rightarrow> bool" where
  "op_pending n qs \<longleftrightarrow> RqRestart n \<in> set qs \<or> RqRemove n \<in> set qs \<or> RqAfter n \<in> set qs
     \<or> (n = REFRESH_BUSY \<and> RqRediscover \<in> set qs)"

definition busy_backed :: "routes_page \<Rightarrow> bool" where
  "busy_backed s \<longleftrightarrow> (case rp_busy s of None \<Rightarrow> True | Some n \<Rightarrow> op_pending n (rp_pending s))"

lemma op_pending_snoc [simp]:
  "op_pending n (qs @ [q]) \<longleftrightarrow> op_pending n qs \<or> q \<in> {RqRestart n, RqRemove n, RqAfter n} \<or> (n = REFRESH_BUSY \<and> q = RqRediscover)"
  by (auto simp: op_pending_def)

lemma op_pending_settled:
  "op_pending n qs \<Longrightarrow> q \<notin> {RqRestart n, RqRemove n, RqAfter n, RqRediscover} \<Longrightarrow> op_pending n (remove1 q qs)"
  by (auto simp: op_pending_def in_set_remove1)

lemma routes_pending [simp]:
  "rp_pending (setRoutes d s) = rp_pending s" "rp_busy (setRoutes d s) = rp_busy s"
  "rp_pending (routes_refresh_reply r s) = rp_pending s" "rp_busy (routes_refresh_reply r s) = rp_busy s"
  "rp_pending (logs_loaded n i v s) = rp_pending s" "rp_busy (logs_loaded n i v s) = rp_busy s"
  "rp_busy (toggle_logs n s) = rp_busy s"
  by (auto simp: setRoutes_def routes_refresh_reply_def logs_loaded_def toggle_logs_def rp_send_def Let_def
    split: sum.splits option.splits)

lemma toggle_pending: "op_pending n (rp_pending s) \<Longrightarrow> op_pending n (rp_pending (toggle_logs m s))"
  by (auto simp: toggle_logs_def rp_send_def Let_def split: option.splits)

lemmas routes_defs = rediscover_def restart_def remove_route_def rediscover_reply_def operation_reply_def
  after_operation_def rp_send_def rp_settle_def

lemma busy_backed_step: "busy_backed s \<Longrightarrow> busy_backed (rp_step ev s)"
proof (cases ev)
  case (RpAct a c)
  assume "busy_backed s"
  then show ?thesis unfolding RpAct
    by (cases "(RpAct a c, s)" rule: rp_handle.cases)
      (auto simp: rp_step_def busy_backed_def routes_defs toggle_pending split: option.splits)
next
  case (RpRestarted n r)
  assume "busy_backed s"
  then show ?thesis unfolding RpRestarted
    by (cases "rp_busy s"; cases "rp_busy s = Some n")
      (auto simp: rp_step_def busy_backed_def routes_defs op_pending_settled split: sum.splits)
next
  case (RpRemoved n r)
  assume "busy_backed s"
  then show ?thesis unfolding RpRemoved
    by (cases "rp_busy s"; cases "rp_busy s = Some n")
      (auto simp: rp_step_def busy_backed_def routes_defs op_pending_settled split: sum.splits)
qed (auto simp: rp_step_def busy_backed_def routes_defs op_pending_settled split: sum.splits option.splits)

interpretation routes: machine "rp_enabled fm" rp_step routes_init busy_backed
  by unfold_locales (auto simp: busy_backed_step, simp add: routes_init_def busy_backed_def)

lemma routes_offers:
  "offers (routes_view fm s) (Click BtnRediscover) \<longleftrightarrow> rp_busy s \<noteq> Some REFRESH_BUSY"
  "offers (routes_view fm s) (Click (BtnRestart name)) \<longleftrightarrow> name \<in> set (own_keys (rp_routes s)) \<and> rp_busy s \<noteq> Some name"
  "offers (routes_view fm s) (Click (BtnRemove name)) \<longleftrightarrow> name \<in> set (own_keys (rp_routes s)) \<and> rp_busy s \<noteq> Some name"
proof -
  have logs: "\<not> offers (UpstreamLogs fm n u) (Click x)" if "x \<notin> range BtnLogs" for n u x
    using that by (auto simp: UpstreamLogs_def list_ex_iff)
  have tools: "\<not> offers (tool_row t) act" "\<not> offers (error_lines info) act" for t info act
    by (auto simp: tool_row_def error_lines_def split: option.split)
  have card: "offers (RouteCard fm s (n, info)) (Click x)
      \<longleftrightarrow> rp_busy s \<noteq> Some n \<and> (x = BtnRestart n \<or> x = BtnRemove n)" if "x \<notin> range BtnLogs" for n info x
    using logs [OF that] tools by (auto simp: RouteCard_def Let_def list_ex_iff split: option.split)
  have no: "BtnRediscover \<notin> range BtnLogs" "BtnRestart n \<notin> range BtnLogs" "BtnRemove n \<notin> range BtnLogs" for n
    by auto
  show "offers (routes_view fm s) (Click BtnRediscover) \<longleftrightarrow> rp_busy s \<noteq> Some REFRESH_BUSY"
    by (auto simp: routes_view_def list_ex_iff card no)
  show "offers (routes_view fm s) (Click (BtnRestart name)) \<longleftrightarrow> name \<in> set (own_keys (rp_routes s)) \<and> rp_busy s \<noteq> Some name"
    "offers (routes_view fm s) (Click (BtnRemove name)) \<longleftrightarrow> name \<in> set (own_keys (rp_routes s)) \<and> rp_busy s \<noteq> Some name"
    by (force simp: routes_view_def list_ex_iff card no own_keys_def)+
qed

lemma card_offers:
  "(name, info) \<in> set (rp_routes s) \<Longrightarrow> rp_busy s = None \<Longrightarrow>
   offers (routes_view fm s) (Click (BtnRestart name)) \<and> offers (routes_view fm s) (Click (BtnRemove name))"
  by (force simp: routes_offers)

section \<open>Properties\<close>

text \<open>C21: The busy mark and the operations, in every reachable state, whatever operations were started on
  whichever cards and in whatever order their replies came. A busy mark belongs to an operation still in
  flight: a restart, a removal or the reload after one for that very card, or a rediscovery for the mark of the
  Rediscover button. Restart, a confirmed removal and Rediscover each mark their own card or button, put
  their own request in flight and so disable their own buttons; a removal that is not confirmed changes nothing.
  And when no operation is in flight, the page is not marked, and Rediscover as well as Restart and Remove of
  each listed card can be pressed.\<close>

theorem routes_unblocked:
  assumes "reachable (rp_enabled fm) rp_step routes_init s"
  shows "(case rp_busy s of None \<Rightarrow> True
      | Some n \<Rightarrow> RqRestart n \<in> set (rp_pending s) \<or> RqRemove n \<in> set (rp_pending s) \<or> RqAfter n \<in> set (rp_pending s)
          \<or> (n = ''__refresh__'' \<and> RqRediscover \<in> set (rp_pending s)))
    \<and> (let t = rp_step (RpAct (Click (BtnRestart name)) c) s in rp_busy t = Some name
         \<and> rp_pending t = rp_pending s @ [RqRestart name]
         \<and> \<not> offers (routes_view fm t) (Click (BtnRestart name)) \<and> \<not> offers (routes_view fm t) (Click (BtnRemove name)))
    \<and> (let t = rp_step (RpAct (Click (BtnRemove name)) True) s in rp_busy t = Some name
         \<and> rp_pending t = rp_pending s @ [RqRemove name]
         \<and> \<not> offers (routes_view fm t) (Click (BtnRestart name)) \<and> \<not> offers (routes_view fm t) (Click (BtnRemove name)))
    \<and> rp_step (RpAct (Click (BtnRemove name)) False) s = s
    \<and> (let t = rp_step (RpAct (Click BtnRediscover) c) s in rp_busy t = Some ''__refresh__''
         \<and> rp_pending t = rp_pending s @ [RqRediscover] \<and> \<not> offers (routes_view fm t) (Click BtnRediscover))
    \<and> (list_all (\<lambda>q. q = RqRoutes \<or> (\<exists>n i. q = RqLogs n i)) (rp_pending s) \<longrightarrow>
         rp_busy s = None \<and> offers (routes_view fm s) (Click BtnRediscover)
         \<and> (name \<in> set (own_keys (rp_routes s)) \<longrightarrow>
             offers (routes_view fm s) (Click (BtnRestart name)) \<and> offers (routes_view fm s) (Click (BtnRemove name))))"
proof -
  have backed: "busy_backed s" by (rule routes.reachable_inv [OF assms(1)])
  have idle: "rp_busy s = None" if "list_all (\<lambda>q. q = RqRoutes \<or> (\<exists>n i. q = RqLogs n i)) (rp_pending s)"
  proof -
    have "\<not> op_pending n (rp_pending s)" for n
      using that by (auto simp: op_pending_def list_all_iff)
    then show ?thesis using backed by (cases "rp_busy s") (auto simp: busy_backed_def)
  qed
  have mark: "case rp_busy s of None \<Rightarrow> True
      | Some n \<Rightarrow> RqRestart n \<in> set (rp_pending s) \<or> RqRemove n \<in> set (rp_pending s) \<or> RqAfter n \<in> set (rp_pending s)
          \<or> (n = ''__refresh__'' \<and> RqRediscover \<in> set (rp_pending s))"
    using backed by (auto simp: busy_backed_def op_pending_def REFRESH_BUSY_def split: option.splits)
  show ?thesis
    unfolding Let_def routes_offers
    by (intro conjI mark impI) (use idle in \<open>simp_all add: rp_step_def routes_defs REFRESH_BUSY_def\<close>)
qed

definition some_route :: route_info where
  "some_route = \<lparr>ri_health = [(''running'', JBool False), (''last_error'', JStr ''exit 1'')],
     ri_discovery = \<lparr>rd_updated_at = None, rd_ok = None, rd_error = None, rd_tools = []\<rparr>\<rparr>"

definition restart_demo :: "rp_event list" where
  "restart_demo = [RpRoutes (Inr [(''fs'', some_route)]), RpAct (Click (BtnRestart ''fs'')) False,
     RpRestarted ''fs'' (Inr JNull), RpAfter ''fs'' (Inl (PlainErr ''down''))]"

lemma restart_demo_run:
  "run (rp_enabled plain_formats) rp_step routes_init restart_demo = Some
    \<lparr>rp_routes = [(''fs'', some_route)], rp_busy = None, rp_error = Some ''down'',
     rp_logs = [(''fs'', up_logs_init 0)], rp_next = 1, rp_pending = []\<rparr>"
proof -
  let ?v = "\<lambda>s. rp_routes s = [(''fs'', some_route)] \<and> rp_busy s = None"
  have "offers (routes_view plain_formats s) (Click (BtnRestart ''fs''))" if "?v s" for s
    using that card_offers [of "''fs''" some_route s plain_formats] by simp
  then show ?thesis
    by (simp add: restart_demo_def routes_init_def rp_enabled_def rp_step_def routes_refresh_reply_def setRoutes_def
      own_keys_def nullish_def routes_defs)
qed

theorem routes_unblocked_witness:
  "\<exists>s. reachable (rp_enabled plain_formats) rp_step routes_init s \<and> rp_error s = Some ''down''
     \<and> offers (routes_view plain_formats s) (Click (BtnRestart ''fs''))"
proof -
  let ?s = "the (run (rp_enabled plain_formats) rp_step routes_init restart_demo)"
  have "reachable (rp_enabled plain_formats) rp_step routes_init ?s"
    by (rule run_reachable) (simp add: restart_demo_run)
  moreover have "list_all (\<lambda>q. q = RqRoutes \<or> (\<exists>n i. q = RqLogs n i)) (rp_pending ?s)"
    by (simp add: restart_demo_run)
  moreover have "''fs'' \<in> set (own_keys (rp_routes ?s))" by (simp add: restart_demo_run)
  ultimately show ?thesis
    using routes_unblocked [of plain_formats ?s "''fs''"]
    by (intro exI [of _ ?s]) (simp add: restart_demo_run)
qed

text \<open>The busy mark is one slot for all cards. When the restart of a first server is answered after that
  of a second one was started, the second card's buttons come back although its restart is in flight, and a
  second restart of it can be sent.\<close>

theorem busy_slot_shared:
  assumes "(a, ia) \<in> set (rp_routes s)" and "(b, ib) \<in> set (rp_routes s)" and "a \<noteq> b"
  shows "let s1 = rp_step (RpRestarted a (Inl e)) (rp_step (RpAct (Click (BtnRestart b)) c) (rp_step (RpAct (Click (BtnRestart a)) c) s))
         in RqRestart b \<in> set (rp_pending s1) \<and> rp_enabled fm s1 (RpAct (Click (BtnRestart b)) c)"
proof -
  let ?s1 = "rp_step (RpRestarted a (Inl e)) (rp_step (RpAct (Click (BtnRestart b)) c) (rp_step (RpAct (Click (BtnRestart a)) c) s))"
  have "rp_busy ?s1 = None" "rp_routes ?s1 = rp_routes s" "RqRestart b \<in> set (rp_pending ?s1)"
    using assms(3) by (auto simp: rp_step_def routes_defs remove1_append in_set_remove1)
  then show ?thesis
    using card_offers [of b ib ?s1 fm] assms(2) by (auto simp: Let_def rp_enabled_def)
qed

text \<open>The message of a failed operation is cleared by the next poll.\<close>

lemma poll_clears_error:
  "rp_error (rp_step (RpRoutes (Inr data)) s) = None"
  by (simp add: rp_step_def routes_refresh_reply_def)

end
