(* ===== verification/GraphLayout.thy ===== *)
theory GraphLayout
  imports RoutesPage
begin

text \<open>
  The pure part of \<open>frontend/src/pages/Graph.tsx\<close> (layout, width, colour, opacity and radius) and
  \<open>components/TrafficGraph.tsx\<close>, which paints what it is given. Coordinates are exact reals. A JavaScript
  \<open>Map\<close> is an association list in insertion order. The scene keeps the shapes and their numbers; transitions
  and gradients are left out.
\<close>

section \<open>Layout\<close>

record point =
  px :: real
  py :: real

definition PROXY_ID :: string where "PROXY_ID = ''__mcpxy_proxy__''"
definition VIEW_W :: real where "VIEW_W = 800"
definition VIEW_H :: real where "VIEW_H = 600"
definition CENTER :: point where "CENTER = \<lparr>px = VIEW_W / 2, py = VIEW_H / 2\<rparr>"
definition RING_RADIUS :: real where "RING_RADIUS = 220"

definition angle :: "nat \<Rightarrow> nat \<Rightarrow> real" where
  "angle n i = - pi / 2 + 2 * pi * real i / real n"

definition ring_point :: "nat \<Rightarrow> nat \<Rightarrow> point" where
  "ring_point n i = \<lparr>px = px CENTER + RING_RADIUS * cos (angle n i), py = py CENTER + RING_RADIUS * sin (angle n i)\<rparr>"

definition computeLayout :: "route_snapshot \<Rightarrow> point obj" where
  "computeLayout routes =
     (let names = sort (own_keys routes); n = length names
      in fold (\<lambda>i positions. obj_put (names ! i) (ring_point n i) positions) [0..<n] [(PROXY_ID, CENTER)])"

section \<open>Appearance\<close>

datatype window_s = W60 | W300 | W900

fun DECAY_PER_SEC :: "window_s \<Rightarrow> real" where
  "DECAY_PER_SEC W60 = 94 / 100"
| "DECAY_PER_SEC W300 = 985 / 1000"
| "DECAY_PER_SEC W900 = 995 / 1000"

fun INTENSITY_K :: "window_s \<Rightarrow> real" where
  "INTENSITY_K W60 = 6"
| "INTENSITY_K W300 = 25"
| "INTENSITY_K W900 = 90"

record edge_stats =
  es_ok :: real
  es_err :: real

definition no_stats :: edge_stats where "no_stats = \<lparr>es_ok = 0, es_err = 0\<rparr>"

definition intensity :: "edge_stats \<Rightarrow> real" where
  "intensity s = es_ok s + es_err s"

datatype color = COk | CErr | CWarn | CAccent | CAccentDim | CEdgeIdle | CProxyFill | CNodeFill | CLabelPrimary | CLabelMuted

fun COLORS :: "color \<Rightarrow> string" where
  "COLORS COk = ''#34d399''"
| "COLORS CErr = ''#f87171''"
| "COLORS CWarn = ''#fbbf24''"
| "COLORS CAccent = ''#5b8cff''"
| "COLORS CAccentDim = ''#7da3ff''"
| "COLORS CEdgeIdle = ''#3a4257''"
| "COLORS CProxyFill = ''#161a24''"
| "COLORS CNodeFill = ''#11141c''"
| "COLORS CLabelPrimary = ''#e2e8f0''"
| "COLORS CLabelMuted = ''#94a3b8''"

definition isHealthy :: "route_info option \<Rightarrow> bool" where
  "isHealthy info = (case info of None \<Rightarrow> False
     | Some i \<Rightarrow> obj_get (ri_health i) ''status'' = Some (JStr ''ok'') \<or> obj_get (ri_health i) ''running'' = Some (JBool True))"

definition transportOf :: "route_info option \<Rightarrow> string option" where
  "transportOf info = (case info of None \<Rightarrow> None | Some i \<Rightarrow> json_str (obj_get (ri_health i) ''type''))"

definition widthForIntensity :: "real \<Rightarrow> window_s \<Rightarrow> real" where
  "widthForIntensity x w = 15 / 10 + (1 - exp (- x / INTENSITY_K w)) * (125 / 10)"

definition colorForStats :: "edge_stats \<Rightarrow> color" where
  "colorForStats s =
     (let total = intensity s; errRatio = es_err s / total
      in if total < 5 / 100 then CEdgeIdle
         else if errRatio > 25 / 100 then CErr
         else if errRatio > 5 / 100 then CWarn
         else COk)"

definition opacityForIntensity :: "real \<Rightarrow> real" where
  "opacityForIntensity x = (if x < 15 / 100 then 3 / 10 else 85 / 100)"

definition radiusForIntensity :: "real \<Rightarrow> real" where
  "radiusForIntensity x = 26 + min 12 (log 2 (1 + x) * (25 / 10))"

section \<open>Nodes, edges and the scene\<close>

datatype node_kind = KProxy | KUpstream

record graph_node =
  gn_id :: string
  gn_kind :: node_kind
  gn_label :: string
  gn_at :: point
  gn_radius :: real
  gn_healthy :: bool
  gn_sublabel :: "string option"

record graph_edge =
  ge_id :: string
  ge_fromId :: string
  ge_toId :: string
  ge_from :: point
  ge_to :: point
  ge_width :: real
  ge_color :: color
  ge_opacity :: real

definition proxy_node :: "point \<Rightarrow> graph_node" where
  "proxy_node p = \<lparr>gn_id = PROXY_ID, gn_kind = KProxy, gn_label = ''MCPxy'', gn_at = p, gn_radius = 46,
     gn_healthy = True, gn_sublabel = None\<rparr>"

definition stats_of :: "edge_stats obj \<Rightarrow> string \<Rightarrow> edge_stats" where
  "stats_of stats name = nullish (obj_get stats name) no_stats"

definition upstream_node :: "edge_stats obj \<Rightarrow> string \<Rightarrow> route_info \<Rightarrow> point \<Rightarrow> graph_node" where
  "upstream_node stats name info p = \<lparr>gn_id = name, gn_kind = KUpstream, gn_label = name, gn_at = p,
     gn_radius = radiusForIntensity (intensity (stats_of stats name)), gn_healthy = isHealthy (Some info),
     gn_sublabel = transportOf (Some info)\<rparr>"

definition upstream_edge :: "edge_stats obj \<Rightarrow> window_s \<Rightarrow> string \<Rightarrow> point \<Rightarrow> point \<Rightarrow> graph_edge" where
  "upstream_edge stats w name from_pt to_pt = (let s = stats_of stats name in
     \<lparr>ge_id = ''proxy->'' @ name, ge_fromId = PROXY_ID, ge_toId = name, ge_from = from_pt, ge_to = to_pt,
      ge_width = widthForIntensity (intensity s) w, ge_color = colorForStats s,
      ge_opacity = opacityForIntensity (intensity s)\<rparr>)"

definition proxy_position :: "route_snapshot \<Rightarrow> point" where
  "proxy_position routes = nullish (obj_get (computeLayout routes) PROXY_ID) CENTER"

definition placed :: "route_snapshot \<Rightarrow> (string \<times> route_info \<times> point) list" where
  "placed routes = concat (map (\<lambda>(name, info). case obj_get (computeLayout routes) name of
     Some p \<Rightarrow> [(name, info, p)] | None \<Rightarrow> []) (own_entries routes))"

definition graph_nodes :: "route_snapshot \<Rightarrow> edge_stats obj \<Rightarrow> graph_node list" where
  "graph_nodes routes stats = proxy_node (proxy_position routes)
     # map (\<lambda>(name, info, p). upstream_node stats name info p) (placed routes)"

definition graph_edges :: "route_snapshot \<Rightarrow> edge_stats obj \<Rightarrow> window_s \<Rightarrow> graph_edge list" where
  "graph_edges routes stats w =
     map (\<lambda>(name, info, p). upstream_edge stats w name (proxy_position routes) p) (placed routes)"

datatype shape =
    ALine point point color real real
  | ACircle point real color color real
  | AHalo point real color
  | AText point string color real
  | AGlow point real

definition highlighted_opacity :: "string option \<Rightarrow> graph_edge \<Rightarrow> real" where
  "highlighted_opacity hov e =
     (if hov = Some (ge_fromId e) \<or> hov = Some (ge_toId e) then min 1 (ge_opacity e + 25 / 100) else ge_opacity e)"

definition edge_shape :: "string option \<Rightarrow> graph_edge \<Rightarrow> shape" where
  "edge_shape hov e = ALine (ge_from e) (ge_to e) (ge_color e) (ge_width e) (highlighted_opacity hov e)"

definition below :: "point \<Rightarrow> real \<Rightarrow> point" where
  "below p d = p\<lparr>py := py p + d\<rparr>"

definition node_stroke :: "graph_node \<Rightarrow> color" where
  "node_stroke n = (if gn_kind n = KProxy then CAccent else if gn_healthy n then COk else CErr)"

definition node_shapes :: "string option \<Rightarrow> graph_node \<Rightarrow> shape list" where
  "node_shapes hov n = (let p = gn_at n; r = gn_radius n; isProxy = (gn_kind n = KProxy) in
     (if isProxy then [AGlow p 110] else [])
     @ (if hov = Some (gn_id n) then [AHalo p (r + 6) (node_stroke n)] else [])
     @ [ACircle p r (if isProxy then CProxyFill else CNodeFill) (node_stroke n) (if isProxy then 3 else 2),
        AText (below p (if isProxy then 5 else - (r + 10))) (gn_label n) CLabelPrimary (if isProxy then 15 else 13)]
     @ (if \<not> isProxy \<and> nullish (gn_sublabel n) [] \<noteq> []
        then [AText (below p (r + 16)) (nullish (gn_sublabel n) []) CLabelMuted 10] else []))"

definition TrafficGraph :: "string option \<Rightarrow> graph_node list \<Rightarrow> graph_edge list \<Rightarrow> shape list" where
  "TrafficGraph hov nodes edges = map (edge_shape hov) edges @ concat (map (node_shapes hov) nodes)"

section \<open>Lemmas on the layout\<close>

lemma fold_put_nth:
  assumes "distinct names"
  shows "k \<le> length names \<Longrightarrow> j < k \<Longrightarrow> obj_get (fold (\<lambda>i. obj_put (names ! i) (f i)) [0..<k] m) (names ! j) = Some (f j)"
proof (induction k)
  case (Suc k)
  then show ?case using assms by (cases "j = k") (auto simp: update_conv nth_eq_iff_index_eq)
qed simp

lemma fold_put_other:
  "k \<le> length names \<Longrightarrow> x \<notin> set names \<Longrightarrow> obj_get (fold (\<lambda>i. obj_put (names ! i) (f i)) [0..<k] m) x = obj_get m x"
  by (induction k) (auto simp: update_conv)

lemma layout_nth:
  assumes "obj_wf routes" and "i < length routes"
  shows "obj_get (computeLayout routes) (sort (own_keys routes) ! i) = Some (ring_point (length routes) i)"
proof -
  have "distinct (sort (own_keys routes))" using assms(1) by (simp add: distinct_own_keys)
  moreover have "length (own_keys routes) = length routes" by (simp add: own_keys_def)
  ultimately show ?thesis
    using assms(2) by (simp add: computeLayout_def Let_def fold_put_nth)
qed

lemma layout_other:
  "x \<notin> set (own_keys routes) \<Longrightarrow> obj_get (computeLayout routes) x = (if x = PROXY_ID then Some CENTER else None)"
  by (simp add: computeLayout_def Let_def fold_put_other del: set_own_keys)

lemma layout_index:
  assumes "obj_wf routes" and "x \<in> set (own_keys routes)"
  obtains i where "i < length routes" "sort (own_keys routes) ! i = x"
    "obj_get (computeLayout routes) x = Some (ring_point (length routes) i)"
proof -
  have "x \<in> set (sort (own_keys routes))" using assms(2) by simp
  then obtain i where "i < length (sort (own_keys routes))" "sort (own_keys routes) ! i = x" by (metis in_set_conv_nth)
  then show ?thesis using layout_nth [OF assms(1), of i] that [of i] by (simp add: own_keys_def)
qed

lemma ring_distance: "(px (ring_point n i) - px CENTER)\<^sup>2 + (py (ring_point n i) - py CENTER)\<^sup>2 = RING_RADIUS\<^sup>2"
  by (simp add: ring_point_def power_mult_distrib) (simp add: distrib_left [symmetric])

lemma ring_inside:
  "180 \<le> px (ring_point n i) \<and> px (ring_point n i) \<le> 620 \<and> 80 \<le> py (ring_point n i) \<and> py (ring_point n i) \<le> 520"
proof -
  have "- 1 \<le> cos (angle n i)" "cos (angle n i) \<le> 1" "- 1 \<le> sin (angle n i)" "sin (angle n i) \<le> 1" by simp_all
  then show ?thesis
    unfolding ring_point_def CENTER_def VIEW_W_def VIEW_H_def RING_RADIUS_def point.simps by linarith
qed

lemma ring_distinct:
  assumes "i < n" and "j < n" and "ring_point n i = ring_point n j"
  shows "i = j"
proof -
  have "sin (angle n i) = sin (angle n j) \<and> cos (angle n i) = cos (angle n j)"
    using assms(3) by (simp add: ring_point_def RING_RADIUS_def)
  then obtain k :: int where "angle n i = angle n j + 2 * pi * of_int k"
    by (auto simp: sin_cos_eq_iff)
  then have "2 * pi * (real i / real n) = 2 * pi * (real j / real n + of_int k)"
    unfolding angle_def distrib_left by simp
  moreover have "2 * pi \<noteq> 0" by simp
  ultimately have "real i / real n = real j / real n + of_int k"
    using mult_left_cancel [of "2 * pi" "real i / real n" "real j / real n + of_int k"] by blast
  then have "real i = real j + of_int k * real n"
    using assms(1) by (simp add: field_simps)
  then have eq: "int i = int j + k * int n"
    by (metis (mono_tags) of_int_add of_int_eq_iff of_int_mult of_int_of_nat_eq)
  have "int i mod int n = int j mod int n" unfolding eq by simp
  then show ?thesis using assms(1,2) by (simp add: nat_mod_eq_iff flip: of_nat_mod)
qed

lemma width_bounds:
  assumes "0 \<le> x" shows "15 / 10 \<le> widthForIntensity x w \<and> widthForIntensity x w < 14"
proof -
  have "0 < INTENSITY_K w" by (cases w) simp_all
  then obtain e where e: "e = exp (- x / INTENSITY_K w)" "e \<le> 1" "0 < e" using assms by simp
  show ?thesis unfolding widthForIntensity_def e(1) [symmetric] using e(2,3) by (simp add: field_simps)
qed

lemma width_mono: "x \<le> y \<Longrightarrow> widthForIntensity x w \<le> widthForIntensity y w"
  by (cases w) (simp_all add: widthForIntensity_def divide_right_mono)

lemma radius_bounds: "0 \<le> x \<Longrightarrow> 26 \<le> radiusForIntensity x \<and> radiusForIntensity x \<le> 38"
  by (simp add: radiusForIntensity_def)

lemma radius_mono: "0 \<le> x \<Longrightarrow> x \<le> y \<Longrightarrow> radiusForIntensity x \<le> radiusForIntensity y"
  unfolding radiusForIntensity_def by (intro add_left_mono min.mono mult_right_mono) auto

text \<open>Where an upstream is placed.\<close>

definition pos_of :: "route_snapshot \<Rightarrow> string \<Rightarrow> point" where
  "pos_of routes name = the (obj_get (computeLayout routes) name)"

lemma placed_eq:
  assumes "obj_wf routes"
  shows "placed routes = map (\<lambda>(name, info). (name, info, pos_of routes name)) (own_entries routes)"
proof -
  have "(case obj_get (computeLayout routes) name of Some p \<Rightarrow> [(name, info, p)] | None \<Rightarrow> []) = [(name, info, pos_of routes name)]"
    if "(name, info) \<in> set (own_entries routes)" for name info
  proof -
    have "name \<in> set (own_keys routes)" using that by (force simp: own_keys_def)
    then obtain i where "obj_get (computeLayout routes) name = Some (ring_point (length routes) i)"
      using layout_index [OF assms] by blast
    then show ?thesis by (simp add: pos_of_def)
  qed
  then have "map (\<lambda>(name, info). case obj_get (computeLayout routes) name of Some p \<Rightarrow> [(name, info, p)] | None \<Rightarrow> []) (own_entries routes)
      = map (\<lambda>(name, info). [(name, info, pos_of routes name)]) (own_entries routes)"
    by (intro map_cong) auto
  moreover have "concat (map (\<lambda>(name, info). [(name, info, pos_of routes name)]) es) = map (\<lambda>(name, info). (name, info, pos_of routes name)) es" for es
    by (induction es) auto
  ultimately show ?thesis by (simp only: placed_def)
qed

lemma pos_ring:
  assumes "obj_wf routes" and "x \<in> set (own_keys routes)"
  shows "\<exists>i < length routes. pos_of routes x = ring_point (length routes) i \<and> sort (own_keys routes) ! i = x"
  using layout_index [OF assms] by (metis option.sel pos_of_def)

lemma pos_inj:
  assumes "obj_wf routes" shows "inj_on (pos_of routes) (set (own_keys routes))"
proof (rule inj_onI)
  fix x y assume xy: "x \<in> set (own_keys routes)" "y \<in> set (own_keys routes)" "pos_of routes x = pos_of routes y"
  then show "x = y" using pos_ring [OF assms xy(1)] pos_ring [OF assms xy(2)] ring_distinct by metis
qed

lemma ring_not_center: "ring_point n i \<noteq> CENTER"
  using ring_distance [of n i] by (auto simp: RING_RADIUS_def)

lemma stats_of_nonneg:
  "list_all (\<lambda>e. 0 \<le> es_ok (snd e) \<and> 0 \<le> es_err (snd e)) stats \<Longrightarrow> 0 \<le> es_ok (stats_of stats x) \<and> 0 \<le> es_err (stats_of stats x)"
  by (fastforce simp: stats_of_def nullish_def no_stats_def list_all_iff split: option.splits dest: map_of_SomeD)

lemma intensity_nonneg:
  "list_all (\<lambda>e. 0 \<le> es_ok (snd e) \<and> 0 \<le> es_err (snd e)) stats \<Longrightarrow> 0 \<le> intensity (stats_of stats x)"
  using stats_of_nonneg [of stats x] by (simp add: intensity_def)

text \<open>What a shape covers: circles with their strokes, lines with their end points, and of a text its
  anchor and its height.\<close>

definition inside_view :: "point \<Rightarrow> real \<Rightarrow> bool" where
  "inside_view p d \<longleftrightarrow> d \<le> px p \<and> px p + d \<le> VIEW_W \<and> d \<le> py p \<and> py p + d \<le> VIEW_H"

fun shape_inside :: "shape \<Rightarrow> bool" where
  "shape_inside (ALine p q c w o') = (inside_view p 0 \<and> inside_view q 0)"
| "shape_inside (ACircle p r f st sw) = inside_view p (r + sw / 2)"
| "shape_inside (AHalo p r c) = inside_view p (r + 1)"
| "shape_inside (AText p t c z) = (inside_view p 0 \<and> z \<le> py p \<and> py p + z \<le> VIEW_H)"
| "shape_inside (AGlow p r) = inside_view p r"

text \<open>Two nodes whose circles, strokes included, have nothing in common.\<close>

definition apart :: "graph_node \<Rightarrow> graph_node \<Rightarrow> bool" where
  "apart m n \<longleftrightarrow> (gn_radius m + gn_radius n + 3)\<^sup>2
     < (px (gn_at m) - px (gn_at n))\<^sup>2 + (py (gn_at m) - py (gn_at n))\<^sup>2"

lemma cos_pi_8: "cos (pi / 8) < 925 / 1000"
proof -
  have "sqrt 2 < 142 / 100" by (rule real_less_lsqrt) (simp_all add: power2_eq_square)
  then have "cos (2 * (pi / 8)) < 71 / 100" by (simp add: cos_45)
  then have "(cos (pi / 8))\<^sup>2 < (925 / 1000)\<^sup>2" unfolding cos_double_cos by (simp add: power2_eq_square)
  then show ?thesis by (rule power_less_imp_less_base) simp
qed

lemma ring_step:
  assumes "i < n" and "j < i" and "n \<le> 16"
  shows "cos (angle n i - angle n j) < 925 / 1000"
proof -
  define x where "x = 2 * pi * (real (i - j) / real n)"
  have n: "0 < real n" "real n \<le> 16" using assms by auto
  have d: "1 \<le> real (i - j)" "real (i - j) \<le> real n - 1" using assms by (simp_all add: of_nat_diff)
  have "1 / 16 \<le> real (i - j) / real n" using n d by (simp add: field_simps)
  moreover have "real (i - j) / real n \<le> 15 / 16" using n d by (simp add: field_simps)
  ultimately have x: "2 * pi * (1 / 16) \<le> x" "x \<le> 2 * pi * (15 / 16)"
    unfolding x_def by (intro mult_left_mono; simp)+
  have "cos x \<le> cos (pi / 8)"
  proof (cases "x \<le> pi")
    case True
    then show ?thesis using x(1) by (intro cos_monotone_0_pi_le) auto
  next
    case False
    have "cos (2 * pi - x) \<le> cos (pi / 8)" using x False by (intro cos_monotone_0_pi_le) auto
    then show ?thesis by (simp add: cos_diff)
  qed
  moreover have "angle n i - angle n j = x"
    using assms(2) n by (simp add: angle_def x_def of_nat_diff diff_divide_distrib right_diff_distrib)
  ultimately show ?thesis using cos_pi_8 by simp
qed

lemma ring_gap:
  assumes "i < n" and "j < n" and "i \<noteq> j" and "n \<le> 16"
  shows "79\<^sup>2 < (px (ring_point n i) - px (ring_point n j))\<^sup>2 + (py (ring_point n i) - py (ring_point n j))\<^sup>2"
proof -
  let ?a = "angle n i" and ?b = "angle n j"
  have c: "cos (?a - ?b) < 925 / 1000"
  proof (cases "j < i")
    case True
    then show ?thesis using ring_step assms by blast
  next
    case False
    then have "cos (?b - ?a) < 925 / 1000" using ring_step [of j n i] assms by simp
    then show ?thesis by (metis cos_minus minus_diff_eq)
  qed
  have scale: "(220 * a - 220 * b)\<^sup>2 + (220 * c - 220 * d)\<^sup>2 = 220\<^sup>2 * ((a - b)\<^sup>2 + (c - d)\<^sup>2)" for a b c d :: real
    by (simp add: power2_eq_square algebra_simps)
  have "(px (ring_point n i) - px (ring_point n j))\<^sup>2 + (py (ring_point n i) - py (ring_point n j))\<^sup>2
      = 220\<^sup>2 * ((cos ?a - cos ?b)\<^sup>2 + (sin ?a - sin ?b)\<^sup>2)"
    using scale [of "cos ?a" "cos ?b" "sin ?a" "sin ?b"] by (simp add: ring_point_def RING_RADIUS_def)
  also have "(cos ?a - cos ?b)\<^sup>2 + (sin ?a - sin ?b)\<^sup>2
      = ((cos ?a)\<^sup>2 + (sin ?a)\<^sup>2) + ((cos ?b)\<^sup>2 + (sin ?b)\<^sup>2) - 2 * cos (?a - ?b)"
    unfolding cos_diff by (simp add: power2_diff del: sin_cos_squared_add sin_cos_squared_add2)
  also have "\<dots> = 2 - 2 * cos (?a - ?b)" by simp
  finally show ?thesis using c by simp
qed

lemma radii_apart:
  assumes "0 \<le> r" and "r \<le> R" and "(R + 3)\<^sup>2 < D" shows "(r + 3)\<^sup>2 < (D :: real)"
proof -
  have "(r + 3)\<^sup>2 \<le> (R + 3)\<^sup>2" using assms by (intro power_mono) auto
  then show ?thesis using assms(3) by simp
qed

lemma apart_by_bound:
  assumes "0 \<le> gn_radius m + gn_radius n" and "gn_radius m + gn_radius n \<le> R"
    and "(R + 3)\<^sup>2 < (px (gn_at m) - px (gn_at n))\<^sup>2 + (py (gn_at m) - py (gn_at n))\<^sup>2"
  shows "apart m n"
  unfolding apart_def by (rule radii_apart [OF assms])

lemma distinct_pairs: "distinct (map fst es) \<Longrightarrow> sorted_wrt (\<lambda>a b. fst a \<noteq> fst b) es"
  by (induction es) auto

lemma upstream_shapes:
  assumes "180 \<le> px (gn_at n) \<and> px (gn_at n) \<le> 620 \<and> 80 \<le> py (gn_at n) \<and> py (gn_at n) \<le> 520"
    and "26 \<le> gn_radius n \<and> gn_radius n \<le> 38" and "gn_kind n = KUpstream"
  shows "list_all shape_inside (node_shapes hov n)"
  using assms by (auto simp: node_shapes_def below_def inside_view_def VIEW_W_def VIEW_H_def Let_def)

lemma scene_inside:
  "list_all shape_inside (TrafficGraph hov nodes edges) \<longleftrightarrow>
     list_all (\<lambda>e. shape_inside (edge_shape hov e)) edges
     \<and> list_all (\<lambda>n. list_all shape_inside (node_shapes hov n)) nodes"
  by (auto simp: TrafficGraph_def list_all_iff)

lemma proxy_shapes: "list_all shape_inside (node_shapes hov (proxy_node CENTER))"
  by (simp add: node_shapes_def proxy_node_def below_def inside_view_def CENTER_def VIEW_W_def VIEW_H_def Let_def)

lemma upstreams_apart:
  assumes "obj_wf routes" and "list_all (\<lambda>e. 0 \<le> es_ok (snd e) \<and> 0 \<le> es_err (snd e)) stats" and n: "length routes \<le> 16"
    and x: "x \<in> set (own_keys routes)" and y: "y \<in> set (own_keys routes)" and xy: "x \<noteq> y"
  shows "apart (upstream_node stats x i (pos_of routes x)) (upstream_node stats y j (pos_of routes y))"
proof -
  obtain k where k: "k < length routes" "pos_of routes x = ring_point (length routes) k" "sort (own_keys routes) ! k = x"
    using pos_ring [OF assms(1) x] by blast
  obtain l where l: "l < length routes" "pos_of routes y = ring_point (length routes) l" "sort (own_keys routes) ! l = y"
    using pos_ring [OF assms(1) y] by blast
  have "k \<noteq> l" using k l xy by auto
  then have gap: "(76 + 3)\<^sup>2 < (px (pos_of routes x) - px (pos_of routes y))\<^sup>2 + (py (pos_of routes x) - py (pos_of routes y))\<^sup>2"
    using ring_gap [of k "length routes" l] k(1,2) l(1,2) n by (simp only: k(2) l(2)) simp
  have r: "26 \<le> radiusForIntensity (intensity (stats_of stats z)) \<and> radiusForIntensity (intensity (stats_of stats z)) \<le> 38" for z
    by (rule radius_bounds [OF intensity_nonneg [OF assms(2)]])
  show ?thesis
  proof (rule apart_by_bound [where R = 76])
    show "0 \<le> gn_radius (upstream_node stats x i (pos_of routes x)) + gn_radius (upstream_node stats y j (pos_of routes y))"
      "gn_radius (upstream_node stats x i (pos_of routes x)) + gn_radius (upstream_node stats y j (pos_of routes y)) \<le> 76"
      using r [of x] r [of y] unfolding upstream_node_def graph_node.simps by linarith+
    show "(76 + 3)\<^sup>2 < (px (gn_at (upstream_node stats x i (pos_of routes x))) - px (gn_at (upstream_node stats y j (pos_of routes y))))\<^sup>2
        + (py (gn_at (upstream_node stats x i (pos_of routes x))) - py (gn_at (upstream_node stats y j (pos_of routes y))))\<^sup>2"
      using gap unfolding upstream_node_def graph_node.simps .
  qed
qed

lemma nodes_apart:
  assumes wf: "obj_wf routes" and "PROXY_ID \<notin> set (own_keys routes)"
    and st: "list_all (\<lambda>e. 0 \<le> es_ok (snd e) \<and> 0 \<le> es_err (snd e)) stats" and n: "length routes \<le> 16"
  shows "sorted_wrt apart (proxy_node CENTER # map (\<lambda>(name, info). upstream_node stats name info (pos_of routes name)) (own_entries routes))"
proof -
  have "apart (proxy_node CENTER) (upstream_node stats x i (pos_of routes x))" if x: "x \<in> set (own_keys routes)" for x i
  proof -
    obtain k where "pos_of routes x = ring_point (length routes) k" using pos_ring [OF wf x] by blast
    then have gap: "(84 + 3)\<^sup>2 < (px CENTER - px (pos_of routes x))\<^sup>2 + (py CENTER - py (pos_of routes x))\<^sup>2"
      using ring_distance [of "length routes" k] by (simp add: power2_commute RING_RADIUS_def)
    have r: "26 \<le> radiusForIntensity (intensity (stats_of stats x)) \<and> radiusForIntensity (intensity (stats_of stats x)) \<le> 38"
      by (rule radius_bounds [OF intensity_nonneg [OF st]])
    show ?thesis
    proof (rule apart_by_bound [where R = 84])
      show "0 \<le> gn_radius (proxy_node CENTER) + gn_radius (upstream_node stats x i (pos_of routes x))"
        "gn_radius (proxy_node CENTER) + gn_radius (upstream_node stats x i (pos_of routes x)) \<le> 84"
        using r unfolding upstream_node_def proxy_node_def graph_node.simps by linarith+
      show "(84 + 3)\<^sup>2 < (px (gn_at (proxy_node CENTER)) - px (gn_at (upstream_node stats x i (pos_of routes x))))\<^sup>2
          + (py (gn_at (proxy_node CENTER)) - py (gn_at (upstream_node stats x i (pos_of routes x))))\<^sup>2"
        using gap unfolding upstream_node_def proxy_node_def graph_node.simps .
    qed
  qed
  moreover have "sorted_wrt (\<lambda>a b. fst a \<noteq> fst b) (own_entries routes)"
    using distinct_own_keys [OF wf] by (intro distinct_pairs) (simp add: own_keys_def)
  then have "sorted_wrt (\<lambda>a b. apart ((\<lambda>(name, info). upstream_node stats name info (pos_of routes name)) a)
       ((\<lambda>(name, info). upstream_node stats name info (pos_of routes name)) b)) (own_entries routes)"
  proof (rule sorted_wrt_mono_rel [rotated])
    fix a b assume "a \<in> set (own_entries routes)" "b \<in> set (own_entries routes)" "fst a \<noteq> fst b"
    then show "apart ((\<lambda>(name, info). upstream_node stats name info (pos_of routes name)) a)
       ((\<lambda>(name, info). upstream_node stats name info (pos_of routes name)) b)"
      using upstreams_apart [OF wf st n, of "fst a" "fst b" "snd a" "snd b"]
      by (simp add: own_keys_def case_prod_unfold)
  qed
  ultimately show ?thesis by (simp add: sorted_wrt_map own_keys_def case_prod_unfold)
qed

section \<open>Properties\<close>



text \<open>An upstream that is called like the proxy's node takes its place: the proxy is drawn on the ring, on top of
  that upstream, and the centre is empty.\<close>

theorem proxy_displaced:
  assumes "obj_wf routes" and "PROXY_ID \<in> set (own_keys routes)"
  shows "proxy_position routes \<noteq> CENTER \<and> proxy_position routes = pos_of routes PROXY_ID
    \<and> \<not> distinct (map gn_at (graph_nodes routes stats))"
proof -
  obtain i where i: "obj_get (computeLayout routes) PROXY_ID = Some (ring_point (length routes) i)"
    using layout_index [OF assms] by blast
  then have pos: "proxy_position routes = ring_point (length routes) i" "pos_of routes PROXY_ID = ring_point (length routes) i"
    by (simp_all add: proxy_position_def pos_of_def nullish_def)
  obtain info where "(PROXY_ID, info) \<in> set (own_entries routes)" using assms(2) by (auto simp: own_keys_def)
  then have "proxy_position routes \<in> set (map gn_at (tl (graph_nodes routes stats)))"
    using pos by (force simp: graph_nodes_def placed_eq [OF assms(1)] upstream_node_def image_iff)
  then have "\<not> distinct (map gn_at (graph_nodes routes stats))"
    by (simp add: graph_nodes_def proxy_node_def)
  then show ?thesis using pos ring_not_center by simp
qed

theorem proxy_displaced_witness:
  "proxy_position [(PROXY_ID, some_route)] \<noteq> CENTER"
proof -
  have "PROXY_ID \<in> set (own_keys [(PROXY_ID, some_route)])" "obj_wf [(PROXY_ID, some_route)]" by (simp_all add: obj_wf_def)
  then show ?thesis using proxy_displaced by blast
qed

end
