(* ===== verification/Sse.thy ===== *)
theory Sse
  imports ApiClient
begin

text \<open>
  \<open>frontend/src/api/sse.ts\<close>: the server-sent-events consumer behind the Traffic, Overview and Graph
  pages. The generator is a machine over the decoded chunks of the response body: its state is the
  text buffered so far, a chunk is appended to it, and every complete block (up to a blank line) is
  taken off the front and turned into at most one event. The chunks are the strings that
  \<open>TextDecoder.decode\<close> returns; where they are cut is up to the network.

  The other end of the stream is \<open>event_source\<close> in \<open>server.py\<close>; \<open>server_frame\<close> is what it yields.
\<close>

section \<open>Connecting\<close>

definition stream_request :: "local_storage \<Rightarrow> http_request" where
  "stream_request ls = \<lparr>rq_method = GET, rq_path = ''/admin/api/traffic/stream'',
     rq_headers = (''Accept'', ''text/event-stream'') # authHeaders ls,
     rq_credentials = False, rq_body = None\<rparr>"

text \<open>\<open>None\<close> when the stream is open; otherwise what the generator throws.\<close>

definition stream_connect :: "fetch_result \<Rightarrow> js_error option" where
  "stream_connect r = (case r of
      Rejected m \<Rightarrow> Some (PlainErr m)
    | Answered res \<Rightarrow>
        if \<not> rs_ok res \<or> rs_body res = None
        then Some (PlainErr (''SSE connect failed: '' @ show_int (rs_status res))) else None)"

section \<open>Blocks\<close>

datatype sse_event = Snapshot "json list" | Record json

text \<open>\<open>buffer.indexOf("\n\n")\<close> with the text before it and the text after it.\<close>

fun split_blank :: "string \<Rightarrow> (string \<times> string) option" where
  "split_blank [] = None"
| "split_blank [c] = None"
| "split_blank (c # d # cs) =
     (if c = CHR 0x0A \<and> d = CHR 0x0A then Some ([], cs)
      else (case split_blank (d # cs) of None \<Rightarrow> None | Some (b, r) \<Rightarrow> Some (c # b, r)))"

definition sse_line :: "string \<Rightarrow> string \<times> string \<Rightarrow> string \<times> string" where
  "sse_line line st = (case st of (currentEvent, dataLine) \<Rightarrow>
     if starts_with '':'' line then (currentEvent, dataLine)
     else if starts_with ''event:'' line then (js_trim (drop 6 line), dataLine)
     else if starts_with ''data:'' line then (currentEvent, dataLine @ js_trim (drop 5 line))
     else (currentEvent, dataLine))"

definition sse_dispatch :: "string \<Rightarrow> json \<Rightarrow> sse_event" where
  "sse_dispatch currentEvent parsed =
     (if currentEvent = ''snapshot'' then
        (case json_get parsed ''items'' of Some (JArr items) \<Rightarrow> Snapshot items | _ \<Rightarrow> Record parsed)
      else Record parsed)"

definition sse_block :: "string \<Rightarrow> sse_event option" where
  "sse_block block =
     (let (currentEvent, dataLine) = fold sse_line (split_char (CHR 0x0A) block) (''message'', [])
      in if dataLine = [] then None
         else map_option (sse_dispatch currentEvent) (json_parse dataLine))"

section \<open>The loop\<close>

lemma split_blank_shorter: "split_blank s = Some (b, r) \<Longrightarrow> length r < length s"
proof (induction s arbitrary: b r rule: split_blank.induct)
  case (3 c d cs)
  show ?case
  proof (cases "c = CHR 0x0A \<and> d = CHR 0x0A")
    case True
    then show ?thesis using "3.prems" by simp
  next
    case False
    then obtain b' where "split_blank (d # cs) = Some (b', r)"
      using "3.prems" by (auto split: option.splits)
    from "3.IH" [OF False this] show ?thesis by simp
  qed
qed simp_all

function drain :: "string \<Rightarrow> sse_event list \<times> string" where
  "drain buffer = (case split_blank buffer of
      None \<Rightarrow> ([], buffer)
    | Some (block, rest) \<Rightarrow>
        (case drain rest of (evs, left) \<Rightarrow>
          (case sse_block block of None \<Rightarrow> (evs, left) | Some e \<Rightarrow> (e # evs, left))))"
  by pat_completeness auto
termination
  by (relation "measure length") (auto dest: split_blank_shorter)

declare drain.simps [simp del]

text \<open>One \<open>reader.read()\<close> that returns a chunk.\<close>

definition feed :: "string \<Rightarrow> string \<Rightarrow> sse_event list \<times> string" where
  "feed buffer chunk = drain (buffer @ chunk)"

fun subscribeTraffic :: "string \<Rightarrow> string list \<Rightarrow> sse_event list \<times> string" where
  "subscribeTraffic buffer [] = ([], buffer)"
| "subscribeTraffic buffer (chunk # chunks) =
     (let (evs, buffer') = feed buffer chunk; (evs', buffer'') = subscribeTraffic buffer' chunks
      in (evs @ evs', buffer''))"

section \<open>Where the chunks are cut does not matter\<close>

lemma split_blank_append: "split_blank s = Some (b, r) \<Longrightarrow> split_blank (s @ t) = Some (b, r @ t)"
  by (induction s arbitrary: b r rule: split_blank.induct) (auto split: if_splits option.splits)

lemma drain_None: "split_blank s = None \<Longrightarrow> drain s = ([], s)"
  by (simp add: drain.simps)

lemma drain_Some:
  "split_blank s = Some (b, r) \<Longrightarrow>
   drain s = (case_option [] (\<lambda>e. [e]) (sse_block b) @ fst (drain r), snd (drain r))"
  by (subst drain.simps) (simp split: option.splits prod.splits)

lemma drain_append:
  "drain (s @ t) = (fst (drain s) @ fst (drain (snd (drain s) @ t)), snd (drain (snd (drain s) @ t)))"
proof (induction s rule: drain.induct)
  case (1 s)
  show ?case
  proof (cases "split_blank s")
    case None
    then show ?thesis by (simp add: drain_None)
  next
    case (Some p)
    obtain b r where p: "split_blank s = Some (b, r)" using Some by (cases p) auto
    have "drain (r @ t) = (fst (drain r) @ fst (drain (snd (drain r) @ t)), snd (drain (snd (drain r) @ t)))"
      using 1 [of "(b, r)" b r] p by blast
    then show ?thesis
      using drain_Some [OF p] drain_Some [OF split_blank_append [OF p, of t]] by simp
  qed
qed

lemma drain_left: "split_blank (snd (drain s)) = None"
proof (induction s rule: drain.induct)
  case (1 s)
  show ?case
  proof (cases "split_blank s")
    case None
    then show ?thesis by (simp add: drain_None)
  next
    case (Some p)
    then obtain b r where p: "split_blank s = Some (b, r)" by (cases p) auto
    then show ?thesis using 1 drain_Some [OF p] by auto
  qed
qed

lemma subscribe_drain:
  "split_blank buffer = None \<Longrightarrow> subscribeTraffic buffer chunks = drain (buffer @ concat chunks)"
proof (induction chunks arbitrary: buffer)
  case Nil
  then show ?case by (simp add: drain_None)
next
  case (Cons c cs)
  have "subscribeTraffic (snd (drain (buffer @ c))) cs = drain (snd (drain (buffer @ c)) @ concat cs)"
    by (rule Cons.IH [OF drain_left])
  then show ?case
    using drain_append [of "buffer @ c" "concat cs"]
    by (simp add: feed_def case_prod_unfold Let_def)
qed

section \<open>The server's frames\<close>

datatype server_frame = FSnapshot "json list" | FHeartbeat | FRecord "(string \<times> json) list"

text \<open>Python's \<open>json.dumps\<close>: \<open>", "\<close> and \<open>": "\<close> as separators and every code unit outside the
  printable ASCII range escaped. Numbers are written as \<open>show_dec\<close> writes them; Python writes a
  float that is an integer as \<open>5.0\<close>, which reads back as the same number.\<close>

definition python_style :: json_style where
  "python_style = \<lparr>st_open = (\<lambda>d. []), st_sep = (\<lambda>d. '' ''), st_close = (\<lambda>d. []), st_colon = '' '',
     st_num = show_dec, st_esc = (\<lambda>c. 127 \<le> (of_char c :: nat))\<rparr>"

definition json_dumps :: "json \<Rightarrow> string" where
  "json_dumps j = jwrite python_style 0 j"

fun frame_text :: "server_frame \<Rightarrow> string" where
  "frame_text (FSnapshot items) = ''event: snapshot'' @ [CHR 0x0A] @ ''data: ''
     @ json_dumps (JObj [(''items'', JArr items)]) @ [CHR 0x0A, CHR 0x0A]"
| "frame_text FHeartbeat = '': heartbeat'' @ [CHR 0x0A, CHR 0x0A]"
| "frame_text (FRecord es) = ''data: '' @ json_dumps (JObj es) @ [CHR 0x0A, CHR 0x0A]"

fun frame_event :: "server_frame \<Rightarrow> sse_event option" where
  "frame_event (FSnapshot items) = Some (Snapshot items)"
| "frame_event FHeartbeat = None"
| "frame_event (FRecord es) = Some (Record (JObj es))"

fun frame_wf :: "server_frame \<Rightarrow> bool" where
  "frame_wf (FSnapshot items) = json_wf_list items"
| "frame_wf FHeartbeat = True"
| "frame_wf (FRecord es) = json_wf (JObj es)"

interpretation python: json_writer python_style
  by unfold_locales
    (auto simp: python_style_def json_ws_def parse_num_show_dec show_dec_chars num_start_show_dec)

lemma parse_dumps: "json_wf j \<Longrightarrow> json_parse (json_dumps j) = Some j"
  unfolding json_dumps_def by (rule python.parse_write)

section \<open>The client reads what the server writes\<close>

definition graphic :: "char \<Rightarrow> bool" where
  "graphic c \<longleftrightarrow> 32 \<le> (of_char c :: nat)"

lemma graphic_no_newline: "graphic c \<Longrightarrow> c \<noteq> CHR 0x0A"
  by (auto simp: graphic_def)

lemma num_char_graphic: "is_num_char c \<Longrightarrow> graphic c"
  by (auto simp: is_num_char_def is_digit_def graphic_def Let_def)

lemma hex_digit_graphic: "d < 16 \<Longrightarrow> graphic (hex_digit d)"
  by (auto simp: hex_digit_def graphic_def of_char_of)

lemma escape_char_graphic: "\<forall>x \<in> set (escape_char sty c). graphic x"
proof (cases "short_escape c")
  case None
  have "of_char c div 16 < (16 :: nat)"
    using nat_of_char_less_256 [of c] less_mult_imp_div_less [of "of_char c :: nat" 16 16] by simp
  with None show ?thesis
    by (auto simp: escape_char_def Let_def hex_digit_graphic) (auto simp: graphic_def)
next
  case (Some x)
  then have "graphic x" by (auto simp: short_escape_def graphic_def split: if_splits)
  with Some show ?thesis by (auto simp: escape_char_def graphic_def)
qed

lemma quote_graphic: "\<forall>x \<in> set (quote sty s). graphic x"
  using escape_char_graphic by (auto simp: quote_def graphic_def)

lemma dumps_graphic:
  "\<forall>x \<in> set (jwrite python_style d j). graphic x"
  "\<forall>x \<in> set (jwrite_items python_style d xs). graphic x"
  "\<forall>x \<in> set (jwrite_ents python_style d es). graphic x"
proof (induction j and xs and es arbitrary: d and d and d rule: toks_toks_items_toks_ents.induct)
  case (3 n)
  then show ?case using show_dec_chars by (auto simp: python_style_def intro: num_char_graphic)
next
  case (4 s)
  then show ?case using quote_graphic by simp
next
  case (10 e es)
  then show ?case using quote_graphic by (auto simp: python_style_def graphic_def)
qed (auto simp: python_style_def graphic_def)

lemma split_blank_line:
  "\<forall>c \<in> set b. graphic c \<Longrightarrow> split_blank (b @ CHR 0x0A # CHR 0x0A # r) = Some (b, r)"
proof (induction b)
  case Nil
  then show ?case by simp
next
  case (Cons c b)
  obtain x xs where x: "b @ CHR 0x0A # CHR 0x0A # r = x # xs" by (cases "b @ CHR 0x0A # CHR 0x0A # r") auto
  with Cons show ?case by (simp add: graphic_no_newline)
qed

lemma split_blank_two_lines:
  "\<forall>c \<in> set a. graphic c \<Longrightarrow> \<forall>c \<in> set b. graphic c \<Longrightarrow> b \<noteq> [] \<Longrightarrow>
   split_blank (a @ CHR 0x0A # b @ CHR 0x0A # CHR 0x0A # r) = Some (a @ CHR 0x0A # b, r)"
proof (induction a)
  case Nil
  obtain y b' where b: "b = y # b'" using Nil by (cases b) auto
  have "split_blank (b @ CHR 0x0A # CHR 0x0A # r) = Some (b, r)" by (rule split_blank_line [OF Nil(2)])
  then show ?case using Nil(2) b by (simp add: graphic_no_newline)
next
  case (Cons c a)
  then show ?case
    by (cases "a @ CHR 0x0A # b @ CHR 0x0A # CHR 0x0A # r") (auto simp: graphic_no_newline)
qed

lemma js_trim_frame: "\<not> js_ws c \<Longrightarrow> \<not> js_ws d \<Longrightarrow> js_trim (w @ c # s @ [d]) = c # s @ [d]"
  if "\<forall>x \<in> set w. js_ws x"
  using that by (simp add: js_trim_def dropWhile_append2)

lemma dumps_obj_ends:
  "\<exists>s. json_dumps (JObj es) = CHR ''{'' # s @ [CHR ''}'']"
  by (auto simp: json_dumps_def python_style_def)

lemma trim_dumps: "js_trim ('' '' @ json_dumps (JObj es)) = json_dumps (JObj es)"
proof -
  obtain s where "json_dumps (JObj es) = CHR ''{'' # s @ [CHR ''}'']"
    using dumps_obj_ends by blast
  moreover have "js_trim ('' '' @ CHR ''{'' # s @ [CHR ''}'']) = CHR ''{'' # s @ [CHR ''}'']"
    by (rule js_trim_frame) (auto simp: js_ws_def)
  ultimately show ?thesis by simp
qed

lemma split_newline_graphic: "\<forall>c \<in> set w. graphic c \<Longrightarrow> split_char (CHR 0x0A) w = [w]"
  by (rule split_char_single) (auto dest: graphic_no_newline)

lemma sse_data_line:
  "sse_line (''data: '' @ json_dumps (JObj es)) (ev, []) = (ev, json_dumps (JObj es))"
  using trim_dumps [of es] by (simp add: sse_line_def starts_with_def)

lemma dumps_neq_Nil: "json_dumps (JObj es) \<noteq> []"
  using dumps_obj_ends [of es] by auto

lemma block_record:
  assumes "json_wf (JObj es)"
  shows "sse_block (''data: '' @ json_dumps (JObj es)) = Some (Record (JObj es))"
proof -
  have "split_char (CHR 0x0A) (''data: '' @ json_dumps (JObj es)) = [''data: '' @ json_dumps (JObj es)]"
    using dumps_graphic(1) [of 0 "JObj es"]
    by (intro split_newline_graphic) (auto simp: json_dumps_def graphic_def)
  then show ?thesis
    using parse_dumps [OF assms] sse_data_line [of es "''message''"] dumps_neq_Nil [of es]
    unfolding sse_block_def by (simp del: split_char.simps add: sse_dispatch_def)
qed

lemma block_snapshot:
  assumes "json_wf_list items"
  shows "sse_block (''event: snapshot'' @ [CHR 0x0A] @ ''data: '' @ json_dumps (JObj [(''items'', JArr items)]))
    = Some (Snapshot items)"
proof -
  let ?J = "json_dumps (JObj [(''items'', JArr items)])"
  have "split_char (CHR 0x0A) (''data: '' @ ?J) = [''data: '' @ ?J]"
    using dumps_graphic(1) [of 0 "JObj [(''items'', JArr items)]"]
    by (intro split_newline_graphic) (auto simp: json_dumps_def graphic_def)
  then have "split_char (CHR 0x0A) (''event: snapshot'' @ [CHR 0x0A] @ ''data: '' @ ?J)
      = [''event: snapshot'', ''data: '' @ ?J]"
    using split_char_append_sep [of "CHR 0x0A" "''event: snapshot''" "''data: '' @ ?J"] by simp
  moreover have "sse_line ''event: snapshot'' (''message'', []) = (''snapshot'', [])"
    by code_simp
  moreover have "json_parse ?J = Some (JObj [(''items'', JArr items)])"
    by (rule parse_dumps) (use assms in simp)
  ultimately show ?thesis
    using sse_data_line [of "[(''items'', JArr items)]" "''snapshot''"] dumps_neq_Nil
    unfolding sse_block_def by (simp del: split_char.simps add: sse_dispatch_def)
qed

lemma drain_frame:
  assumes "frame_wf f"
  shows "drain (frame_text f @ r) =
    (case_option [] (\<lambda>e. [e]) (frame_event f) @ fst (drain r), snd (drain r))"
proof (cases f)
  case (FSnapshot items)
  let ?J = "json_dumps (JObj [(''items'', JArr items)])"
  have "split_blank (''event: snapshot'' @ CHR 0x0A # (''data: '' @ ?J) @ CHR 0x0A # CHR 0x0A # r)
      = Some (''event: snapshot'' @ CHR 0x0A # (''data: '' @ ?J), r)"
    using dumps_graphic(1) [of 0 "JObj [(''items'', JArr items)]"]
    by (intro split_blank_two_lines) (auto simp: json_dumps_def graphic_def)
  from drain_Some [OF this] show ?thesis
    using assms FSnapshot block_snapshot [of items] by simp
next
  case FHeartbeat
  have "split_blank ('': heartbeat'' @ CHR 0x0A # CHR 0x0A # r) = Some ('': heartbeat'', r)"
    by (rule split_blank_line) (simp add: graphic_def)
  moreover have "sse_block '': heartbeat'' = None" by code_simp
  ultimately show ?thesis using drain_Some FHeartbeat by simp
next
  case (FRecord es)
  have "split_blank ((''data: '' @ json_dumps (JObj es)) @ CHR 0x0A # CHR 0x0A # r)
      = Some (''data: '' @ json_dumps (JObj es), r)"
    using dumps_graphic(1) [of 0 "JObj es"]
    by (intro split_blank_line) (auto simp: json_dumps_def graphic_def)
  from drain_Some [OF this] show ?thesis
    using assms FRecord block_record [of es] by simp
qed

lemma drain_frames:
  "\<forall>f \<in> set fs. frame_wf f \<Longrightarrow>
   drain (concat (map frame_text fs)) = (List.map_filter frame_event fs, [])"
proof (induction fs)
  case Nil
  then show ?case by (simp add: drain_None)
next
  case (Cons f fs)
  then show ?case
    using drain_frame [of f "concat (map frame_text fs)"]
    by (simp add: map_filter_simps split: option.splits)
qed

lemma frames_read_back:
  assumes "\<forall>f \<in> set fs. frame_wf f" and "concat chunks = concat (map frame_text fs)"
  shows "subscribeTraffic [] chunks = (List.map_filter frame_event fs, [])"
  using drain_frames [OF assms(1)] assms(2) by (simp add: subscribe_drain)

section \<open>Properties\<close>

text \<open>C5: How the network cuts the stream into chunks does not matter: two sequences of chunks that carry the
  same text deliver the same events in the same order, and leave the same unfinished block buffered.\<close>

theorem chunking_irrelevant:
  assumes "concat chunks = concat chunks'"
  shows "subscribeTraffic [] chunks = subscribeTraffic [] chunks'"
  using assms by (simp add: subscribe_drain)

theorem chunking_irrelevant_witness:
  "subscribeTraffic [] [''da'', ''ta: {}'' @ [CHR 0x0A], [CHR 0x0A]] = subscribeTraffic [] [''data: {}'' @ [CHR 0x0A, CHR 0x0A]]
   \<and> fst (subscribeTraffic [] [''data: {}'' @ [CHR 0x0A, CHR 0x0A]]) = [Record (JObj [])]"
proof -
  have "fst (subscribeTraffic [] [''data: {}'' @ [CHR 0x0A, CHR 0x0A]]) = [Record (JObj [])]" by code_simp
  moreover have "subscribeTraffic [] [''da'', ''ta: {}'' @ [CHR 0x0A], [CHR 0x0A]]
      = subscribeTraffic [] [''data: {}'' @ [CHR 0x0A, CHR 0x0A]]"
    by (rule chunking_irrelevant) simp
  ultimately show ?thesis by (rule conjI [rotated])
qed

text \<open>C6: The dashboard receives exactly what the proxy publishes: however the stream is cut, the frames that
  the server's \<open>event_source\<close> writes (the snapshot, one frame per traffic record, heartbeats) are read
  back as the snapshot's items and the records, in order and with nothing left over; heartbeats
  deliver nothing. Strings may contain any character, line breaks included.\<close>

theorem stream_round_trip:
  assumes "\<forall>f \<in> set fs. frame_wf f" and "concat chunks = concat (map frame_text fs)"
  shows "subscribeTraffic [] chunks = (List.map_filter frame_event fs, [])"
  using assms by (rule frames_read_back)

definition sample_frames :: "server_frame list" where
  "sample_frames = [FSnapshot [JNull], FHeartbeat, FRecord [(''upstream'', JStr [CHR 0x0A, CHR ''a''])]]"

theorem stream_round_trip_witness:
  "subscribeTraffic [] (map (\<lambda>c. [c]) (concat (map frame_text sample_frames)))
     = ([Snapshot [JNull], Record (JObj [(''upstream'', JStr [CHR 0x0A, CHR ''a''])])], [])"
proof -
  have "\<forall>f \<in> set sample_frames. frame_wf f" by (simp add: sample_frames_def)
  moreover have "concat (map (\<lambda>c. [c]) xs) = xs" for xs :: string by (induction xs) simp_all
  ultimately have "subscribeTraffic [] (map (\<lambda>c. [c]) (concat (map frame_text sample_frames)))
      = (List.map_filter frame_event sample_frames, [])"
    by (intro stream_round_trip)
  then show ?thesis by (simp add: sample_frames_def map_filter_simps)
qed

end
