(* ===== verification/TrafficPage.thy ===== *)
theory TrafficPage
  imports Sse View Numbers
begin

text \<open>
  \<open>frontend/src/pages/Traffic.tsx\<close>, the table of live traffic, with the other end of its stream: the
  ring buffer and the subscriber queue of \<open>observability/traffic.py\<close> and the order in which
  \<open>server.py\<close> subscribes and takes the snapshot. The page casts the events of the stream to typed
  records without checking them (\<open>stream_event\<close>); \<open>cast\<close> stands for that cast.
\<close>

section \<open>State\<close>

datatype stream_event = SnapshotOf "traffic_record list" | RecordOf traffic_record

fun typed_event :: "(json \<Rightarrow> traffic_record) \<Rightarrow> sse_event \<Rightarrow> stream_event" where
  "typed_event cast (Snapshot items) = SnapshotOf (map cast items)"
| "typed_event cast (Record r) = RecordOf (cast r)"

record traffic_page =
  tp_records :: "traffic_record list"
  tp_paused :: bool
  tp_upstream :: string
  tp_method :: string
  tp_status :: string
  tp_loading :: bool

definition STATUS_OPTIONS :: "string list" where
  "STATUS_OPTIONS = ['''', ''ok'', ''error'', ''timeout'', ''denied'']"

text \<open>The mount effect asks for the first 200 records and subscribes to the stream.\<close>

definition traffic_init :: traffic_page where
  "traffic_init = \<lparr>tp_records = [], tp_paused = False, tp_upstream = [], tp_method = [], tp_status = [],
     tp_loading = True\<rparr>"

section \<open>Handlers\<close>

definition MAX_ROWS :: nat where
  "MAX_ROWS = 500"

definition stream_records :: "stream_event \<Rightarrow> traffic_record list \<Rightarrow> traffic_record list" where
  "stream_records evt prev = (case evt of
      SnapshotOf items \<Rightarrow> items
    | RecordOf r \<Rightarrow> take MAX_ROWS (r # prev))"

definition on_stream :: "stream_event \<Rightarrow> traffic_page \<Rightarrow> traffic_page" where
  "on_stream evt s = (if tp_paused s then s else s\<lparr>tp_records := stream_records evt (tp_records s)\<rparr>)"

definition traffic_loaded :: "js_error + traffic_list_response \<Rightarrow> traffic_page \<Rightarrow> traffic_page" where
  "traffic_loaded r s = (case r of
      Inr v \<Rightarrow> s\<lparr>tp_records := tlr_items v, tp_loading := False\<rparr>
    | Inl e \<Rightarrow> s\<lparr>tp_loading := False\<rparr>)"

definition row_shown :: "string \<Rightarrow> string \<Rightarrow> string \<Rightarrow> traffic_record \<Rightarrow> bool" where
  "row_shown upstreamFilter methodFilter statusFilter r =
     (if upstreamFilter \<noteq> [] \<and> tr_upstream r \<noteq> upstreamFilter then False
      else if methodFilter \<noteq> [] \<and> \<not> str_includes (nullish (tr_method r) []) methodFilter then False
      else if statusFilter \<noteq> [] \<and> status_text (tr_status r) \<noteq> statusFilter then False
      else True)"

definition rows :: "traffic_page \<Rightarrow> traffic_record list" where
  "rows s = filter (row_shown (tp_upstream s) (tp_method s) (tp_status s)) (tp_records s)"

definition uniqueUpstreams :: "traffic_record list \<Rightarrow> string list" where
  "uniqueUpstreams rs = sort (remdups (map tr_upstream rs))"

section \<open>What is shown\<close>

datatype tp_btn = BtnPause | BtnClear
datatype tp_field = FUpstream | FMethod | FStatus

definition traffic_row :: "formats \<Rightarrow> traffic_record \<Rightarrow> (tp_btn, tp_field) view" where
  "traffic_row fm r = Box [
     Txt (fm_time fm (tr_timestamp r * 1000)), Txt (tr_upstream r), Txt (nullish (tr_method r) ''-''),
     StatusBadge (status_text (tr_status r)), Txt (to_fixed 1 (tr_latency_ms r) @ '' ms''),
     Txt (show_int (tr_request_bytes r) @ ''/'' @ show_int (tr_response_bytes r)),
     Txt (nullish (tr_error_code r) [])]"

definition traffic_view :: "formats \<Rightarrow> traffic_page \<Rightarrow> (tp_btn, tp_field) view" where
  "traffic_view fm s = Box [
     Txt ''Live traffic'', Txt ''Streaming from /admin/api/traffic/stream'',
     Button BtnPause False [Txt (if tp_paused s then ''Resume'' else ''Pause'')],
     Button BtnClear False [Txt ''Clear''],
     SectionCard (show_nat (length (rows s)) @ '' events'')
       (Box [Choice FUpstream False (tp_upstream s) ([] # uniqueUpstreams (tp_records s)),
             Input FMethod False (tp_method s),
             Choice FStatus False (tp_status s) STATUS_OPTIONS])
       [Box (map Txt [''Time'', ''Upstream'', ''Method'', ''Status'', ''Latency'', ''In / Out'', ''Error'']),
        cond (rows s = []) (Txt (if tp_paused s then ''Paused.'' else ''Waiting for requests...'')),
        Box (map (traffic_row fm) (rows s))]]"

section \<open>The machine\<close>

datatype tp_event =
    TpAct "(tp_btn, tp_field) action"
  | TpLoaded "js_error + traffic_list_response"
  | TpStream stream_event

fun tp_step :: "tp_event \<Rightarrow> traffic_page \<Rightarrow> traffic_page" where
  "tp_step (TpAct (Click BtnPause)) s = s\<lparr>tp_paused := \<not> tp_paused s\<rparr>"
| "tp_step (TpAct (Click BtnClear)) s = s\<lparr>tp_records := []\<rparr>"
| "tp_step (TpAct (Edit FUpstream v)) s = s\<lparr>tp_upstream := v\<rparr>"
| "tp_step (TpAct (Edit FMethod v)) s = s\<lparr>tp_method := v\<rparr>"
| "tp_step (TpAct (Edit FStatus v)) s = s\<lparr>tp_status := v\<rparr>"
| "tp_step (TpAct (Toggle f)) s = s"
| "tp_step (TpLoaded r) s = traffic_loaded r s"
| "tp_step (TpStream evt) s = on_stream evt s"

text \<open>The server answers with at most 200 records to the list request and 100 in a snapshot.\<close>

fun tp_enabled :: "formats \<Rightarrow> traffic_page \<Rightarrow> tp_event \<Rightarrow> bool" where
  "tp_enabled fm s (TpAct a) = offers (traffic_view fm s) a"
| "tp_enabled fm s (TpLoaded r) = (tp_loading s \<and> (case r of Inr v \<Rightarrow> length (tlr_items v) \<le> 200 | Inl e \<Rightarrow> True))"
| "tp_enabled fm s (TpStream evt) = (case evt of SnapshotOf items \<Rightarrow> length items \<le> 100 | RecordOf r \<Rightarrow> True)"

section \<open>The server's side of the stream\<close>

text \<open>The recorder as one stream sees it: the queue exists once its subscription is made.\<close>

record recorder =
  rc_buffer :: "traffic_record list"
  rc_queue :: "traffic_record list option"
  rc_dropped :: nat

definition BUFFER_MAX :: nat where "BUFFER_MAX = 2000"
definition QUEUE_MAX :: nat where "QUEUE_MAX = 256"

definition push_bounded :: "nat \<Rightarrow> 'a \<Rightarrow> 'a list \<Rightarrow> 'a list" where
  "push_bounded n x xs = (if length xs < n then xs @ [x] else tl xs @ [x])"

definition record_traffic :: "traffic_record \<Rightarrow> recorder \<Rightarrow> recorder" where
  "record_traffic r c =
     (let c1 = c\<lparr>rc_buffer := push_bounded BUFFER_MAX r (rc_buffer c)\<rparr>
      in case rc_queue c of
           None \<Rightarrow> c1
         | Some q \<Rightarrow> if length q < QUEUE_MAX then c1\<lparr>rc_queue := Some (q @ [r])\<rparr>
                     else c1\<lparr>rc_dropped := Suc (rc_dropped c)\<rparr>)"

definition recent :: "nat \<Rightarrow> recorder \<Rightarrow> traffic_record list" where
  "recent limit c = take limit (rev (rc_buffer c))"

definition subscribe :: "recorder \<Rightarrow> recorder" where
  "subscribe c = c\<lparr>rc_queue := Some []\<rparr>"

text \<open>The mounted page with the two requests of its effect. Requests of the proxy are recorded at any time.
  The list request is answered at some moment and its reply arrives at a later one. The stream is
  subscribed at some moment; the body of its response starts later with the snapshot and then sends the
  queue; what was sent travels in order and is read by the page at any later time. The user can press
  the buttons and change the filters in between.\<close>

record live =
  lv_recorder :: recorder
  lv_started :: bool
  lv_answer :: "traffic_record list option"
  lv_wire :: "stream_event list"
  lv_page :: traffic_page

datatype live_event =
    LRecord traffic_record | LAnswer | LLoaded | LFailed js_error
  | LSubscribe | LStart | LSend | LRead | LAct "(tp_btn, tp_field) action"

definition queued :: "live \<Rightarrow> traffic_record list" where
  "queued s = nullish (rc_queue (lv_recorder s)) []"

fun live_step :: "live_event \<Rightarrow> live \<Rightarrow> live" where
  "live_step (LRecord r) s = s\<lparr>lv_recorder := record_traffic r (lv_recorder s)\<rparr>"
| "live_step LAnswer s = s\<lparr>lv_answer := Some (recent 200 (lv_recorder s))\<rparr>"
| "live_step LLoaded s = s\<lparr>lv_answer := None,
     lv_page := tp_step (TpLoaded (Inr \<lparr>tlr_items = nullish (lv_answer s) []\<rparr>)) (lv_page s)\<rparr>"
| "live_step (LFailed e) s = s\<lparr>lv_answer := None, lv_page := tp_step (TpLoaded (Inl e)) (lv_page s)\<rparr>"
| "live_step LSubscribe s = s\<lparr>lv_recorder := subscribe (lv_recorder s)\<rparr>"
| "live_step LStart s = s\<lparr>lv_started := True, lv_wire := [SnapshotOf (recent 100 (lv_recorder s))]\<rparr>"
| "live_step LSend s = s\<lparr>lv_recorder := (lv_recorder s)\<lparr>rc_queue := Some (tl (queued s))\<rparr>,
     lv_wire := lv_wire s @ [RecordOf (hd (queued s))]\<rparr>"
| "live_step LRead s = s\<lparr>lv_wire := tl (lv_wire s), lv_page := tp_step (TpStream (hd (lv_wire s))) (lv_page s)\<rparr>"
| "live_step (LAct a) s = s\<lparr>lv_page := tp_step (TpAct a) (lv_page s)\<rparr>"

fun live_enabled :: "formats \<Rightarrow> live \<Rightarrow> live_event \<Rightarrow> bool" where
  "live_enabled fm s (LRecord r) = True"
| "live_enabled fm s LAnswer = (tp_loading (lv_page s) \<and> lv_answer s = None)"
| "live_enabled fm s LLoaded = (lv_answer s \<noteq> None)"
| "live_enabled fm s (LFailed e) = tp_loading (lv_page s)"
| "live_enabled fm s LSubscribe = (rc_queue (lv_recorder s) = None)"
| "live_enabled fm s LStart = (rc_queue (lv_recorder s) \<noteq> None \<and> \<not> lv_started s)"
| "live_enabled fm s LSend = (lv_started s \<and> queued s \<noteq> [])"
| "live_enabled fm s LRead = (lv_wire s \<noteq> [])"
| "live_enabled fm s (LAct a) = offers (traffic_view fm (lv_page s)) a"

definition live_start :: "traffic_record list \<Rightarrow> live" where
  "live_start history = \<lparr>lv_recorder = \<lparr>rc_buffer = history, rc_queue = None, rc_dropped = 0\<rparr>,
     lv_started = False, lv_answer = None, lv_wire = [], lv_page = traffic_init\<rparr>"

section \<open>What a run promises\<close>

fun recorded :: "live_event list \<Rightarrow> traffic_record list" where
  "recorded [] = []"
| "recorded (LRecord r # es) = r # recorded es"
| "recorded (e # es) = recorded es"

text \<open>The events before the first \<open>x\<close>, and the records made since the subscription.\<close>

definition before :: "live_event \<Rightarrow> live_event list \<Rightarrow> live_event list" where
  "before x es = takeWhile (\<lambda>e. e \<noteq> x) es"

definition subscribed :: "live_event list \<Rightarrow> traffic_record list" where
  "subscribed es = recorded (dropWhile (\<lambda>e. e \<noteq> LSubscribe) es)"

text \<open>The number of stream events the page has read; the first of them is the snapshot.\<close>

definition reads :: "live_event list \<Rightarrow> nat" where
  "reads es = length (filter (\<lambda>e. e = LRead) es)"

text \<open>The events that replace the table, with what they put into it.\<close>

fun replaces :: "live_event \<Rightarrow> bool" where
  "replaces LLoaded = True"
| "replaces (LAct (Click BtnClear)) = True"
| "replaces e = False"

definition newest :: "nat \<Rightarrow> traffic_record list \<Rightarrow> live_event list \<Rightarrow> traffic_record list" where
  "newest n history es = take n (rev (history @ recorded es))"

definition base_of :: "traffic_record list \<Rightarrow> live_event list \<Rightarrow> live_event \<Rightarrow> traffic_record list" where
  "base_of history us e = (case e of
      LRead \<Rightarrow> newest 100 history (before LStart us)
    | LLoaded \<Rightarrow> newest 200 history (before LAnswer us)
    | _ \<Rightarrow> [])"

text \<open>From the bytes of the stream to the page: the effect reads the events one by one.\<close>

definition page_after_stream :: "(json \<Rightarrow> traffic_record) \<Rightarrow> string list \<Rightarrow> traffic_page \<Rightarrow> traffic_page" where
  "page_after_stream cast chunks s =
     fold (\<lambda>e. tp_step (TpStream (typed_event cast e))) (fst (subscribeTraffic [] chunks)) s"

fun frame_records :: "server_frame list \<Rightarrow> json list" where
  "frame_records [] = []"
| "frame_records (FRecord es # fs) = JObj es # frame_records fs"
| "frame_records (f # fs) = frame_records fs"

fun is_snapshot :: "server_frame \<Rightarrow> bool" where
  "is_snapshot (FSnapshot items) = True"
| "is_snapshot f = False"

section \<open>Lemmas\<close>

lemma take_shift: "take n (xs @ take n (y # ys)) = take n (xs @ y # ys)"
  by (simp add: min_def)

lemma records_shown:
  "\<not> tp_paused s \<Longrightarrow> list_all (\<lambda>f. \<not> is_snapshot f) fs \<Longrightarrow> length (tp_records s) \<le> MAX_ROWS \<Longrightarrow>
   tp_records (fold (\<lambda>e. tp_step (TpStream (typed_event cast e))) (List.map_filter frame_event fs) s)
     = take MAX_ROWS (map cast (rev (frame_records fs)) @ tp_records s)"
proof (induction fs arbitrary: s rule: frame_records.induct)
  case (2 es fs)
  let ?t = "tp_step (TpStream (RecordOf (cast (JObj es)))) s"
  have "\<not> tp_paused ?t" "tp_records ?t = take MAX_ROWS (cast (JObj es) # tp_records s)"
    using 2(2) by (simp_all add: on_stream_def stream_records_def)
  then show ?case
    using 2(1) [of ?t] 2(2,3) take_shift [of MAX_ROWS "map cast (rev (frame_records fs))" "cast (JObj es)" "tp_records s"]
    by (simp add: map_filter_simps del: take_append)
qed (auto simp: map_filter_simps)

lemma recorded_append [simp]: "recorded (es @ fs) = recorded es @ recorded fs"
  by (induction es rule: recorded.induct) simp_all

lemma before_snoc:
  "before x (es @ [e]) = (if x \<in> set es then before x es else if e = x then es else es @ [e])"
  by (auto simp: before_def takeWhile_append takeWhile_eq_all_conv)

lemma before_self: "x \<notin> set es \<Longrightarrow> before x es = es"
  by (auto simp: before_def takeWhile_eq_all_conv)

lemma subscribed_snoc:
  "subscribed (es @ [e]) = (if LSubscribe \<in> set es then subscribed es @ recorded [e] else [])"
proof (cases "LSubscribe \<in> set es")
  case True
  then have "dropWhile (\<lambda>e. e \<noteq> LSubscribe) (es @ [e]) = dropWhile (\<lambda>e. e \<noteq> LSubscribe) es @ [e]"
    by (auto simp: dropWhile_append)
  then show ?thesis using True by (simp add: subscribed_def)
next
  case False
  have "dropWhile (\<lambda>e. e \<noteq> LSubscribe) (es @ [e]) = dropWhile (\<lambda>e. e \<noteq> LSubscribe) [e]"
    using False by (intro dropWhile_append2) auto
  then show ?thesis using False by (simp add: subscribed_def)
qed

lemma reads_snoc [simp]: "reads (es @ [e]) = reads es + (if e = LRead then 1 else 0)"
  by (simp add: reads_def)

lemma reads_single [simp]: "reads [] = 0" "reads [e] = (if e = LRead then 1 else 0)"
  by (simp_all add: reads_def)

lemma reads_append [simp]: "reads (es @ fs) = reads es + reads fs"
  by (simp add: reads_def)

lemma recent_push: "n < m \<Longrightarrow> take n (rev (push_bounded m x xs)) = take n (x # rev xs)"
proof (cases "length xs < m")
  case False
  moreover assume "n < m"
  ultimately obtain y ys where "xs = y # ys" "n \<le> length ys + 1" by (cases xs) auto
  then show ?thesis using False by (cases n) (auto simp: push_bounded_def)
qed (simp add: push_bounded_def)

lemma take_Cons_cong: "take n xs = take n ys \<Longrightarrow> take n (x # xs) = take n (x # ys)"
  by (cases n) (auto dest: arg_cong [where f = "take (n - 1)"] simp: min_def)

lemma take_Cons_take: "take n (x # take n xs) = take n (x # xs)"
  by (rule take_Cons_cong) simp

lemma newest_snoc:
  "newest n history (es @ [LRecord r]) = take n (r # newest n history es)"
  "recorded [e] = [] \<Longrightarrow> newest n history (es @ [e]) = newest n history es"
  by (simp_all add: newest_def take_Cons_take del: take_append)

lemma length_newest: "length (newest n history es) \<le> n"
  by (simp add: newest_def del: rev_append take_append)

lemma newest_newest: "m \<le> n \<Longrightarrow> take m (newest n history es) = newest m history es"
  by (simp add: newest_def min_def del: rev_append take_append)

text \<open>The whole stream as the server promises it: the snapshot, then every record since the
  subscription. What the page has read, what travels and what is queued are its consecutive parts.\<close>

definition promised :: "traffic_record list \<Rightarrow> live_event list \<Rightarrow> stream_event list" where
  "promised history es = SnapshotOf (newest 100 history (before LStart es)) # map RecordOf (subscribed es)"

definition recorder_inv :: "traffic_record list \<Rightarrow> live_event list \<Rightarrow> live \<Rightarrow> bool" where
  "recorder_inv history es s \<longleftrightarrow>
     recent 200 (lv_recorder s) = newest 200 history es
     \<and> (rc_queue (lv_recorder s) = None \<longleftrightarrow> LSubscribe \<notin> set es)
     \<and> (lv_started s \<longleftrightarrow> LStart \<in> set es)"

definition answer_inv :: "traffic_record list \<Rightarrow> live_event list \<Rightarrow> live \<Rightarrow> bool" where
  "answer_inv history es s \<longleftrightarrow>
     (LAnswer \<in> set es \<longrightarrow> lv_answer s = None \<longrightarrow> \<not> tp_loading (lv_page s))
     \<and> (\<forall>items. lv_answer s = Some items \<longrightarrow> LAnswer \<in> set es \<and> items = newest 200 history (before LAnswer es))"

definition stream_inv :: "traffic_record list \<Rightarrow> live_event list \<Rightarrow> live \<Rightarrow> bool" where
  "stream_inv history es s \<longleftrightarrow>
     (if lv_started s
      then \<exists>done. length done = reads es \<and> promised history es = done @ lv_wire s @ map RecordOf (queued s)
      else lv_wire s = [] \<and> reads es = 0 \<and> queued s = subscribed es)"

definition live_inv :: "traffic_record list \<Rightarrow> live_event list \<Rightarrow> live \<Rightarrow> bool" where
  "live_inv history es s \<longleftrightarrow> recorder_inv history es s \<and> answer_inv history es s
     \<and> (rc_dropped (lv_recorder s) = 0 \<longrightarrow> stream_inv history es s)"

lemma live_inv_start: "live_inv history [] (live_start history)"
  by (simp add: live_inv_def recorder_inv_def answer_inv_def stream_inv_def live_start_def recent_def
      newest_def subscribed_def reads_def queued_def nullish_def)

lemma recent_recent: "m \<le> n \<Longrightarrow> take m (recent n c) = recent m c"
  by (simp add: recent_def min_def)

lemma record_traffic_fields:
  "rc_queue (record_traffic r c) = None \<longleftrightarrow> rc_queue c = None"
  "rc_dropped (record_traffic r c) = 0 \<Longrightarrow> rc_dropped c = 0
     \<and> rc_queue (record_traffic r c) = map_option (\<lambda>q. q @ [r]) (rc_queue c)"
  by (auto simp: record_traffic_def Let_def split: option.splits if_splits)

lemma recent_record:
  "recent 200 (record_traffic r c) = take 200 (r # recent 200 c)"
  by (simp add: recent_def record_traffic_def Let_def recent_push BUFFER_MAX_def take_Cons_take split: option.split)

lemma recorder_inv_step:
  assumes inv: "recorder_inv history es s" and en: "live_enabled fm s e"
  shows "recorder_inv history (es @ [e]) (live_step e s)"
proof (cases e)
  case (LRecord r)
  then show ?thesis using inv by (simp add: recorder_inv_def recent_record record_traffic_fields newest_snoc)
qed (use inv en in \<open>simp_all add: recorder_inv_def newest_snoc subscribe_def recent_def queued_def nullish_def
       split: option.splits\<close>)

lemma act_fields [simp]:
  "tp_loading (tp_step (TpAct a) p) = tp_loading p" "tp_loading (tp_step (TpStream ev) p) = tp_loading p"
  "tp_loading (on_stream ev p) = tp_loading p"
  by (cases "(TpAct a, p)" rule: tp_step.cases; simp) (simp_all add: on_stream_def)

lemma act_quiet:
  "a \<noteq> Click BtnPause \<Longrightarrow> a \<noteq> Click BtnClear \<Longrightarrow>
   tp_records (tp_step (TpAct a) p) = tp_records p \<and> tp_paused (tp_step (TpAct a) p) = tp_paused p"
  by (cases "(TpAct a, p)" rule: tp_step.cases) simp_all

lemma answer_inv_step:
  assumes rinv: "recorder_inv history es s" and inv: "answer_inv history es s" and en: "live_enabled fm s e"
  shows "answer_inv history (es @ [e]) (live_step e s)"
proof (cases e)
  case LAnswer
  have "LAnswer \<notin> set es" using inv en LAnswer by (auto simp: answer_inv_def)
  then show ?thesis using rinv LAnswer by (simp add: answer_inv_def recorder_inv_def before_snoc)
qed (use inv en in \<open>auto simp: answer_inv_def before_snoc traffic_loaded_def\<close>)

lemma promised_snoc:
  "LStart \<in> set es \<Longrightarrow> LSubscribe \<in> set es \<Longrightarrow>
   promised history (es @ [e]) = promised history es @ map RecordOf (recorded [e])"
  by (simp add: promised_def before_snoc subscribed_snoc)

lemma subscribed_before:
  "LStart \<in> set es \<Longrightarrow> run (live_enabled fm) live_step (live_start history) es = Some s \<Longrightarrow> rc_queue (lv_recorder s) \<noteq> None"
proof (induction es arbitrary: s rule: rev_induct)
  case (snoc e es)
  then obtain t where t: "run (live_enabled fm) live_step (live_start history) es = Some t" "live_enabled fm t e" "s = live_step e t"
    by (auto simp: run_append split: option.splits if_splits)
  then show ?case using snoc by (cases e) (auto simp: record_traffic_fields subscribe_def)
qed simp

lemma stream_inv_step:
  assumes rinv: "recorder_inv history es s" and inv: "stream_inv history es s" and en: "live_enabled fm s e"
    and sub: "LStart \<in> set es \<Longrightarrow> rc_queue (lv_recorder s) \<noteq> None"
    and d: "rc_dropped (lv_recorder (live_step e s)) = 0"
  shows "stream_inv history (es @ [e]) (live_step e s)"
proof (cases "lv_started s")
  case True
  then have m: "LStart \<in> set es" "LSubscribe \<in> set es" using rinv sub by (auto simp: recorder_inv_def)
  obtain sent where h: "length sent = reads es" "promised history es = sent @ lv_wire s @ map RecordOf (queued s)"
    using inv True by (auto simp: stream_inv_def)
  obtain q where q: "rc_queue (lv_recorder s) = Some q" using sub [OF m(1)] by blast
  show ?thesis
  proof (cases e)
    case (LRecord r)
    then show ?thesis
      using True h q d record_traffic_fields(2) [of r "lv_recorder s"]
      by (simp add: stream_inv_def promised_snoc [OF m] queued_def nullish_def)
  next
    case LSend
    then show ?thesis
      using True h en by (cases "queued s") (auto simp: stream_inv_def promised_snoc [OF m] queued_def nullish_def)
  next
    case LRead
    then obtain w ws where w: "lv_wire s = w # ws" using en by (cases "lv_wire s") auto
    show ?thesis
      using True h LRead w
      by (simp add: stream_inv_def promised_snoc [OF m] queued_def nullish_def)
  qed (use True h q en in \<open>auto simp: stream_inv_def promised_snoc [OF m] queued_def nullish_def\<close>)
next
  case False
  then have n: "LStart \<notin> set es" and h: "lv_wire s = []" "reads es = 0" "queued s = subscribed es"
    using rinv inv by (auto simp: recorder_inv_def stream_inv_def)
  show ?thesis
  proof (cases e)
    case (LRecord r)
    then show ?thesis
      using False h rinv d record_traffic_fields(2) [of r "lv_recorder s"]
      by (cases "rc_queue (lv_recorder s)")
        (auto simp: stream_inv_def subscribed_snoc queued_def nullish_def recorder_inv_def)
  next
    case LSubscribe
    then show ?thesis using False h rinv en
      by (simp add: stream_inv_def subscribed_snoc queued_def nullish_def recorder_inv_def subscribe_def)
  next
    case LStart
    have "recent 100 (lv_recorder s) = newest 100 history es"
      using rinv recent_recent [of 100 200 "lv_recorder s"] newest_newest [of 100 200 history es]
      by (simp add: recorder_inv_def)
    then show ?thesis using LStart False h rinv en n
      by (auto simp: stream_inv_def promised_def before_snoc subscribed_snoc queued_def nullish_def recorder_inv_def)
  qed (use False h rinv en in \<open>auto simp: stream_inv_def subscribed_snoc queued_def nullish_def recorder_inv_def\<close>)
qed

lemma dropped_mono: "rc_dropped (lv_recorder s) \<le> rc_dropped (lv_recorder (live_step e s))"
  by (cases e) (auto simp: record_traffic_def Let_def subscribe_def split: option.split)

lemma dropped_run:
  "run (live_enabled fm) live_step t vs = Some s \<Longrightarrow> rc_dropped (lv_recorder s) = 0 \<Longrightarrow> rc_dropped (lv_recorder t) = 0"
proof (induction vs arbitrary: t)
  case (Cons v vs)
  then have "rc_dropped (lv_recorder (live_step v t)) = 0" by (auto split: if_splits)
  then show ?case using dropped_mono [of t v] by simp
qed simp

lemma live_inv_run: "run (live_enabled fm) live_step (live_start history) es = Some s \<Longrightarrow> live_inv history es s"
proof (induction es arbitrary: s rule: rev_induct)
  case (snoc e es)
  then obtain t where t: "run (live_enabled fm) live_step (live_start history) es = Some t" "live_enabled fm t e" "s = live_step e t"
    by (auto simp: run_append split: option.splits if_splits)
  then have "live_inv history es t" using snoc by blast
  moreover have "rc_dropped (lv_recorder s) = 0 \<Longrightarrow> rc_dropped (lv_recorder t) = 0"
    using dropped_mono [of t e] t(3) by simp
  ultimately show ?case
    using recorder_inv_step [OF _ t(2)] answer_inv_step [OF _ _ t(2)] stream_inv_step [OF _ _ t(2)]
      subscribed_before [OF _ t(1)] t(3) by (simp add: live_inv_def)
qed (simp add: live_inv_start)

text \<open>A stretch of a run that does not replace the table and does not pause it.\<close>

definition quiet :: "live_event \<Rightarrow> bool" where
  "quiet e \<longleftrightarrow> \<not> replaces e \<and> e \<noteq> LAct (Click BtnPause)"

definition read_in :: "live_event list \<Rightarrow> live_event list \<Rightarrow> traffic_record list" where
  "read_in us vs = drop (reads us - 1) (take (reads (us @ vs) - 1) (subscribed (us @ vs)))"

lemma next_read:
  assumes "live_inv history es s" and "rc_dropped (lv_recorder s) = 0" and "lv_wire s = w # ws"
  shows "if reads es = 0 then w = SnapshotOf (newest 100 history (before LStart es))
     else reads es - 1 < length (subscribed es) \<and> w = RecordOf (subscribed es ! (reads es - 1))"
proof -
  have "lv_started s" using assms by (cases "lv_started s") (auto simp: live_inv_def stream_inv_def)
  then obtain sent where h: "length sent = reads es" "promised history es = sent @ w # ws @ map RecordOf (queued s)"
    using assms by (auto simp: live_inv_def stream_inv_def)
  have "promised history es ! reads es = w" "reads es < length (promised history es)"
    using h by (simp_all add: nth_append)
  then show ?thesis by (cases "reads es") (auto simp: promised_def)
qed

lemma reads_bound:
  assumes "live_inv history es s" and "rc_dropped (lv_recorder s) = 0"
  shows "reads es - 1 \<le> length (subscribed es) \<and> (0 < reads es \<longrightarrow> LStart \<in> set es)"
proof (cases "lv_started s")
  case True
  then obtain sent where h: "length sent = reads es" "promised history es = sent @ lv_wire s @ map RecordOf (queued s)"
    using assms by (auto simp: live_inv_def stream_inv_def)
  from arg_cong [OF h(2), of length] h(1) have "reads es \<le> Suc (length (subscribed es))"
    by (simp add: promised_def)
  then show ?thesis using True assms by (auto simp: live_inv_def recorder_inv_def)
qed (use assms in \<open>auto simp: live_inv_def stream_inv_def\<close>)

lemma subscribed_none: "LSubscribe \<notin> set es \<Longrightarrow> subscribed es = []"
proof -
  assume "LSubscribe \<notin> set es"
  then have "dropWhile (\<lambda>e. e \<noteq> LSubscribe) es = []" by (auto simp: dropWhile_eq_Nil_conv)
  then show ?thesis by (simp only: subscribed_def recorded.simps)
qed

lemma subscribed_grows: "\<exists>xs. subscribed (es @ [e]) = subscribed es @ xs \<and> (recorded [e] = [] \<longrightarrow> xs = [])"
  using subscribed_none [of es] by (simp add: subscribed_snoc)

lemma read_in_other:
  assumes "reads (us @ vs) - 1 \<le> length (subscribed (us @ vs))" and "v \<noteq> LRead"
  shows "read_in us (vs @ [v]) = read_in us vs"
proof -
  obtain xs where "subscribed (us @ vs @ [v]) = subscribed (us @ vs) @ xs"
    using subscribed_grows [of "us @ vs" v] by auto
  then show ?thesis using assms by (simp add: read_in_def)
qed

lemma read_in_read:
  assumes "reads (us @ vs) - 1 < length (subscribed (us @ vs))" and "0 < reads us"
  shows "read_in us (vs @ [LRead]) = read_in us vs @ [subscribed (us @ vs) ! (reads (us @ vs) - 1)]"
proof -
  have "subscribed (us @ vs @ [LRead]) = subscribed (us @ vs)"
    using subscribed_grows [of "us @ vs" LRead] by auto
  moreover have "reads (us @ vs @ [LRead]) - 1 = Suc (reads (us @ vs) - 1)" using assms(2) by simp
  moreover have "reads us - 1 \<le> reads (us @ vs) - 1" by simp
  ultimately show ?thesis
    using assms(1) unfolding read_in_def by (simp only: take_Suc_conv_app_nth drop_append) simp
qed

lemma quiet_page:
  "quiet v \<Longrightarrow> v \<noteq> LRead \<Longrightarrow> tp_records (lv_page (live_step v s)) = tp_records (lv_page s)
     \<and> tp_paused (lv_page (live_step v s)) = tp_paused (lv_page s)"
proof (cases v)
  case (LAct a)
  moreover assume "quiet v"
  ultimately have "a \<noteq> Click BtnPause" "a \<noteq> Click BtnClear" by (auto simp: quiet_def)
  then show ?thesis using act_quiet [of a "lv_page s"] LAct by simp
qed (simp_all add: quiet_def traffic_loaded_def)

lemma quiet_run:
  assumes us: "run (live_enabled fm) live_step (live_start history) us = Some t"
    and page: "\<not> tp_paused (lv_page t)" "length (tp_records (lv_page t)) \<le> MAX_ROWS" and r: "0 < reads us"
  shows "run (live_enabled fm) live_step (live_start history) (us @ vs) = Some s \<Longrightarrow>
    rc_dropped (lv_recorder s) = 0 \<Longrightarrow> list_all quiet vs \<Longrightarrow>
    \<not> tp_paused (lv_page s) \<and> tp_records (lv_page s) = take MAX_ROWS (rev (read_in us vs) @ tp_records (lv_page t))"
proof (induction vs arbitrary: s rule: rev_induct)
  case Nil
  then show ?case using us page by (auto simp: read_in_def)
next
  case (snoc v vs)
  obtain u where u: "run (live_enabled fm) live_step (live_start history) (us @ vs) = Some u" "live_enabled fm u v" "s = live_step v u"
    using snoc.prems(1) by (auto simp: run_append split: option.splits if_splits)
  have d: "rc_dropped (lv_recorder u) = 0" using dropped_mono [of u v] u(3) snoc.prems(2) by simp
  have ih: "\<not> tp_paused (lv_page u)" "tp_records (lv_page u) = take MAX_ROWS (rev (read_in us vs) @ tp_records (lv_page t))"
    using snoc.IH [OF u(1) d] snoc.prems(3) by auto
  have inv: "live_inv history (us @ vs) u" by (rule live_inv_run [OF u(1)])
  show ?case
  proof (cases "v = LRead")
    case True
    then obtain w ws where w: "lv_wire u = w # ws" using u(2) by (cases "lv_wire u") auto
    have n: "reads (us @ vs) - 1 < length (subscribed (us @ vs))" "w = RecordOf (subscribed (us @ vs) ! (reads (us @ vs) - 1))"
      using next_read [OF inv d w] r by (simp_all split: if_splits)
    show ?thesis
      unfolding True read_in_read [OF n(1) r]
      using u(3) True ih w n(2) by (simp add: on_stream_def stream_records_def take_Cons_take del: take_append)
  next
    case False
    moreover have "quiet v" using snoc.prems(3) by simp
    ultimately show ?thesis
      using quiet_page [of v u] ih u(3) read_in_other [of us vs v] reads_bound [OF inv d] by simp
  qed
qed

text \<open>The replacing events put their records into the table.\<close>

lemma base_shown:
  assumes us: "run (live_enabled fm) live_step (live_start history) us = Some u"
    and d: "rc_dropped (lv_recorder u) = 0" and en: "live_enabled fm u e"
    and e: "replaces e \<or> e = LRead \<and> reads us = 0 \<and> \<not> tp_paused (lv_page u)"
  shows "tp_records (lv_page (live_step e u)) = base_of history us e"
proof -
  have inv: "live_inv history us u" by (rule live_inv_run [OF us])
  consider "e = LLoaded" | "e = LAct (Click BtnClear)" | "e = LRead" "reads us = 0" "\<not> tp_paused (lv_page u)"
    using e by (cases e rule: replaces.cases) auto
  then show ?thesis
  proof cases
    case 1
    then show ?thesis using inv en
      by (auto simp: live_inv_def answer_inv_def base_of_def traffic_loaded_def nullish_def)
  next
    case 3
    then obtain w ws where w: "lv_wire u = w # ws" using en by (cases "lv_wire u") auto
    then show ?thesis using 3 next_read [OF inv d w] by (simp add: base_of_def on_stream_def stream_records_def)
  qed (simp add: base_of_def)
qed

text \<open>The page on its own: it never holds more than 500 rows.\<close>

interpretation traffic: machine "tp_enabled fm" tp_step traffic_init "\<lambda>s. length (tp_records s) \<le> MAX_ROWS"
proof unfold_locales
  fix s e
  assume "length (tp_records s) \<le> MAX_ROWS" "tp_enabled fm s e"
  then show "length (tp_records (tp_step e s)) \<le> MAX_ROWS"
    by (cases "(e, s)" rule: tp_step.cases)
      (auto simp: MAX_ROWS_def traffic_loaded_def on_stream_def stream_records_def split: sum.splits stream_event.splits)
qed (simp add: traffic_init_def)

lemma upstream_option: "u \<in> set (uniqueUpstreams rs) \<longleftrightarrow> (\<exists>r \<in> set rs. tr_upstream r = u)"
  by (auto simp: uniqueUpstreams_def)

section \<open>Properties\<close>

text \<open>C3: What the table holds, exactly. Take any run
  of the page with the server, with every interleaving of recorded requests, the answer and the arrival of
  the list request, the subscription, the snapshot, sends, reads, filter changes and presses. Cut it at an
  event that replaces the table: the reading of the snapshot (the first read), the arrival of the list reply,
  also a late one, or Clear. As long as the page is not paused and nothing replaces the table again, the
  table holds exactly the records read since then, newest first, above what that event put there, at most
  500 rows; the k-th record read is the k-th one recorded since the subscription. The snapshot puts the 100
  newest records at the time it was taken, the list reply the 200 newest at the time of its answer, Clear
  none. So the stream itself loses, doubles and reorders nothing; but a record made between the
  subscription and the snapshot is in both and is shown twice, and a list reply that comes late takes away
  the records streamed since its answer (the witness is such a run). The hypotheses: the snapshot has been
  read, the page is not paused, and the queue of 256 of this subscriber has not overflowed.\<close>

theorem live_table_complete:
  assumes "run (live_enabled fm) live_step (live_start history) (us @ [e]) = Some t"
    and "replaces e \<or> e = LRead \<and> reads us = 0"
    and "0 < reads (us @ [e])" and "\<not> tp_paused (lv_page t)"
    and "run (live_enabled fm) live_step (live_start history) (us @ e # vs) = Some s"
    and "list_all (\<lambda>v. \<not> replaces v \<and> v \<noteq> LAct (Click BtnPause)) vs"
    and "rc_dropped (lv_recorder s) = 0"
  shows "tp_records (lv_page s) = take 500
      (rev (drop (reads (us @ [e]) - 1) (take (reads (us @ e # vs) - 1) (subscribed (us @ e # vs))))
       @ (case e of LRead \<Rightarrow> take 100 (rev (history @ recorded (before LStart us)))
          | LLoaded \<Rightarrow> take 200 (rev (history @ recorded (before LAnswer us)))
          | _ \<Rightarrow> []))
    \<and> \<not> tp_paused (lv_page s)"
proof -
  obtain u where u: "run (live_enabled fm) live_step (live_start history) us = Some u" "live_enabled fm u e" "t = live_step e u"
    using assms(1) by (auto simp: run_append split: option.splits if_splits)
  have t: "rc_dropped (lv_recorder t) = 0"
    using dropped_run [of fm t vs s] u assms(5,7) by (simp add: run_append)
  then have d: "rc_dropped (lv_recorder u) = 0" using dropped_mono [of u e] u(3) by simp
  have "\<not> tp_paused (lv_page u)" if "e = LRead" using assms(4) u(3) that by (simp add: on_stream_def split: if_splits)
  then have base: "tp_records (lv_page t) = base_of history us e"
    using base_shown [OF u(1) d u(2)] assms(2) u(3) by blast
  then have "length (tp_records (lv_page t)) \<le> MAX_ROWS"
    by (auto simp: base_of_def MAX_ROWS_def intro!: le_trans [OF length_newest] split: live_event.split)
  from quiet_run [OF assms(1) assms(4) this assms(3), of vs s] show ?thesis
    using assms(5-7) base unfolding read_in_def base_of_def newest_def MAX_ROWS_def quiet_def by simp
qed

definition traffic_of :: "string \<Rightarrow> traffic_record" where
  "traffic_of u = \<lparr>tr_timestamp = 0, tr_upstream = u, tr_method = Some ''tools/call'', tr_request_id = JNull,
     tr_status = StOk, tr_latency_ms = 1, tr_request_bytes = 10, tr_response_bytes = 20, tr_error_code = None,
     tr_client_ip = None\<rparr>"

text \<open>A late list reply: the record \<open>b\<close>, recorded after the answer and already shown, disappears when the
  reply arrives, and the record made next is shown again.\<close>

definition late_start :: "live_event list" where
  "late_start = [LAnswer, LSubscribe, LStart, LRead, LRecord (traffic_of ''b''), LSend, LRead]"

definition late_rest :: "live_event list" where
  "late_rest = [LRecord (traffic_of ''c''), LSend, LRead]"

lemmas live_eval = late_start_def late_rest_def live_start_def subscribe_def traffic_init_def record_traffic_def
  push_bounded_def BUFFER_MAX_def QUEUE_MAX_def MAX_ROWS_def recent_def on_stream_def stream_records_def
  traffic_loaded_def queued_def nullish_def Let_def

theorem live_table_complete_witness:
  "\<exists>u t s. run (live_enabled plain_formats) live_step (live_start [traffic_of ''a'']) late_start = Some u
     \<and> tp_records (lv_page u) = [traffic_of ''b'', traffic_of ''a'']
     \<and> run (live_enabled plain_formats) live_step (live_start [traffic_of ''a'']) (late_start @ [LLoaded]) = Some t
     \<and> tp_records (lv_page t) = [traffic_of ''a'']
     \<and> run (live_enabled plain_formats) live_step (live_start [traffic_of ''a'']) (late_start @ LLoaded # late_rest) = Some s
     \<and> tp_records (lv_page s) = [traffic_of ''c'', traffic_of ''a'']"
proof -
  let ?run = "run (live_enabled plain_formats) live_step (live_start [traffic_of ''a''])"
  have u: "?run late_start = Some (the (?run late_start))"
      "tp_records (lv_page (the (?run late_start))) = [traffic_of ''b'', traffic_of ''a'']"
    by (simp_all add: live_eval)
  have t: "?run (late_start @ [LLoaded]) = Some (the (?run (late_start @ [LLoaded])))"
      "tp_records (lv_page (the (?run (late_start @ [LLoaded])))) = [traffic_of ''a'']"
      "\<not> tp_paused (lv_page (the (?run (late_start @ [LLoaded]))))"
    by (simp_all add: live_eval)
  have s: "?run (late_start @ LLoaded # late_rest) = Some (the (?run (late_start @ LLoaded # late_rest)))"
      "rc_dropped (lv_recorder (the (?run (late_start @ LLoaded # late_rest)))) = 0"
    by (simp_all add: live_eval)
  have "tp_records (lv_page (the (?run (late_start @ LLoaded # late_rest)))) = [traffic_of ''c'', traffic_of ''a'']"
    using live_table_complete [OF t(1) _ _ t(3) s(1) _ s(2)]
    by (simp add: late_start_def late_rest_def reads_def subscribed_def before_def)
  then show ?thesis using u t s by blast
qed

text \<open>C39: The table is bounded and its filters are consistent: in every reachable state it holds at most 500
  rows; the upstreams offered by the filter are exactly those of the rows, sorted and without
  duplicates, so that choosing one (with no other filter) always shows something; and while the page is
  paused, the stream changes nothing.\<close>

theorem traffic_table_bounded:
  assumes "reachable (tp_enabled fm) tp_step traffic_init s" and "u \<noteq> []"
  shows "length (tp_records s) \<le> 500 \<and> length (rows s) \<le> length (tp_records s)
    \<and> sorted (uniqueUpstreams (tp_records s)) \<and> distinct (uniqueUpstreams (tp_records s))
    \<and> (u \<in> set (uniqueUpstreams (tp_records s)) \<longleftrightarrow> rows (s\<lparr>tp_upstream := u, tp_method := [], tp_status := []\<rparr>) \<noteq> [])
    \<and> (tp_paused s \<longrightarrow> tp_step (TpStream evt) s = s)"
proof -
  have "u \<in> set (uniqueUpstreams (tp_records s)) \<longleftrightarrow> rows (s\<lparr>tp_upstream := u, tp_method := [], tp_status := []\<rparr>) \<noteq> []"
    using assms(2) by (auto simp: upstream_option rows_def row_shown_def filter_empty_conv)
  then show ?thesis
    using traffic.reachable_inv [OF assms(1)]
    by (simp add: MAX_ROWS_def rows_def uniqueUpstreams_def on_stream_def)
qed

theorem traffic_table_bounded_witness:
  "rows ((tp_step (TpStream (RecordOf (traffic_of ''fs''))) traffic_init)\<lparr>tp_upstream := ''fs'', tp_method := [], tp_status := []\<rparr>) \<noteq> []"
proof -
  let ?fm = plain_formats
  let ?s = "tp_step (TpStream (RecordOf (traffic_of ''fs''))) traffic_init"
  have "reachable (tp_enabled ?fm) tp_step traffic_init ?s"
    by (rule reachable.step [OF reachable.start]) simp
  moreover have "''fs'' \<in> set (uniqueUpstreams (tp_records ?s))"
    by (simp add: upstream_option on_stream_def stream_records_def traffic_init_def traffic_of_def MAX_ROWS_def)
  ultimately show ?thesis using traffic_table_bounded [of ?fm ?s "''fs''"] by blast
qed

text \<open>From the wire to the table: if the proxy writes a snapshot and then records and heartbeats, then,
  however the network cuts the stream, the page that was not paused shows the records, newest first, above the
  items of the snapshot, at most 500 rows; nothing is lost, doubled or reordered in between.\<close>

theorem wire_to_table:
  assumes "concat chunks = concat (map frame_text (FSnapshot items # fs))"
    and "frame_wf (FSnapshot items)" and "list_all (\<lambda>f. frame_wf f \<and> \<not> is_snapshot f) fs"
    and "length items \<le> 500" and "\<not> tp_paused s"
  shows "tp_records (page_after_stream cast chunks s) = take 500 (map cast (rev (frame_records fs) @ items))"
proof -
  have "\<forall>f \<in> set (FSnapshot items # fs). frame_wf f" using assms(2,3) by (auto simp: list_all_iff)
  from frames_read_back [OF this assms(1)]
  have events: "fst (subscribeTraffic [] chunks) = Snapshot items # List.map_filter frame_event fs"
    by (simp add: map_filter_simps)
  let ?t = "tp_step (TpStream (SnapshotOf (map cast items))) s"
  have t: "\<not> tp_paused ?t" "tp_records ?t = map cast items" using assms(5) by (simp_all add: on_stream_def stream_records_def)
  have "list_all (\<lambda>f. \<not> is_snapshot f) fs" using assms(3) by (auto simp: list_all_iff)
  from records_shown [OF t(1) this, of cast] t(2) assms(4) show ?thesis
    by (simp add: page_after_stream_def events MAX_ROWS_def del: take_append)
qed

theorem wire_to_table_witness:
  "tp_records (page_after_stream (\<lambda>j. traffic_of (nullish (json_str (json_get j ''upstream'')) [])) (map (\<lambda>c. [c])
       (concat (map frame_text [FSnapshot [JNull], FHeartbeat, FRecord [(''upstream'', JStr ''fs'')]]))) traffic_init)
     = [traffic_of ''fs'', traffic_of []]"
proof -
  have "concat (map (\<lambda>c. [c]) xs) = xs" for xs :: string by (induction xs) simp_all
  then show ?thesis
    by (subst wire_to_table [where items = "[JNull]" and fs = "[FHeartbeat, FRecord [(''upstream'', JStr ''fs'')]]"])
      (simp_all add: traffic_init_def nullish_def)
qed

end
