(* ===== verification/GraphPage.thy ===== *)
theory GraphPage
  imports GraphLayout TrafficPage
begin

text \<open>
  The state of \<open>frontend/src/pages/Graph.tsx\<close>: routes and metrics polled every 5 seconds, the buffer of
  streamed records, which is flushed once per animation frame, the decaying counters of the edges and the
  pulses. What the code keeps in refs is part of the record. A frame event says whether the browser can
  animate (\<open>waapi\<close>), a stream event whether the tab is visible.
\<close>

section \<open>Counters\<close>

definition bump :: "traffic_status \<Rightarrow> edge_stats \<Rightarrow> edge_stats" where
  "bump st s = (if st = StOk then s\<lparr>es_ok := es_ok s + 1\<rparr> else s\<lparr>es_err := es_err s + 1\<rparr>)"

definition count_record :: "traffic_record \<Rightarrow> edge_stats obj \<Rightarrow> edge_stats obj" where
  "count_record r stats =
     (let key = tr_upstream r;
          st1 = (if obj_get stats key = None then obj_assign key no_stats stats else stats)
      in case obj_get st1 key of Some s \<Rightarrow> obj_put key (bump (tr_status r) s) st1 | None \<Rightarrow> st1)"

definition first_status :: "traffic_record list \<Rightarrow> traffic_status obj" where
  "first_status rs = fold (\<lambda>r m. if obj_get m (tr_upstream r) = None then obj_put (tr_upstream r) (tr_status r) m else m) rs []"

text \<open>The decay tick drops what is below the noise floor and scales the rest.\<close>

definition decay_entry :: "window_s \<Rightarrow> string \<times> edge_stats \<Rightarrow> (string \<times> edge_stats) list" where
  "decay_entry w e = (if intensity (snd e) < 1 / 100 then []
     else [(fst e, \<lparr>es_ok = es_ok (snd e) * DECAY_PER_SEC w, es_err = es_err (snd e) * DECAY_PER_SEC w\<rparr>)])"

definition decay_tick :: "window_s \<Rightarrow> edge_stats obj \<Rightarrow> edge_stats obj" where
  "decay_tick w stats = concat (map (decay_entry w) stats)"

section \<open>State\<close>

record pulse =
  pu_upstream :: string
  pu_start :: point
  pu_end :: point
  pu_fill :: color

record graph_page =
  gr_routes :: route_snapshot
  gr_metrics :: "metrics_response option"
  gr_fatalError :: "string option"
  gr_hovered :: "string option"
  gr_window :: window_s
  gr_stats :: "edge_stats obj"
  gr_pulses :: "pulse list"
  gr_pending :: "traffic_record list"
  gr_scheduled :: bool
  gr_frames :: nat
  gr_inflight :: nat

definition graph_init :: graph_page where
  "graph_init = \<lparr>gr_routes = [], gr_metrics = None, gr_fatalError = None, gr_hovered = None, gr_window = W60,
     gr_stats = [], gr_pulses = [], gr_pending = [], gr_scheduled = False, gr_frames = 0, gr_inflight = 1\<rparr>"

section \<open>Handlers\<close>

text \<open>The pulse layer is mounted with the graph; without upstreams it is gone with its pulses.\<close>

definition graph_loaded :: "js_error + (route_snapshot \<times> metrics_response) \<Rightarrow> graph_page \<Rightarrow> graph_page" where
  "graph_loaded r s = (case r of
      Inr (rs, m) \<Rightarrow> s\<lparr>gr_routes := rs, gr_metrics := Some m, gr_fatalError := None,
        gr_pulses := (if rs = [] then [] else gr_pulses s)\<rparr>
    | Inl e \<Rightarrow> s\<lparr>gr_fatalError := Some (error_message_or ''Failed to load graph data'' e)\<rparr>)"

definition graph_record :: "bool \<Rightarrow> stream_event \<Rightarrow> graph_page \<Rightarrow> graph_page" where
  "graph_record visible evt s = (case evt of
      SnapshotOf items \<Rightarrow> s
    | RecordOf r \<Rightarrow>
        if \<not> visible then s
        else let s1 = s\<lparr>gr_pending := gr_pending s @ [r]\<rparr>
             in if gr_scheduled s1 then s1 else s1\<lparr>gr_scheduled := True, gr_frames := Suc (gr_frames s1)\<rparr>)"

definition spawnPulse :: "bool \<Rightarrow> string \<times> traffic_status \<Rightarrow> graph_page \<Rightarrow> graph_page" where
  "spawnPulse waapi es s =
     (if gr_routes s = [] then s
      else case (obj_get (computeLayout (gr_routes s)) PROXY_ID, obj_get (computeLayout (gr_routes s)) (fst es)) of
        (Some a, Some b) \<Rightarrow>
          if waapi then s\<lparr>gr_pulses := gr_pulses s @ [\<lparr>pu_upstream = fst es, pu_start = a, pu_end = b,
              pu_fill = if snd es = StOk then COk else CErr\<rparr>]\<rparr>
          else s
      | _ \<Rightarrow> s)"

definition flushPending :: "bool \<Rightarrow> graph_page \<Rightarrow> graph_page" where
  "flushPending waapi s =
     (let s0 = s\<lparr>gr_scheduled := False\<rparr>; rs = gr_pending s0
      in if rs = [] then s0
         else fold (spawnPulse waapi) (first_status rs)
           (s0\<lparr>gr_pending := [], gr_stats := fold count_record rs (gr_stats s0)\<rparr>))"

section \<open>What is shown\<close>

datatype gr_btn = BtnWindow window_s

type_synonym gr_view = "(gr_btn, unit) view"

definition hoveredRoute :: "graph_page \<Rightarrow> route_info option" where
  "hoveredRoute s = (case gr_hovered s of Some h \<Rightarrow> if h = PROXY_ID then None else obj_get (gr_routes s) h | None \<Rightarrow> None)"

definition hoveredMetrics :: "graph_page \<Rightarrow> upstream_metrics option" where
  "hoveredMetrics s = (case gr_hovered s of
      Some h \<Rightarrow> if h = PROXY_ID then None
        else (case gr_metrics s of Some m \<Rightarrow> obj_get (mr_per_upstream m) h | None \<Rightarrow> None)
    | None \<Rightarrow> None)"

definition tooltip :: "formats \<Rightarrow> graph_page \<Rightarrow> route_info \<Rightarrow> gr_view" where
  "tooltip fm s info = Box [
     opt_text (gr_hovered s),
     Badge (if isHealthy (Some info) then ToneOk else ToneErr) [Txt (if isHealthy (Some info) then ''healthy'' else ''unhealthy'')],
     (case transportOf (Some info) of Some t \<Rightarrow> cond (t \<noteq> []) (Box [Txt ''transport: '', Txt t]) | None \<Rightarrow> Box []),
     (case hoveredMetrics s of
        Some m \<Rightarrow> Box [Txt ''total'', Txt (show_int (um_total m)), Txt ''errors'', Txt (show_int (um_errors m)),
          Txt ''p50'', Txt (fm_num fm (um_latency_p50_ms m) @ '' ms''), Txt ''p95'', Txt (fm_num fm (um_latency_p95_ms m) @ '' ms''),
          Txt ''p99'', Txt (fm_num fm (um_latency_p99_ms m) @ '' ms'')]
      | None \<Rightarrow> Txt ''No traffic in metrics window'')]"

fun window_label :: "window_s \<Rightarrow> string" where
  "window_label W60 = ''60s''"
| "window_label W300 = ''5m''"
| "window_label W900 = ''15m''"

definition graph_scene :: "graph_page \<Rightarrow> shape list" where
  "graph_scene s = TrafficGraph (gr_hovered s) (graph_nodes (gr_routes s) (gr_stats s))
     (graph_edges (gr_routes s) (gr_stats s) (gr_window s))"

definition scene_text :: "shape \<Rightarrow> string list" where
  "scene_text sh = (case sh of AText p t c z \<Rightarrow> [t] | _ \<Rightarrow> [])"

definition graph_view :: "formats \<Rightarrow> graph_page \<Rightarrow> gr_view" where
  "graph_view fm s =
     (let dropped = (case gr_metrics s of Some m \<Rightarrow> mr_dropped_for_subscribers m | None \<Rightarrow> 0) in Box [
       Txt ''Graph'', Txt ''Real-time topology of traffic flowing from MCPxy to upstream servers'',
       cond (0 < dropped) (Badge ToneWarn [Txt (show_int dropped @ '' dropped'')]),
       Box (map (\<lambda>w. Button (BtnWindow w) False [Txt (window_label w)]) [W60, W300, W900]),
       error_box (gr_fatalError s),
       (if gr_routes s = []
        then SectionCard ''No upstreams'' (Box [])
          [Txt ''No upstreams are configured. Add one from the Browse or Config page and it will appear on the graph automatically.'']
        else SectionCard ''Traffic topology'' (Box []) [
          Box (map Txt (concat (map scene_text (graph_scene s)))),
          (case hoveredRoute s of Some info \<Rightarrow> tooltip fm s info | None \<Rightarrow> Box []),
          Box (map Txt [''healthy traffic'', ''some errors'', ''many errors'', ''idle''])])])"

section \<open>The machine\<close>

datatype gr_event =
    GrAct "(gr_btn, unit) action"
  | GrHover "string option"
  | GrPoll
  | GrLoaded "js_error + (route_snapshot \<times> metrics_response)"
  | GrStream bool stream_event
  | GrFrame bool
  | GrDecay
  | GrPulseEnd pulse

fun gr_step :: "gr_event \<Rightarrow> graph_page \<Rightarrow> graph_page" where
  "gr_step (GrAct (Click (BtnWindow w))) s = s\<lparr>gr_window := w\<rparr>"
| "gr_step (GrAct (Edit f v)) s = s"
| "gr_step (GrAct (Toggle f)) s = s"
| "gr_step (GrHover h) s = s\<lparr>gr_hovered := h\<rparr>"
| "gr_step GrPoll s = s\<lparr>gr_inflight := Suc (gr_inflight s)\<rparr>"
| "gr_step (GrLoaded r) s = graph_loaded r (s\<lparr>gr_inflight := gr_inflight s - 1\<rparr>)"
| "gr_step (GrStream visible evt) s = graph_record visible evt s"
| "gr_step (GrFrame waapi) s = flushPending waapi (s\<lparr>gr_frames := gr_frames s - 1\<rparr>)"
| "gr_step GrDecay s = s\<lparr>gr_stats := decay_tick (gr_window s) (gr_stats s)\<rparr>"
| "gr_step (GrPulseEnd p) s = s\<lparr>gr_pulses := remove1 p (gr_pulses s)\<rparr>"

fun gr_enabled :: "formats \<Rightarrow> graph_page \<Rightarrow> gr_event \<Rightarrow> bool" where
  "gr_enabled fm s (GrAct a) = offers (graph_view fm s) a"
| "gr_enabled fm s (GrHover h) = (case h of None \<Rightarrow> True
     | Some x \<Rightarrow> gr_routes s \<noteq> [] \<and> x \<in> gn_id ` set (graph_nodes (gr_routes s) (gr_stats s)))"
| "gr_enabled fm s GrPoll = True"
| "gr_enabled fm s (GrLoaded r) = (0 < gr_inflight s)"
| "gr_enabled fm s (GrStream visible evt) = True"
| "gr_enabled fm s (GrFrame waapi) = (0 < gr_frames s)"
| "gr_enabled fm s GrDecay = True"
| "gr_enabled fm s (GrPulseEnd p) = (p \<in> set (gr_pulses s))"

section \<open>Lemmas\<close>

definition oks :: "string \<Rightarrow> traffic_record list \<Rightarrow> real" where
  "oks u rs = real (length (filter (\<lambda>r. tr_upstream r = u \<and> tr_status r = StOk) rs))"

definition errs :: "string \<Rightarrow> traffic_record list \<Rightarrow> real" where
  "errs u rs = real (length (filter (\<lambda>r. tr_upstream r = u \<and> tr_status r \<noteq> StOk) rs))"

lemma count_record_get:
  assumes "tr_upstream r \<noteq> ''__proto__''"
  shows "stats_of (count_record r stats) u = (if u = tr_upstream r then bump (tr_status r) (stats_of stats u) else stats_of stats u)"
  using assms by (cases "obj_get stats (tr_upstream r)")
    (auto simp: stats_of_def count_record_def Let_def nullish_def obj_assign_def update_conv)

lemma bump_fields:
  "es_ok (bump st s) = es_ok s + (if st = StOk then 1 else 0)" "es_err (bump st s) = es_err s + (if st = StOk then 0 else 1)"
  by (simp_all add: bump_def)

lemma count_records_get:
  assumes "list_all (\<lambda>r. tr_upstream r \<noteq> ''__proto__'') rs"
  shows "es_ok (stats_of (fold count_record rs stats) u) = es_ok (stats_of stats u) + oks u rs
    \<and> es_err (stats_of (fold count_record rs stats) u) = es_err (stats_of stats u) + errs u rs"
  using assms
proof (induction rs arbitrary: stats)
  case (Cons r rs)
  then show ?case
    using Cons.IH [of "count_record r stats"]
    by (auto simp: count_record_get bump_fields oks_def errs_def)
qed (simp add: oks_def errs_def)

definition stats_ok :: "edge_stats obj \<Rightarrow> bool" where
  "stats_ok stats \<longleftrightarrow> obj_wf stats \<and> list_all (\<lambda>e. 0 \<le> es_ok (snd e) \<and> 0 \<le> es_err (snd e)) stats"

lemma stats_ok_count:
  assumes "stats_ok stats" shows "stats_ok (count_record r stats)"
proof -
  have put: "stats_ok (obj_put k x m)" if "stats_ok m" "0 \<le> es_ok x \<and> 0 \<le> es_err x" for k x m
    using that list_all_obj_put [of "\<lambda>s. 0 \<le> es_ok s \<and> 0 \<le> es_err s" m x k] by (simp add: stats_ok_def)
  have assign: "stats_ok (obj_assign k no_stats stats)" for k
    using assms put [of stats no_stats k] by (simp add: obj_assign_def no_stats_def)
  have bumped: "stats_ok (obj_put k (bump st s) m)" if "stats_ok m" "obj_get m k = Some s" for k s m st
    using that put [OF that(1), of "bump st s" k] list_all_obj_get [of "\<lambda>s. 0 \<le> es_ok s \<and> 0 \<le> es_err s" m k s]
    by (simp add: stats_ok_def bump_fields)
  show ?thesis using assms assign bumped by (auto simp: count_record_def Let_def split: option.splits)
qed

lemma stats_ok_counts: "stats_ok stats \<Longrightarrow> stats_ok (fold count_record rs stats)"
  by (induction rs arbitrary: stats) (simp_all add: stats_ok_count)

lemma decay_keys: "map fst (decay_tick w stats) = map fst (filter (\<lambda>e. \<not> intensity (snd e) < 1 / 100) stats)"
  by (induction stats) (auto simp: decay_tick_def decay_entry_def)

lemma decay_pos: "0 < DECAY_PER_SEC w \<and> DECAY_PER_SEC w \<le> 995 / 1000"
  by (cases w) simp_all

lemma stats_ok_decay: "stats_ok stats \<Longrightarrow> stats_ok (decay_tick w stats)"
proof -
  assume ok: "stats_ok stats"
  have "list_all (\<lambda>e. 0 \<le> es_ok (snd e) \<and> 0 \<le> es_err (snd e)) stats \<Longrightarrow>
      list_all (\<lambda>e. 0 \<le> es_ok (snd e) \<and> 0 \<le> es_err (snd e)) (decay_tick w stats)"
    using decay_pos [of w] by (induction stats) (auto simp: decay_tick_def decay_entry_def)
  moreover have "distinct (map fst stats) \<Longrightarrow> distinct (map fst (decay_tick w stats))"
    unfolding decay_keys by (rule distinct_map_filter)
  ultimately show ?thesis using ok by (simp add: stats_ok_def obj_wf_def)
qed

lemma spawn_frame [simp]:
  "gr_stats (fold (spawnPulse b) xs s) = gr_stats s" "gr_pending (fold (spawnPulse b) xs s) = gr_pending s"
  "gr_scheduled (fold (spawnPulse b) xs s) = gr_scheduled s" "gr_frames (fold (spawnPulse b) xs s) = gr_frames s"
  "gr_routes (fold (spawnPulse b) xs s) = gr_routes s"
  by (induction xs arbitrary: s) (auto simp: spawnPulse_def split: option.splits)

text \<open>At most one frame is requested, exactly when \<open>scheduled\<close> says so, and records wait only for it.\<close>

definition graph_inv :: "graph_page \<Rightarrow> bool" where
  "graph_inv s \<longleftrightarrow> gr_frames s = (if gr_scheduled s then 1 else 0) \<and> (gr_pending s \<noteq> [] \<longleftrightarrow> gr_scheduled s)
     \<and> stats_ok (gr_stats s)"

lemma graph_inv_step: "graph_inv s \<Longrightarrow> gr_enabled fm s ev \<Longrightarrow> graph_inv (gr_step ev s)"
  by (cases "(ev, s)" rule: gr_step.cases)
    (auto simp: graph_inv_def graph_loaded_def graph_record_def flushPending_def Let_def stats_ok_decay stats_ok_counts
      split: sum.splits stream_event.splits)

interpretation graph: machine "gr_enabled fm" gr_step graph_init graph_inv
  by unfold_locales (auto simp: graph_inv_step, simp add: graph_inv_def graph_init_def stats_ok_def obj_wf_def)

text \<open>The pulses of one frame.\<close>

lemma first_status_fold:
  "obj_get (fold (\<lambda>r m. if obj_get m (tr_upstream r) = None then obj_put (tr_upstream r) (tr_status r) m else m) rs m) u
     = (case obj_get m u of Some st \<Rightarrow> Some st | None \<Rightarrow> map_option tr_status (find (\<lambda>r. tr_upstream r = u) rs))"
  by (induction rs arbitrary: m) (auto simp: update_conv split: option.splits)

lemma first_status_get: "obj_get (first_status rs) u = map_option tr_status (find (\<lambda>r. tr_upstream r = u) rs)"
  by (simp add: first_status_def first_status_fold)

lemma first_status_wf: "obj_wf (first_status rs)"
proof -
  have "obj_wf m \<Longrightarrow> obj_wf (fold (\<lambda>r m. if obj_get m (tr_upstream r) = None then obj_put (tr_upstream r) (tr_status r) m else m) rs m)" for m
    by (induction rs arbitrary: m) auto
  then show ?thesis by (simp add: first_status_def obj_wf_def)
qed

lemma first_status_keys: "fst ` set (first_status rs) = tr_upstream ` set rs"
proof -
  have "u \<in> fst ` set (first_status rs) \<longleftrightarrow> u \<in> tr_upstream ` set rs" for u
  proof -
    have "u \<in> fst ` set (first_status rs) \<longleftrightarrow> obj_get (first_status rs) u \<noteq> None" by (simp add: map_of_eq_None_iff)
    also have "\<dots> \<longleftrightarrow> u \<in> tr_upstream ` set rs" by (auto simp: first_status_get find_None_iff)
    finally show ?thesis .
  qed
  then show ?thesis by blast
qed

lemma layout_proxy: "obj_get (computeLayout routes) PROXY_ID \<noteq> None"
proof -
  have "obj_get m x \<noteq> None \<Longrightarrow> obj_get (fold (\<lambda>i. obj_put (f i) (g i)) xs m) x \<noteq> None" for m x f g and xs :: "nat list"
    by (induction xs arbitrary: m) (auto simp: update_conv)
  from this [of "[(PROXY_ID, CENTER)]" PROXY_ID] show ?thesis unfolding computeLayout_def Let_def by fastforce
qed

definition drawn :: "graph_page \<Rightarrow> string \<Rightarrow> bool" where
  "drawn s u \<longleftrightarrow> gr_routes s \<noteq> [] \<and> obj_get (computeLayout (gr_routes s)) u \<noteq> None"

definition pulse_for :: "graph_page \<Rightarrow> string \<times> traffic_status \<Rightarrow> pulse" where
  "pulse_for s e = \<lparr>pu_upstream = fst e, pu_start = proxy_position (gr_routes s), pu_end = pos_of (gr_routes s) (fst e),
     pu_fill = if snd e = StOk then COk else CErr\<rparr>"

lemma spawn_pulses:
  "gr_pulses (fold (spawnPulse waapi) es s) = gr_pulses s @ (if waapi then map (pulse_for s) (filter (\<lambda>e. drawn s (fst e)) es) else [])"
proof (induction es arbitrary: s)
  case (Cons e es)
  have routes: "gr_routes (spawnPulse waapi e s) = gr_routes s"
    by (auto simp: spawnPulse_def split: option.splits)
  then have "drawn (spawnPulse waapi e s) = drawn s" "pulse_for (spawnPulse waapi e s) = pulse_for s"
    by (auto simp: drawn_def pulse_for_def fun_eq_iff)
  moreover have "gr_pulses (spawnPulse waapi e s) = gr_pulses s @ (if waapi \<and> drawn s (fst e) then [pulse_for s e] else [])"
    using layout_proxy [of "gr_routes s"]
    by (auto simp: spawnPulse_def drawn_def pulse_for_def proxy_position_def pos_of_def nullish_def split: option.splits)
  ultimately show ?case using Cons [of "spawnPulse waapi e s"] by (cases waapi) simp_all
qed simp

text \<open>The decay.\<close>

lemma decay_bound:
  assumes "list_all (\<lambda>e. intensity (snd e) \<le> b) stats" and "0 \<le> b"
  shows "list_all (\<lambda>e. intensity (snd e) \<le> b * (995 / 1000)) (decay_tick w stats)"
proof -
  have "intensity s * DECAY_PER_SEC w \<le> b * (995 / 1000)" if "\<not> intensity s < 1 / 100" "intensity s \<le> b" for s
    using decay_pos [of w] that assms(2) by (intro mult_mono) auto
  then show ?thesis
    using assms(1) by (induction stats) (auto simp: decay_tick_def decay_entry_def intensity_def distrib_right)
qed

lemma decay_bounds:
  assumes "list_all (\<lambda>e. intensity (snd e) \<le> b) stats" and "0 \<le> b"
  shows "list_all (\<lambda>e. intensity (snd e) \<le> b * (995 / 1000) ^ n) (fold (\<lambda>i. decay_tick (w i)) [0..<n] stats)"
proof (induction n)
  case (Suc n)
  have "0 \<le> b * (995 / 1000) ^ n" using assms(2) by simp
  have "b * (995 / 1000) ^ Suc n = b * (995 / 1000) ^ n * (995 / 1000)" by simp
  with decay_bound [OF Suc \<open>0 \<le> b * (995 / 1000) ^ n\<close>, of "w n"] show ?case by (simp only: upt_Suc_append le0 fold_append fold.simps o_apply id_apply)
qed (use assms(1) in simp)

lemma decay_last: "list_all (\<lambda>e. intensity (snd e) < 1 / 100) stats \<Longrightarrow> decay_tick w stats = []"
  by (induction stats) (auto simp: decay_tick_def decay_entry_def)

lemma half_lives:
  "DECAY_PER_SEC W60 ^ 12 < 1 / 2 \<and> 1 / 2 < DECAY_PER_SEC W60 ^ 11"
  "DECAY_PER_SEC W300 ^ 46 < 1 / 2 \<and> 1 / 2 < DECAY_PER_SEC W300 ^ 45"
  "DECAY_PER_SEC W900 ^ 139 < 1 / 2 \<and> 1 / 2 < DECAY_PER_SEC W900 ^ 138"
  by (simp_all add: power_divide)

section \<open>Properties\<close>

text \<open>The counters are kept in a plain object, so the names of the properties that every object inherits do
  not count as absent; the theorem is about the others.\<close>

definition plain_name :: "string \<Rightarrow> bool" where
  "plain_name u \<longleftrightarrow> u \<notin> set [''__proto__'', ''constructor'', ''hasOwnProperty'', ''isPrototypeOf'',
     ''propertyIsEnumerable'', ''toLocaleString'', ''toString'', ''valueOf'', ''__defineGetter__'',
     ''__defineSetter__'', ''__lookupGetter__'', ''__lookupSetter__'']"

lemma plain_names: "list_all (\<lambda>r. plain_name (tr_upstream r)) rs \<Longrightarrow> list_all (\<lambda>r. tr_upstream r \<noteq> ''__proto__'') rs"
  by (auto simp: list_all_iff plain_name_def)

text \<open>C10: The frame loses nothing and requests nothing twice. In every reachable state records wait if and only
  if an animation frame is requested, and never more than one is; a record that arrives while the tab is
  visible waits behind the others with a frame requested for it. When the frame runs, nothing waits and none is
  requested any more, each upstream's two counters grow by exactly its numbers of successful and other
  records in the buffer, and each upstream on the graph that occurs in it gets one pulse, in the colour of its
  first record. The last part is for upstreams that are not called like an inherited property of objects
  (\<open>__proto__\<close>, \<open>constructor\<close>, ...).\<close>

theorem frame_counts_all:
  fixes waapi :: bool
  assumes "reachable (gr_enabled fm) gr_step graph_init s"
  defines "t \<equiv> gr_step (GrFrame waapi) s"
  shows "(gr_pending s \<noteq> [] \<longleftrightarrow> gr_frames s = 1) \<and> gr_frames s \<le> 1
    \<and> (gr_enabled fm s (GrFrame waapi) \<longleftrightarrow> gr_pending s \<noteq> [])
    \<and> gr_pending (gr_step (GrStream True (RecordOf r)) s) = gr_pending s @ [r]
    \<and> gr_frames (gr_step (GrStream True (RecordOf r)) s) = 1
    \<and> (gr_enabled fm s (GrFrame waapi) \<longrightarrow> gr_frames t = 0 \<and> gr_pending t = []
        \<and> (list_all (\<lambda>r. plain_name (tr_upstream r)) (gr_pending s) \<longrightarrow>
            es_ok (stats_of (gr_stats t) u) = es_ok (stats_of (gr_stats s) u) + oks u (gr_pending s)
            \<and> es_err (stats_of (gr_stats t) u) = es_err (stats_of (gr_stats s) u) + errs u (gr_pending s)
            \<and> (\<exists>new. gr_pulses t = gr_pulses s @ new \<and> distinct (map pu_upstream new)
                 \<and> set (map pu_upstream new) = {x \<in> tr_upstream ` set (gr_pending s). waapi \<and> drawn s x}
                 \<and> list_all (\<lambda>p. map_option tr_status (find (\<lambda>r. tr_upstream r = pu_upstream p) (gr_pending s)) = Some StOk \<longleftrightarrow> pu_fill p = COk) new)))"
proof -
  have inv: "graph_inv s" by (rule graph.reachable_inv [OF assms(1)])
  then have wait: "gr_pending s \<noteq> [] \<longleftrightarrow> gr_frames s = 1" "gr_frames s \<le> 1"
    "gr_enabled fm s (GrFrame waapi) \<longleftrightarrow> gr_pending s \<noteq> []" "gr_scheduled s \<longleftrightarrow> gr_frames s = 1"
    by (auto simp: graph_inv_def split: if_splits)
  then have rec: "gr_pending (gr_step (GrStream True (RecordOf r)) s) = gr_pending s @ [r]"
    "gr_frames (gr_step (GrStream True (RecordOf r)) s) = 1"
    by (auto simp: graph_record_def Let_def)
  let ?fs = "first_status (gr_pending s)"
  let ?new = "if waapi then map (pulse_for s) (filter (\<lambda>e. drawn s (fst e)) ?fs) else []"
  have ups: "map pu_upstream (map (pulse_for s) xs) = map fst xs" for xs by (simp add: pulse_for_def)
  have distinct: "distinct (map pu_upstream ?new)"
    using distinct_map_filter [of fst ?fs] first_status_wf [of "gr_pending s"] by (simp add: ups obj_wf_def del: map_map)
  have drawn: "set (map pu_upstream ?new) = {x \<in> tr_upstream ` set (gr_pending s). waapi \<and> drawn s x}"
  proof -
    have "set (map pu_upstream ?new) = (if waapi then set (map fst (filter (\<lambda>e. drawn s (fst e)) ?fs)) else {})"
      by (simp only: ups list.set list.map if_distrib [of "map pu_upstream"] if_distrib [of set])
    then show ?thesis unfolding first_status_keys [symmetric] by auto
  qed
  have colour: "list_all (\<lambda>p. map_option tr_status (find (\<lambda>r. tr_upstream r = pu_upstream p) (gr_pending s)) = Some StOk \<longleftrightarrow> pu_fill p = COk) ?new"
    using map_of_is_SomeI [OF first_status_wf [unfolded obj_wf_def], of _ _ "gr_pending s"]
    by (auto simp: list_all_iff pulse_for_def first_status_get [symmetric] split: if_splits)
  have t: "gr_frames t = 0 \<and> gr_pending t = [] \<and> gr_stats t = fold count_record (gr_pending s) (gr_stats s)
    \<and> gr_pulses t = gr_pulses s @ ?new" if "gr_enabled fm s (GrFrame waapi)"
    using that wait by (simp add: t_def flushPending_def Let_def spawn_pulses drawn_def pulse_for_def)
  show ?thesis
  proof (intro conjI impI)
    fix x
    assume en: "gr_enabled fm s (GrFrame waapi)" and plain: "list_all (\<lambda>r. plain_name (tr_upstream r)) (gr_pending s)"
    show "es_ok (stats_of (gr_stats t) u) = es_ok (stats_of (gr_stats s) u) + oks u (gr_pending s)"
      "es_err (stats_of (gr_stats t) u) = es_err (stats_of (gr_stats s) u) + errs u (gr_pending s)"
      using t [OF en] count_records_get [OF plain_names [OF plain]] by auto
    show "\<exists>new. gr_pulses t = gr_pulses s @ new \<and> distinct (map pu_upstream new)
                 \<and> set (map pu_upstream new) = {x \<in> tr_upstream ` set (gr_pending s). waapi \<and> drawn s x}
                 \<and> list_all (\<lambda>p. map_option tr_status (find (\<lambda>r. tr_upstream r = pu_upstream p) (gr_pending s)) = Some StOk \<longleftrightarrow> pu_fill p = COk) new"
      using t [OF en] distinct drawn colour by (intro exI [of _ ?new]) blast
  qed (use wait rec t in auto)
qed

definition graph_demo :: "gr_event list" where
  "graph_demo = [GrStream True (RecordOf (traffic_of ''a'')), GrStream False (RecordOf (traffic_of ''a'')),
     GrStream True (RecordOf (traffic_of ''a''))]"

theorem frame_counts_all_witness:
  "\<exists>s. run (gr_enabled plain_formats) gr_step graph_init graph_demo = Some s
     \<and> es_ok (stats_of (gr_stats (gr_step (GrFrame True) s)) ''a'') = 2"
proof -
  let ?r = "run (gr_enabled plain_formats) gr_step graph_init graph_demo"
  have run: "?r \<noteq> None \<and> gr_pending (the ?r) = [traffic_of ''a'', traffic_of ''a''] \<and> gr_stats (the ?r) = []
      \<and> gr_enabled plain_formats (the ?r) (GrFrame True)"
    by (simp add: graph_demo_def graph_init_def graph_record_def Let_def)
  then have "reachable (gr_enabled plain_formats) gr_step graph_init (the ?r)" by (intro run_reachable) simp
  moreover have "list_all (\<lambda>r. plain_name (tr_upstream r)) (gr_pending (the ?r))"
    using run by (simp add: traffic_of_def plain_name_def)
  ultimately have "es_ok (stats_of (gr_stats (gr_step (GrFrame True) (the ?r))) ''a'')
      = es_ok (stats_of (gr_stats (the ?r)) ''a'') + oks ''a'' (gr_pending (the ?r))"
    using frame_counts_all [of plain_formats "the ?r" True] run by blast
  moreover have "oks ''a'' (gr_pending (the ?r)) = 2" "es_ok (stats_of (gr_stats (the ?r)) ''a'') = 0"
    using run by (simp_all add: oks_def traffic_of_def stats_of_def nullish_def no_stats_def)
  ultimately show ?thesis using run by (intro exI [of _ "the ?r"]) simp
qed

text \<open>C18: An idle graph comes to rest: whatever traffic there was, and whichever windows are selected from second to
  second, there is a number of decay ticks without traffic after which no counter is left.\<close>

theorem idle_edges_vanish:
  "\<exists>n. \<forall>w :: nat \<Rightarrow> window_s. fold (\<lambda>i. decay_tick (w i)) [0..<n] stats = []"
proof -
  define b where "b = Max (insert 0 ((\<lambda>e. intensity (snd e)) ` set stats))"
  have b: "0 \<le> b" "list_all (\<lambda>e. intensity (snd e) \<le> b) stats"
    by (auto simp: b_def list_all_iff)
  obtain n where n: "(995 / 1000 :: real) ^ n < 1 / 100 / (b + 1)"
    using real_arch_pow_inv [of "1 / 100 / (b + 1)" "995 / 1000"] b(1) by auto
  have "b * (995 / 1000) ^ n \<le> (b + 1) * (995 / 1000) ^ n" by (simp add: mult_right_mono)
  also have "\<dots> < (b + 1) * (1 / 100 / (b + 1))" using n b(1) by (intro mult_strict_left_mono) auto
  also have "\<dots> = 1 / 100" using b(1) by simp
  finally have small: "b * (995 / 1000) ^ n < 1 / 100" .
  have "fold (\<lambda>i. decay_tick (w i)) [0..<Suc n] stats = []" for w :: "nat \<Rightarrow> window_s"
  proof -
    have "list_all (\<lambda>e. intensity (snd e) < 1 / 100) (fold (\<lambda>i. decay_tick (w i)) [0..<n] stats)"
      using decay_bounds [OF b(2) b(1), of n w] small by (auto simp: list_all_iff)
    from decay_last [OF this, of "w n"] show ?thesis by simp
  qed
  then show ?thesis by blast
qed

end
