(* ===== verification/OverviewPage.thy ===== *)
theory OverviewPage
  imports TrafficPage
begin

text \<open>
  \<open>frontend/src/pages/Overview.tsx\<close>: the figures, polled every 5 seconds (\<open>OvTick\<close>), and the chart of 30
  buckets, fed by the stream. \<open>Date.now()\<close> is part of the event that reads it; it need not be monotone. The
  chart library is not modelled: \<open>chart_points\<close> is the data and the labels it receives.
\<close>

section \<open>Figures\<close>

definition formatUptime :: "real \<Rightarrow> string" where
  "formatUptime s =
     (if s < 60 then show_int (math_round s) @ ''s''
      else if s < 3600 then show_int (math_round (s / 60)) @ ''m''
      else if s < 86400 then to_fixed 1 (s / 3600) @ ''h''
      else to_fixed 1 (s / 86400) @ ''d'')"

section \<open>Buckets\<close>

record bucket =
  bk_t :: int
  bk_ok :: nat
  bk_err :: nat

definition BUCKETS :: nat where "BUCKETS = 30"
definition BUCKET_MS :: int where "BUCKET_MS = 2000"

text \<open>\<open>clock i\<close> is the reading for the i-th initial bucket.\<close>

definition initial_buckets :: "(nat \<Rightarrow> int) \<Rightarrow> bucket list" where
  "initial_buckets clock = map (\<lambda>i. \<lparr>bk_t = clock i - (29 - int i) * BUCKET_MS, bk_ok = 0, bk_err = 0\<rparr>) [0..<BUCKETS]"

definition count_in :: "bool \<Rightarrow> bucket \<Rightarrow> bucket" where
  "count_in isOk b = b\<lparr>bk_ok := bk_ok b + (if isOk then 1 else 0), bk_err := bk_err b + (if isOk then 0 else 1)\<rparr>"

definition new_bucket :: "int \<Rightarrow> bool \<Rightarrow> bucket" where
  "new_bucket now isOk = \<lparr>bk_t = now, bk_ok = if isOk then 1 else 0, bk_err = if isOk then 0 else 1\<rparr>"

definition bucket_step :: "int \<Rightarrow> bool \<Rightarrow> bucket list \<Rightarrow> bucket list" where
  "bucket_step now isOk prev =
     (let lastBucket = last prev in
      if now - bk_t lastBucket < BUCKET_MS then prev[length prev - 1 := count_in isOk lastBucket]
      else tl prev @ [new_bucket now isOk])"

section \<open>The page\<close>

record overview_page =
  ov_metrics :: "metrics_response option"
  ov_health :: "health_response option"
  ov_buckets :: "bucket list"
  ov_inflight :: nat

definition overview_init :: "(nat \<Rightarrow> int) \<Rightarrow> overview_page" where
  "overview_init clock = \<lparr>ov_metrics = None, ov_health = None, ov_buckets = initial_buckets clock, ov_inflight = 1\<rparr>"

text \<open>Both calls of a poll, or the first error; an error changes nothing.\<close>

definition overview_loaded :: "js_error + (metrics_response \<times> health_response) \<Rightarrow> overview_page \<Rightarrow> overview_page" where
  "overview_loaded r s = (case r of
      Inr (m, h) \<Rightarrow> s\<lparr>ov_metrics := Some m, ov_health := Some h\<rparr>
    | Inl e \<Rightarrow> s)"

definition on_record :: "int \<Rightarrow> stream_event \<Rightarrow> overview_page \<Rightarrow> overview_page" where
  "on_record now evt s = (case evt of
      SnapshotOf items \<Rightarrow> s
    | RecordOf r \<Rightarrow> s\<lparr>ov_buckets := bucket_step now (tr_status r = StOk) (ov_buckets s)\<rparr>)"

datatype ov_event =
    OvTick
  | OvLoaded "js_error + (metrics_response \<times> health_response)"
  | OvStream int stream_event

fun ov_step :: "ov_event \<Rightarrow> overview_page \<Rightarrow> overview_page" where
  "ov_step OvTick s = s\<lparr>ov_inflight := Suc (ov_inflight s)\<rparr>"
| "ov_step (OvLoaded r) s = overview_loaded r (s\<lparr>ov_inflight := ov_inflight s - 1\<rparr>)"
| "ov_step (OvStream now evt) s = on_record now evt s"

fun ov_enabled :: "overview_page \<Rightarrow> ov_event \<Rightarrow> bool" where
  "ov_enabled s (OvLoaded r) = (0 < ov_inflight s)"
| "ov_enabled s ev = True"

section \<open>What is shown\<close>

definition chart_points :: "formats \<Rightarrow> bucket list \<Rightarrow> (string \<times> nat \<times> nat) list" where
  "chart_points fm bs = map (\<lambda>b. (take 5 (drop 3 (fm_time fm (real_of_int (bk_t b)))), bk_ok b, bk_err b)) bs"

definition upstream_figures :: "formats \<Rightarrow> string \<times> upstream_metrics \<Rightarrow> (unit, unit) view" where
  "upstream_figures fm nm = (case nm of (name, m) \<Rightarrow> Box [Txt name, Txt (show_int (um_total m)), Txt (show_int (um_errors m)),
     Txt (fm_num fm (um_latency_p50_ms m) @ '' ms''), Txt (fm_num fm (um_latency_p95_ms m) @ '' ms''),
     Txt (fm_num fm (um_latency_p99_ms m) @ '' ms'')])"

definition overview_view :: "formats \<Rightarrow> overview_page \<Rightarrow> (unit, unit) view" where
  "overview_view fm s =
     (let ups = (case ov_health s of Some h \<Rightarrow> length (own_keys (hr_upstreams h)) | None \<Rightarrow> 0);
          figure = (\<lambda>f. case ov_metrics s of Some m \<Rightarrow> Txt (f m) | None \<Rightarrow> Txt ''-'')
      in Box [
        Txt ''Overview'', Txt ''Live snapshot of MCPxy health and traffic'',
        (case ov_health s of Some h \<Rightarrow> cond (hr_version h \<noteq> []) (Txt (''v'' @ hr_version h)) | None \<Rightarrow> Box []),
        StatCard ''Uptime'' (case ov_health s of Some h \<Rightarrow> Txt (formatUptime (hr_uptime_s h)) | None \<Rightarrow> Txt ''-'')
          (Some (Txt (show_nat ups @ '' upstreams''))),
        StatCard ''Requests (5m)'' (figure (\<lambda>m. fm_int fm (mr_total m)))
          (map_option (\<lambda>m. Txt (show_int (mr_errors m) @ '' errors'')) (ov_metrics s)),
        StatCard ''Error rate'' (figure (\<lambda>m. to_fixed 1 (mr_error_rate m * 100) @ ''%'')) (Some (Txt ''last 5 minutes'')),
        StatCard ''p95 latency'' (figure (\<lambda>m. to_fixed 0 (mr_latency_p95_ms m) @ '' ms'')) (Some (Txt ''last 5 minutes'')),
        SectionCard ''Traffic (last minute)'' (Box []) (map (\<lambda>p. Txt (fst p)) (chart_points fm (ov_buckets s))),
        (case ov_metrics s of
           Some m \<Rightarrow> cond (mr_per_upstream m \<noteq> []) (SectionCard ''Per-upstream'' (Box [])
             (Box (map Txt [''Upstream'', ''Total'', ''Errors'', ''p50'', ''p95'', ''p99''])
              # map (upstream_figures fm) (own_entries (mr_per_upstream m))))
         | None \<Rightarrow> Box [])])"

section \<open>The buckets as a window of an unbounded history\<close>

text \<open>The reference: the same records counted without ever dropping a bucket.\<close>

definition history_step :: "int \<times> bool \<Rightarrow> bucket list \<Rightarrow> bucket list" where
  "history_step r h = (if fst r - bk_t (last h) < BUCKET_MS then butlast h @ [count_in (snd r) (last h)]
     else h @ [new_bucket (fst r) (snd r)])"

definition history :: "(int \<times> bool) list \<Rightarrow> bucket list \<Rightarrow> bucket list" where
  "history rs h = fold history_step rs h"

definition window :: "bucket list \<Rightarrow> bucket list" where
  "window h = drop (length h - BUCKETS) h"

definition spaced :: "bucket list \<Rightarrow> bool" where
  "spaced bs \<longleftrightarrow> sorted_wrt (\<lambda>a b. bk_t a + BUCKET_MS \<le> bk_t b) bs"

lemma window_length [simp]: "BUCKETS \<le> length h \<Longrightarrow> length (window h) = BUCKETS"
  by (simp add: window_def)

lemma window_snoc: "BUCKETS \<le> Suc (length ys) \<Longrightarrow> window (ys @ [y]) = drop (Suc (length ys) - BUCKETS) ys @ [y]"
  by (simp add: window_def BUCKETS_def)

lemma window_snoc2: "BUCKETS \<le> length ys \<Longrightarrow> window (ys @ [b]) = tl (window ys) @ [b]"
  by (simp add: window_snoc) (simp add: window_def tl_drop drop_Suc [symmetric] Suc_diff_le)

lemma bucket_step_snoc:
  "bucket_step now ok (ys @ [y]) = (if now - bk_t y < BUCKET_MS then ys @ [count_in ok y] else tl (ys @ [y]) @ [new_bucket now ok])"
  by (simp add: bucket_step_def Let_def)

lemma window_step:
  assumes "BUCKETS \<le> length h" shows "bucket_step now ok (window h) = window (history_step (now, ok) h)"
proof -
  obtain ys y where h: "h = ys @ [y]" using assms by (cases h rule: rev_cases) (auto simp: BUCKETS_def)
  have len: "BUCKETS \<le> Suc (length ys)" using assms h by simp
  have "window (h @ [b]) = tl (drop (Suc (length ys) - BUCKETS) ys @ [y]) @ [b]" for b
    using window_snoc2 [OF assms] window_snoc [OF len] by (simp add: h)
  then show ?thesis
    using window_snoc [OF len] by (simp add: h history_step_def bucket_step_snoc del: tl_append)
qed

lemma history_length: "BUCKETS \<le> length h \<Longrightarrow> BUCKETS \<le> length (history_step r h)"
  by (auto simp: history_step_def BUCKETS_def)

lemma window_history:
  "BUCKETS \<le> length h \<Longrightarrow> fold (\<lambda>r. bucket_step (fst r) (snd r)) rs (window h) = window (history rs h)"
  unfolding history_def
proof (induction rs arbitrary: h)
  case (Cons r rs)
  show ?case using Cons.IH [OF history_length [OF Cons.prems, of r]] by (simp add: window_step Cons.prems)
qed simp

definition total_ok :: "bucket list \<Rightarrow> nat" where "total_ok bs = sum_list (map bk_ok bs)"
definition total_err :: "bucket list \<Rightarrow> nat" where "total_err bs = sum_list (map bk_err bs)"

lemma history_step_totals:
  "h \<noteq> [] \<Longrightarrow> total_ok (history_step r h) = total_ok h + (if snd r then 1 else 0)
     \<and> total_err (history_step r h) = total_err h + (if snd r then 0 else 1) \<and> history_step r h \<noteq> []"
  by (cases h rule: rev_cases) (auto simp: history_step_def total_ok_def total_err_def count_in_def new_bucket_def)

lemma history_totals:
  "h \<noteq> [] \<Longrightarrow> total_ok (history rs h) = total_ok h + length (filter snd rs)
     \<and> total_err (history rs h) = total_err h + length (filter (\<lambda>r. \<not> snd r) rs)"
  unfolding history_def
proof (induction rs arbitrary: h)
  case (Cons r rs)
  then show ?case using history_step_totals [of h r] by auto
qed simp

lemma spaced_snoc: "spaced (bs @ [b]) \<longleftrightarrow> spaced bs \<and> (\<forall>a \<in> set bs. bk_t a + BUCKET_MS \<le> bk_t b)"
  by (auto simp: spaced_def sorted_wrt_append)

lemma history_step_spaced: "h \<noteq> [] \<Longrightarrow> spaced h \<Longrightarrow> spaced (history_step r h)"
  by (cases h rule: rev_cases) (auto simp: history_step_def spaced_def sorted_wrt_append count_in_def new_bucket_def BUCKET_MS_def)

lemma history_spaced: "h \<noteq> [] \<Longrightarrow> spaced h \<Longrightarrow> spaced (history rs h)"
  unfolding history_def
proof (induction rs arbitrary: h)
  case (Cons r rs)
  then show ?case using history_step_spaced [of h r] history_step_totals [of h r] by auto
qed simp

lemma window_spaced: "spaced h \<Longrightarrow> spaced (window h)"
  by (simp add: spaced_def window_def sorted_wrt_drop)

lemma initial_facts:
  "length (initial_buckets clock) = BUCKETS" "total_ok (initial_buckets clock) = 0" "total_err (initial_buckets clock) = 0"
  by (simp_all add: initial_buckets_def total_ok_def total_err_def o_def BUCKETS_def)

lemma initial_spaced: "mono clock \<Longrightarrow> spaced (initial_buckets clock)"
  by (auto simp: spaced_def initial_buckets_def sorted_wrt_iff_nth_less BUCKETS_def BUCKET_MS_def
      dest!: monoD [of clock _ _, OF _ less_imp_le])

section \<open>Properties\<close>

fun stream_counts :: "ov_event list \<Rightarrow> (int \<times> bool) list" where
  "stream_counts (OvStream now (RecordOf r) # es) = (now, tr_status r = StOk) # stream_counts es"
| "stream_counts (e # es) = stream_counts es"
| "stream_counts [] = []"

lemma buckets_fold:
  "ov_buckets (fold ov_step es s) = fold (\<lambda>r. bucket_step (fst r) (snd r)) (stream_counts es) (ov_buckets s)"
  by (induction es arbitrary: s rule: stream_counts.induct)
    (auto simp: on_record_def overview_loaded_def split: sum.splits)

text \<open>C11: The chart is the end of an exact history. Whatever arrives, and whatever the clock does, the page always
  holds 30 buckets, which are the 30 youngest of the history that never drops one; in that history each
  streamed record is counted exactly once, as success or as error; and if the clock did not run backwards while
  the page was set up, consecutive buckets lie at least two seconds apart.\<close>

theorem chart_is_window:
  fixes es :: "ov_event list" and clock :: "nat \<Rightarrow> int"
  defines "h \<equiv> history (stream_counts es) (initial_buckets clock)"
  defines "s \<equiv> fold ov_step es (overview_init clock)"
  shows "ov_buckets s = drop (length h - 30) h \<and> length (ov_buckets s) = 30
    \<and> total_ok h = length (filter snd (stream_counts es)) \<and> total_err h = length (filter (\<lambda>r. \<not> snd r) (stream_counts es))
    \<and> (mono clock \<longrightarrow> spaced (ov_buckets s))"
proof -
  let ?i = "initial_buckets clock"
  have ne: "?i \<noteq> []" using initial_facts(1) [of clock] by (auto simp: BUCKETS_def)
  have start: "window ?i = ?i" by (simp add: window_def initial_facts)
  have "ov_buckets s = fold (\<lambda>r. bucket_step (fst r) (snd r)) (stream_counts es) ?i"
    by (simp add: s_def buckets_fold overview_init_def)
  also have "\<dots> = window h"
    using window_history [of ?i "stream_counts es"] by (simp add: start initial_facts h_def)
  finally have w: "ov_buckets s = window h" .
  have "BUCKETS \<le> length (history rs ?i)" for rs
    unfolding history_def by (induction rs rule: rev_induct) (simp_all add: history_length initial_facts)
  then show ?thesis
    using w history_totals [OF ne] window_spaced [OF history_spaced [OF ne initial_spaced]]
    by (simp add: h_def initial_facts window_def BUCKETS_def)
qed

theorem chart_is_window_witness:
  "ov_buckets (fold ov_step [OvStream 500 (RecordOf (traffic_of ''a'')), OvStream 4000 (RecordOf (traffic_of ''a''))] (overview_init (\<lambda>i. 0)))
     = drop 1 (history [(500, True), (4000, True)] (initial_buckets (\<lambda>i. 0)))
   \<and> spaced (ov_buckets (fold ov_step [OvStream 500 (RecordOf (traffic_of ''a'')), OvStream 4000 (RecordOf (traffic_of ''a''))]
        (overview_init (\<lambda>i. 0))))"
proof -
  let ?es = "[OvStream 500 (RecordOf (traffic_of ''a'')), OvStream 4000 (RecordOf (traffic_of ''a''))]"
  have counts: "stream_counts ?es = [(500, True), (4000, True)]" by (simp add: traffic_of_def)
  have "mono (\<lambda>i::nat. 0::int)" by (simp add: mono_def)
  then have "ov_buckets (fold ov_step ?es (overview_init (\<lambda>i. 0)))
      = drop (length (history [(500, True), (4000, True)] (initial_buckets (\<lambda>i. 0))) - 30)
          (history [(500, True), (4000, True)] (initial_buckets (\<lambda>i. 0)))
      \<and> spaced (ov_buckets (fold ov_step ?es (overview_init (\<lambda>i. 0))))"
    using chart_is_window [of ?es "\<lambda>i. 0"] unfolding counts by blast
  moreover have "(31::nat) - 30 = 1" by simp
  moreover have "length (history [(500, True), (4000, True)] (initial_buckets (\<lambda>i. 0))) = 31" by code_simp
  ultimately show ?thesis by metis
qed

text \<open>C38: The uptime is right to the displayed digit: for a duration of at least zero, the number shown before
  the unit is the duration in that unit up to half a unit of its last digit.\<close>

theorem uptime_accuracy:
  assumes "0 \<le> s"
  shows "\<exists>n u len dp. formatUptime s = fixed_digits dp n @ u
    \<and> (u, len, dp) \<in> {(''s'', 1, 0), (''m'', 60, 0), (''h'', 3600, 1), (''d'', 86400, 1)}
    \<and> \<bar>s - real n / 10 ^ dp * len\<bar> \<le> len / 10 ^ dp / 2 \<and> (u = ''s'' \<or> len \<le> s)"
proof -
  have whole: "show_int (math_round x) = fixed_digits 0 (nat (math_round x)) \<and> \<bar>x - real (nat (math_round x))\<bar> \<le> 1 / 2"
    if "0 \<le> x" for x
  proof -
    have "0 \<le> math_round x" using that unfolding math_round_def by simp
    then show ?thesis
      using math_round_near [of x] show_nat_neq_Nil [of "nat (math_round x)"]
      by (simp add: fixed_digits_def show_int_def Let_def Suc_le_eq)
  qed
  have scaled: "\<exists>n. to_fixed 1 x = fixed_digits 1 n \<and> \<bar>x - real n / 10\<bar> \<le> 1 / 20" if nn: "0 \<le> x" for x
  proof -
    obtain n where "to_fixed 1 x = fixed_digits 1 n" "\<bar>x * 10 - real n\<bar> \<le> 1 / 2"
      using to_fixed_near [OF nn, of 1] by auto
    then show ?thesis by (intro exI [of _ n]) (auto simp: abs_if field_simps split: if_splits)
  qed
  have unit: "\<bar>s - y * L\<bar> \<le> e * L" if "0 < L" "\<bar>s / L - y\<bar> \<le> e" for L y e
  proof -
    have "s - y * L = (s / L - y) * L" using that(1) by (simp add: left_diff_distrib)
    then have "\<bar>s - y * L\<bar> = \<bar>s / L - y\<bar> * L" using that(1) by (simp add: abs_mult)
    also have "\<dots> \<le> e * L" using that by (intro mult_right_mono) auto
    finally show ?thesis .
  qed
  have tenth: "\<exists>n. to_fixed 1 (s / L) = fixed_digits 1 n \<and> \<bar>s - real n / 10 * L\<bar> \<le> L / 10 / 2" if L: "0 < L" for L
  proof -
    obtain n where "to_fixed 1 (s / L) = fixed_digits 1 n" "\<bar>s / L - real n / 10\<bar> \<le> 1 / 20"
      using scaled [of "s / L"] assms L by auto
    then show ?thesis using unit [OF L] by fastforce
  qed
  consider "s < 60" | "60 \<le> s" "s < 3600" | "3600 \<le> s" "s < 86400" | "86400 \<le> s" by linarith
  then show ?thesis
  proof cases
    case 1
    then show ?thesis using whole [OF assms]
      by (intro exI [of _ "nat (math_round s)"] exI [of _ "''s''"] exI [of _ 1] exI [of _ 0]) (simp add: formatUptime_def)
  next
    case 2
    then have "0 \<le> s / 60" by simp
    from whole [OF this] obtain n where n: "show_int (math_round (s / 60)) = fixed_digits 0 n" "\<bar>s / 60 - real n\<bar> \<le> 1 / 2"
      by blast
    have "\<bar>s - real n * 60\<bar> \<le> 1 / 2 * 60" by (rule unit [OF _ n(2)]) simp
    then show ?thesis using 2 n(1)
      by (intro exI [of _ n] exI [of _ "''m''"] exI [of _ 60] exI [of _ 0]) (simp add: formatUptime_def)
  next
    case 3
    then obtain n where "to_fixed 1 (s / 3600) = fixed_digits 1 n" "\<bar>s - real n / 10 * 3600\<bar> \<le> 3600 / 10 / 2"
      using tenth [of 3600] by auto
    moreover have "formatUptime s = to_fixed 1 (s / 3600) @ ''h''" using 3 by (simp add: formatUptime_def)
    ultimately have "formatUptime s = fixed_digits 1 n @ ''h''" "\<bar>s - real n / 10 ^ 1 * 3600\<bar> \<le> 3600 / 10 ^ 1 / 2"
      by (simp_all only: power_one_right)
    then show ?thesis using 3 by blast
  next
    case 4
    then obtain n where "to_fixed 1 (s / 86400) = fixed_digits 1 n" "\<bar>s - real n / 10 * 86400\<bar> \<le> 86400 / 10 / 2"
      using tenth [of 86400] by auto
    moreover have "formatUptime s = to_fixed 1 (s / 86400) @ ''d''" using 4 by (simp add: formatUptime_def)
    ultimately have "formatUptime s = fixed_digits 1 n @ ''d''" "\<bar>s - real n / 10 ^ 1 * 86400\<bar> \<le> 86400 / 10 ^ 1 / 2"
      by (simp_all only: power_one_right)
    then show ?thesis using 4 by blast
  qed
qed

theorem uptime_accuracy_witness:
  "\<exists>n u. formatUptime 5400 = fixed_digits 1 n @ u \<and> u = ''h'' \<and> n = 15"
proof -
  obtain n u len dp where f: "formatUptime 5400 = fixed_digits dp n @ u"
    and c: "(u, len, dp) \<in> {(''s'', 1, 0), (''m'', 60, 0), (''h'', 3600, 1), (''d'', 86400, 1)}"
    "\<bar>5400 - real n / 10 ^ dp * len\<bar> \<le> len / 10 ^ dp / 2" "u = ''s'' \<or> len \<le> 5400"
    using uptime_accuracy [of 5400] by auto
  have "formatUptime 5400 = to_fixed 1 (3 / 2) @ ''h''" by (simp add: formatUptime_def)
  then have "last u = CHR ''h''" using f c(1) by (metis (no_types, opaque_lifting) last_appendR append_is_Nil_conv
    insertE last_ConsL list.distinct(1) prod.inject singletonD)
  then have "u = ''h''" "len = 3600" "dp = 1" using c(1) by auto
  then have "\<bar>5400 - real n * 360\<bar> \<le> 180" using c(2) by simp
  then have "n = 15" by linarith
  with f \<open>u = ''h''\<close> \<open>dp = 1\<close> show ?thesis by blast
qed

text \<open>The chart is headed "last minute" but only records move it: a record that arrives after any pause
  drops one bucket, and the other 29 stay, however old they are.\<close>

theorem chart_keeps_old_buckets:
  assumes "length (ov_buckets s) = 30" and "spaced (ov_buckets s)" and "bk_t (last (ov_buckets s)) + pause \<le> now" and "2000 \<le> pause"
  shows "let bs = ov_buckets (ov_step (OvStream now (RecordOf r)) s) in
    length bs = 30 \<and> butlast bs = tl (ov_buckets s) \<and> (\<forall>b \<in> set (butlast bs). bk_t b + pause \<le> now)"
proof -
  let ?p = "ov_buckets s"
  have step: "ov_buckets (ov_step (OvStream now (RecordOf r)) s) = tl ?p @ [new_bucket now (tr_status r = StOk)]"
    using assms(3,4) by (simp add: on_record_def bucket_step_def BUCKET_MS_def Let_def)
  obtain ys y where p: "?p = ys @ [y]" using assms(1) by (cases ?p rule: rev_cases) auto
  have "bk_t b \<le> bk_t y" if "b \<in> set ?p" for b
    using that assms(2) by (auto simp: p spaced_snoc BUCKET_MS_def)
  moreover have "set (tl ?p) \<subseteq> set ?p" using assms(1) by (cases ?p) auto
  ultimately show ?thesis
    using assms(1,3) step by (force simp: Let_def p)
qed

theorem chart_keeps_old_buckets_witness:
  "butlast (ov_buckets (ov_step (OvStream 3600000 (RecordOf (traffic_of ''a''))) (overview_init (\<lambda>i. 0))))
     = tl (initial_buckets (\<lambda>i. 0))"
proof -
  let ?s = "overview_init (\<lambda>i. 0)"
  have "length (ov_buckets ?s) = 30" by (simp add: overview_init_def initial_facts BUCKETS_def)
  moreover have "spaced (ov_buckets ?s)" by (simp add: overview_init_def initial_spaced mono_def)
  moreover have "bk_t (last (ov_buckets ?s)) = 0"
    by (simp add: overview_init_def initial_buckets_def BUCKETS_def last_map)
  ultimately show ?thesis
    using chart_keeps_old_buckets [of ?s 3600000 3600000 "traffic_of ''a''"] by (simp add: Let_def overview_init_def)
qed

end
