(* ===== verification/ConfigPage.thy ===== *)
theory ConfigPage
  imports ApiClient View
begin

text \<open>
  \<open>frontend/src/pages/Config.tsx\<close>: the configuration as an editable JSON document with its three
  operations. The configuration is the \<open>json\<close> value of the reply. The text of the \<open>SyntaxError\<close> thrown by
  \<open>JSON.parse\<close> is the browser's and a parameter (\<open>syntax_msg\<close>). The answer to the confirmation of Apply is
  part of the click event.
\<close>

section \<open>State\<close>

datatype cf_req = CqLoad | CqReload | CqValidate json | CqPreview json | CqApply json

record config_page =
  cf_current :: "json option"
  cf_draft :: string
  cf_result :: "string option"
  cf_toneOk :: bool
  cf_busy :: bool
  cf_pending :: "cf_req list"

record validate_result =
  vr_valid :: bool
  vr_error :: "string option"

definition config_init :: config_page where
  "config_init = \<lparr>cf_current = None, cf_draft = [], cf_result = None, cf_toneOk = True, cf_busy = False,
     cf_pending = [CqLoad]\<rparr>"

definition show_result :: "bool \<Rightarrow> string \<Rightarrow> config_page \<Rightarrow> config_page" where
  "show_result ok msg s = s\<lparr>cf_toneOk := ok, cf_result := Some msg\<rparr>"

section \<open>Handlers\<close>

definition load_config :: "js_error + json \<Rightarrow> config_page \<Rightarrow> config_page" where
  "load_config r s = (case r of
      Inr cfg \<Rightarrow> s\<lparr>cf_current := Some cfg, cf_draft := json_stringify2 cfg, cf_result := None\<rparr>
    | Inl e \<Rightarrow> show_result False (error_message_or ''Failed to load config'' e) s)"

text \<open>\<open>None\<close> stands for the \<open>null\<close> of a draft that does not parse; the draft \<open>null\<close> gives \<open>Some JNull\<close>, which
  the callers' \<open>if (!cfg) return\<close> treats alike, as it does every other falsy value.\<close>

definition parseDraft :: "(string \<Rightarrow> string) \<Rightarrow> config_page \<Rightarrow> json option \<times> config_page" where
  "parseDraft syntax_msg s = (case json_parse (cf_draft s) of
      Some j \<Rightarrow> (Some j, s)
    | None \<Rightarrow> (None, show_result False (''Invalid JSON: '' @ syntax_msg (cf_draft s)) s))"

definition cf_start :: "(json \<Rightarrow> cf_req) \<Rightarrow> json \<Rightarrow> config_page \<Rightarrow> config_page" where
  "cf_start q cfg s = s\<lparr>cf_busy := True, cf_pending := cf_pending s @ [q cfg]\<rparr>"

definition if_truthy :: "json option \<times> config_page \<Rightarrow> (json \<Rightarrow> config_page \<Rightarrow> config_page) \<Rightarrow> config_page" where
  "if_truthy p k = (case p of
      (Some cfg, s) \<Rightarrow> if json_truthy cfg then k cfg s else s
    | (None, s) \<Rightarrow> s)"

definition validate_config :: "(string \<Rightarrow> string) \<Rightarrow> config_page \<Rightarrow> config_page" where
  "validate_config syntax_msg s = if_truthy (parseDraft syntax_msg s) (cf_start CqValidate)"

definition preview_config :: "(string \<Rightarrow> string) \<Rightarrow> config_page \<Rightarrow> config_page" where
  "preview_config syntax_msg s = if_truthy (parseDraft syntax_msg s) (cf_start CqPreview)"

definition apply_config :: "(string \<Rightarrow> string) \<Rightarrow> bool \<Rightarrow> config_page \<Rightarrow> config_page" where
  "apply_config syntax_msg confirmed s =
     if_truthy (parseDraft syntax_msg s) (\<lambda>cfg t. if confirmed then cf_start CqApply cfg t else t)"

text \<open>The path and the body of each request.\<close>

fun config_body :: "cf_req \<Rightarrow> (string \<times> json) option" where
  "config_body (CqValidate cfg) = Some (''/admin/api/config/validate'', JObj [(''config'', cfg)])"
| "config_body (CqPreview cfg) = Some (''/admin/api/config'', JObj [(''config'', cfg), (''dry_run'', JBool True)])"
| "config_body (CqApply cfg) = Some (''/admin/api/config'', JObj [(''config'', cfg)])"
| "config_body CqLoad = None"
| "config_body CqReload = None"

definition validate_reply :: "js_error + validate_result \<Rightarrow> config_page \<Rightarrow> config_page" where
  "validate_reply r s = (case r of
      Inr out \<Rightarrow> show_result (vr_valid out)
        (if vr_valid out then ''Config is valid.'' else nullish (vr_error out) ''Invalid config'') s
    | Inl e \<Rightarrow> show_result False (error_message_or ''Validation failed'' e) s)\<lparr>cf_busy := False\<rparr>"

definition preview_reply :: "js_error + json \<Rightarrow> config_page \<Rightarrow> config_page" where
  "preview_reply r s = (case r of
      Inr out \<Rightarrow> show_result True (json_stringify2 out) s
    | Inl e \<Rightarrow> show_result False (error_message_or ''Dry run failed'' e) s)\<lparr>cf_busy := False\<rparr>"

text \<open>After a successful application the page waits for a reload, still busy.\<close>

definition apply_reply :: "js_error + json \<Rightarrow> config_page \<Rightarrow> config_page" where
  "apply_reply r s = (case r of
      Inr out \<Rightarrow> (show_result True (''Applied.'' @ [CHR 0x0A] @ json_stringify2 out) s)
        \<lparr>cf_pending := cf_pending s @ [CqReload]\<rparr>
    | Inl e \<Rightarrow> (show_result False (error_message_or ''Apply failed'' e) s)\<lparr>cf_busy := False\<rparr>)"

definition reload_reply :: "js_error + json \<Rightarrow> config_page \<Rightarrow> config_page" where
  "reload_reply r s = (load_config r s)\<lparr>cf_busy := False\<rparr>"

section \<open>What is shown\<close>

datatype cf_btn = BtnValidate | BtnPreview | BtnApply

definition config_upstreams :: "json option \<Rightarrow> (string \<times> json) list" where
  "config_upstreams current = (case current of None \<Rightarrow> []
    | Some cfg \<Rightarrow> (case json_get cfg ''upstreams'' of Some (JObj es) \<Rightarrow> own_entries es | _ \<Rightarrow> []))"

definition upstream_line :: "json \<Rightarrow> string list" where
  "upstream_line u =
     (if json_get u ''type'' = Some (JStr ''stdio'')
      then [json_text_or (json_get u ''command'') [] @ '' ''
              @ (case json_get u ''args'' of Some (JArr xs) \<Rightarrow> js_join '' '' xs | _ \<Rightarrow> [])] else [])
     @ (if json_get u ''type'' = Some (JStr ''http'') then [json_text_or (json_get u ''url'') []] else [])"

definition config_view :: "config_page \<Rightarrow> (cf_btn, unit) view" where
  "config_view s = Box [
     Txt ''Configuration'', Txt ''View and edit the live proxy configuration. Changes apply via hot reload.'',
     cond (config_upstreams (cf_current s) \<noteq> []) (SectionCard ''Upstreams'' (Box []) (map (\<lambda>(name, u). Box
       (Txt name # Badge ToneAccent [Txt (json_text_or (json_get u ''type'') ''?'')] # map Txt (upstream_line u)))
       (config_upstreams (cf_current s)))),
     SectionCard ''Raw JSON''
       (Box [Button BtnValidate (cf_busy s) [Txt ''Validate''],
             Button BtnPreview (cf_busy s) [Txt ''Dry run''],
             Button BtnApply (cf_busy s) [Txt ''Apply'']])
       [Input () False (cf_draft s), error_box (cf_result s)]]"

section \<open>The machine\<close>

datatype cf_event =
    CfAct "(cf_btn, unit) action" bool
  | CfLoaded "js_error + json"
  | CfReloaded "js_error + json"
  | CfValidated json "js_error + validate_result"
  | CfPreviewed json "js_error + json"
  | CfApplied json "js_error + json"

fun cf_req_of :: "cf_event \<Rightarrow> cf_req option" where
  "cf_req_of (CfLoaded r) = Some CqLoad"
| "cf_req_of (CfReloaded r) = Some CqReload"
| "cf_req_of (CfValidated cfg r) = Some (CqValidate cfg)"
| "cf_req_of (CfPreviewed cfg r) = Some (CqPreview cfg)"
| "cf_req_of (CfApplied cfg r) = Some (CqApply cfg)"
| "cf_req_of (CfAct a c) = None"

fun cf_handle :: "(string \<Rightarrow> string) \<Rightarrow> cf_event \<Rightarrow> config_page \<Rightarrow> config_page" where
  "cf_handle sm (CfAct (Click BtnValidate) c) s = validate_config sm s"
| "cf_handle sm (CfAct (Click BtnPreview) c) s = preview_config sm s"
| "cf_handle sm (CfAct (Click BtnApply) c) s = apply_config sm c s"
| "cf_handle sm (CfAct (Edit f v) c) s = s\<lparr>cf_draft := v\<rparr>"
| "cf_handle sm (CfAct (Toggle f) c) s = s"
| "cf_handle sm (CfLoaded r) s = load_config r s"
| "cf_handle sm (CfReloaded r) s = reload_reply r s"
| "cf_handle sm (CfValidated cfg r) s = validate_reply r s"
| "cf_handle sm (CfPreviewed cfg r) s = preview_reply r s"
| "cf_handle sm (CfApplied cfg r) s = apply_reply r s"

definition cf_step :: "(string \<Rightarrow> string) \<Rightarrow> cf_event \<Rightarrow> config_page \<Rightarrow> config_page" where
  "cf_step sm ev s = cf_handle sm ev (case cf_req_of ev of
      Some q \<Rightarrow> s\<lparr>cf_pending := remove1 q (cf_pending s)\<rparr> | None \<Rightarrow> s)"

definition cf_enabled :: "config_page \<Rightarrow> cf_event \<Rightarrow> bool" where
  "cf_enabled s ev = (case ev of
      CfAct a c \<Rightarrow> offers (config_view s) a
    | _ \<Rightarrow> (case cf_req_of ev of Some q \<Rightarrow> q \<in> set (cf_pending s) | None \<Rightarrow> False))"

section \<open>Lemmas\<close>

lemma offers_texts [simp]: "\<not> list_ex (\<lambda>v. offers v a) (map Txt ls)"
  by (auto simp: list_ex_iff)

lemma config_offers:
  "offers (config_view s) a \<longleftrightarrow> (\<exists>b. a = Click b \<and> \<not> cf_busy s) \<or> (\<exists>v. a = Edit () v)"
proof -
  have "offers (config_view s) a \<longleftrightarrow> \<not> cf_busy s \<and> a \<in> {Click BtnValidate, Click BtnPreview, Click BtnApply} \<or> offers (Input () False (cf_draft s)) a"
    by (auto simp: config_view_def simp del: offers.simps(4))
  then show ?thesis
    by (cases a) (auto, metis cf_btn.exhaust)
qed

lemma config_clicks:
  "if_truthy (parseDraft sm s) k = (case json_parse (cf_draft s) of
      None \<Rightarrow> show_result False (''Invalid JSON: '' @ sm (cf_draft s)) s
    | Some cfg \<Rightarrow> if json_truthy cfg then k cfg s else s)"
  by (simp add: if_truthy_def parseDraft_def split: option.splits)

fun is_operation :: "cf_req \<Rightarrow> bool" where
  "is_operation CqLoad = False"
| "is_operation _ = True"

fun sends_truthy :: "cf_req \<Rightarrow> bool" where
  "sends_truthy (CqValidate cfg) = json_truthy cfg"
| "sends_truthy (CqPreview cfg) = json_truthy cfg"
| "sends_truthy (CqApply cfg) = json_truthy cfg"
| "sends_truthy _ = True"

definition config_inv :: "config_page \<Rightarrow> bool" where
  "config_inv s \<longleftrightarrow> length (filter is_operation (cf_pending s)) = (if cf_busy s then 1 else 0)
     \<and> list_all sends_truthy (cf_pending s)"

lemmas config_defs = load_config_def show_result_def validate_config_def preview_config_def apply_config_def config_clicks
  cf_start_def validate_reply_def preview_reply_def apply_reply_def reload_reply_def

lemma list_all_remove1: "list_all p xs \<Longrightarrow> list_all p (remove1 x xs)"
  by (auto simp: list_all_iff dest: notin_set_remove1)

lemma operation_settled:
  assumes "config_inv s" and "q \<in> set (cf_pending s)" and "is_operation q"
  shows "cf_busy s \<and> filter is_operation (remove1 q (cf_pending s)) = []"
  using assms(1) by (intro filter_settle assms(2,3)) (simp add: config_inv_def)

lemma config_inv_step:
  assumes "config_inv s" and "cf_enabled s ev"
  shows "config_inv (cf_step sm ev s)"
proof (cases ev)
  case (CfAct a c)
  then have "(\<exists>b. a = Click b \<and> \<not> cf_busy s) \<or> (\<exists>v. a = Edit () v)"
    using assms(2) by (simp add: cf_enabled_def config_offers)
  then show ?thesis
  proof (elim disjE exE conjE)
    fix b assume "a = Click b" "\<not> cf_busy s"
    then show ?thesis using assms(1) CfAct
      by (cases b) (auto simp: cf_step_def config_defs config_inv_def split: option.splits)
  qed (use assms(1) CfAct in \<open>auto simp: cf_step_def config_inv_def\<close>)
next
  case (CfLoaded r)
  then show ?thesis using assms
    by (auto simp: cf_step_def config_defs config_inv_def filter_remove1 list_all_remove1 remove1_idem split: sum.splits)
next
  case (CfReloaded r)
  then show ?thesis using assms operation_settled [OF assms(1), of CqReload]
    by (auto simp: cf_enabled_def cf_step_def config_defs config_inv_def list_all_remove1 split: sum.splits)
next
  case (CfValidated cfg r)
  then show ?thesis using assms operation_settled [OF assms(1), of "CqValidate cfg"]
    by (auto simp: cf_enabled_def cf_step_def config_defs config_inv_def list_all_remove1 split: sum.splits)
next
  case (CfPreviewed cfg r)
  then show ?thesis using assms operation_settled [OF assms(1), of "CqPreview cfg"]
    by (auto simp: cf_enabled_def cf_step_def config_defs config_inv_def list_all_remove1 split: sum.splits)
next
  case (CfApplied cfg r)
  then show ?thesis using assms operation_settled [OF assms(1), of "CqApply cfg"]
    by (auto simp: cf_enabled_def cf_step_def config_defs config_inv_def list_all_remove1 split: sum.splits)
qed

interpretation config: single_flight cf_enabled "cf_step sm" config_init config_inv is_operation cf_pending cf_busy
  by unfold_locales (auto simp: config_inv_step, simp_all add: config_init_def config_inv_def)

text \<open>The message of a successful application is cleared by the reload it starts.\<close>

lemma applied_message_cleared:
  "cf_result (cf_step sm (CfReloaded (Inr cfg)) (cf_step sm (CfApplied c (Inr out)) s)) = None"
  by (simp add: cf_step_def config_defs)

lemma body_read:
  assumes "json_wf c" and "json_canon c = c"
  shows "json_parse (json_stringify (JObj [(''config'', c)])) = Some (JObj [(''config'', c)])"
    "json_parse (json_stringify (JObj [(''config'', c), (''dry_run'', JBool True)]))
       = Some (JObj [(''config'', c), (''dry_run'', JBool True)])"
proof -
  have "\<not> is_index_key ''config''" "\<not> is_index_key ''dry_run''"
    by (simp_all add: is_index_key_def is_digit_def)
  then show "json_parse (json_stringify (JObj [(''config'', c)])) = Some (JObj [(''config'', c)])"
    "json_parse (json_stringify (JObj [(''config'', c), (''dry_run'', JBool True)]))
       = Some (JObj [(''config'', c), (''dry_run'', JBool True)])"
    using assms by (simp_all add: parse_stringify own_entries_def)
qed

section \<open>Properties\<close>

text \<open>C4: An unedited document goes back unchanged: after a well-formed configuration that is an object was
  loaded, each of the three buttons posts that configuration (with its keys in enumeration order, which
  JSON does not distinguish), and the proxy reads the same value back from the body.\<close>

theorem config_round_trip:
  assumes "json_wf (JObj es)" and "b = BtnApply \<longrightarrow> confirmed"
  shows "\<exists>q path body. cf_pending (cf_step sm (CfAct (Click b) confirmed) (load_config (Inr (JObj es)) s)) = cf_pending s @ [q]
    \<and> config_body q = Some (path, JObj body) \<and> obj_get body ''config'' = Some (json_canon (JObj es))
    \<and> (\<exists>got. json_parse (json_stringify (JObj body)) = Some got
          \<and> json_get got ''config'' = Some (json_canon (JObj es))
          \<and> (json_get got ''dry_run'' = Some (JBool True) \<longleftrightarrow> b = BtnPreview))"
proof -
  obtain c where c: "c = json_canon (JObj es)" and parse: "json_parse (json_stringify2 (JObj es)) = Some c"
    and wf: "json_wf c" and canon: "json_canon c = c" and truthy: "json_truthy c"
    using assms(1) by (simp only: parse_stringify2 json_canon_wf json_canon_idem) simp
  show ?thesis
    unfolding c [symmetric] using assms(2) parse truthy body_read [OF wf canon]
    by (cases b) (simp_all add: cf_step_def config_defs)
qed

definition demo_config :: "(string \<times> json) list" where
  "demo_config = [(''version'', JNum (Dec 1 0)), (''upstreams'', JObj [(''b'', JObj []), (''10'', JObj [])])]"

theorem config_round_trip_witness:
  "\<exists>q path body. cf_pending (cf_step id (CfAct (Click BtnApply) True) (load_config (Inr (JObj demo_config)) config_init)) = [CqLoad, q]
    \<and> config_body q = Some (path, JObj body) \<and> obj_get body ''config'' = Some (json_canon (JObj demo_config))"
proof -
  have "json_wf (JObj demo_config)" by (simp add: demo_config_def)
  from config_round_trip [OF this, of BtnApply True id config_init] show ?thesis
    by (auto simp: config_init_def)
qed

text \<open>C26: One operation at a time, and only on a document: in every reachable state the buttons can be pressed
  exactly when no operation is in flight, and what is in flight posts a truthy value. A draft that is not
  JSON is answered with a message and sends nothing; a falsy one (\<open>null\<close>, \<open>false\<close>, \<open>0\<close>, \<open>""\<close>) is ignored without any
  message; Apply sends nothing before it is confirmed.\<close>

theorem config_single_flight:
  assumes "reachable cf_enabled (cf_step sm) config_init s"
  shows "length (filter is_operation (cf_pending s)) \<le> 1 \<and> list_all sends_truthy (cf_pending s)
    \<and> (cf_enabled s (CfAct (Click b) c) \<longleftrightarrow> filter is_operation (cf_pending s) = [])
    \<and> (let t = cf_step sm (CfAct (Click b) c) s in case json_parse (cf_draft s) of
         None \<Rightarrow> t = s\<lparr>cf_toneOk := False, cf_result := Some (''Invalid JSON: '' @ sm (cf_draft s))\<rparr>
       | Some cfg \<Rightarrow> t = (if json_truthy cfg \<and> (b = BtnApply \<longrightarrow> c)
             then s\<lparr>cf_busy := True, cf_pending := cf_pending s @
               [case b of BtnValidate \<Rightarrow> CqValidate cfg | BtnPreview \<Rightarrow> CqPreview cfg | BtnApply \<Rightarrow> CqApply cfg]\<rparr> else s))"
proof -
  have inv: "config_inv s" by (rule config.reachable_inv [OF assms])
  have "length (filter is_operation (cf_pending s)) \<le> 1" "list_all sends_truthy (cf_pending s)"
    "cf_enabled s (CfAct (Click b) c) \<longleftrightarrow> filter is_operation (cf_pending s) = []"
    using config.one_operation [OF assms] config.idle_iff [OF assms] inv
    by (simp_all add: config_inv_def cf_enabled_def config_offers)
  moreover have "case json_parse (cf_draft s) of
         None \<Rightarrow> cf_step sm (CfAct (Click b) c) s = s\<lparr>cf_toneOk := False, cf_result := Some (''Invalid JSON: '' @ sm (cf_draft s))\<rparr>
       | Some cfg \<Rightarrow> cf_step sm (CfAct (Click b) c) s = (if json_truthy cfg \<and> (b = BtnApply \<longrightarrow> c)
             then s\<lparr>cf_busy := True, cf_pending := cf_pending s @
               [case b of BtnValidate \<Rightarrow> CqValidate cfg | BtnPreview \<Rightarrow> CqPreview cfg | BtnApply \<Rightarrow> CqApply cfg]\<rparr> else s)"
    by (cases b) (simp_all add: cf_step_def config_defs split: option.splits)
  ultimately show ?thesis unfolding Let_def by blast
qed

theorem config_single_flight_witness:
  "\<exists>s. cf_draft s = ''null'' \<and> cf_enabled s (CfAct (Click BtnApply) True) \<and> cf_step id (CfAct (Click BtnApply) True) s = s"
proof -
  let ?s = "the (run cf_enabled (cf_step id) config_init [CfAct (Edit () ''null'') False])"
  have r: "?s = config_init\<lparr>cf_draft := ''null''\<rparr>"
    by (simp add: cf_enabled_def config_offers cf_step_def)
  have "reachable cf_enabled (cf_step id) config_init ?s"
    by (rule run_reachable) (simp add: cf_enabled_def config_offers)
  moreover have "json_parse (cf_draft ?s) = Some JNull" unfolding r by code_simp
  moreover have "filter is_operation (cf_pending ?s) = []" unfolding r by (simp add: config_init_def)
  moreover have "cf_draft ?s = ''null''" unfolding r by simp
  ultimately show ?thesis
    using config_single_flight [of id ?s BtnApply True] by (intro exI [of _ ?s]) (simp add: Let_def)
qed

end
