(* ===== verification/ConnectPage.thy ===== *)
theory ConnectPage
  imports ApiClient View Url
begin

text \<open>
  \<open>frontend/src/pages/Connect.tsx\<close>: the instructions for connecting a client. An effect requests the
  snippet whenever the tab or an input changes; the requests are not cancelled, so their replies may come
  in any order. \<open>origin\<close> is \<open>window.location.origin\<close>. A copy button belongs to the text it copies; the
  one of the install command is mounted and unmounted with it, so its instances are numbered.
\<close>

section \<open>The clients\<close>

record client_info =
  cl_id :: string
  cl_label :: string
  cl_blurb :: string

definition CLIENTS :: "client_info list" where
  "CLIENTS = [
     \<lparr>cl_id = ''claude-desktop'', cl_label = ''Claude Desktop'',
      cl_blurb = ''Claude Desktop only supports stdio MCP servers. The install command registers `mcpxy-proxy stdio --connect URL` so the desktop app can talk to your running MCPxy proxy.''\<rparr>,
     \<lparr>cl_id = ''claude-code'', cl_label = ''Claude Code'',
      cl_blurb = ''Claude Code (CLI) supports HTTP transport. The snippet adds an HTTP MCP server entry.''\<rparr>,
     \<lparr>cl_id = ''chatgpt'', cl_label = ''ChatGPT'',
      cl_blurb = ''ChatGPT does not write a local config file. Copy the snippet below and paste it into the connector configuration.''\<rparr>]"

record install_snippet =
  is_client :: string
  is_auto :: bool
  is_entry :: json
  is_merged :: json
  is_paths :: "string list"

section \<open>State\<close>

datatype copy_slot = CopyInstall nat | CopyEntry | CopyMerged

type_synonym snippet_req = "string \<times> string \<times> string"

record connect_page =
  cn_tab :: string
  cn_url :: string
  cn_tokenEnv :: string
  cn_snippet :: "install_snippet option"
  cn_error :: "string option"
  cn_inst :: nat
  cn_copied :: "copy_slot list"
  cn_writes :: "(copy_slot \<times> string) list"
  cn_timers :: "copy_slot list"
  cn_pending :: "snippet_req list"

definition snippet_path :: "snippet_req \<Rightarrow> string" where
  "snippet_path q = (case q of (tab, url, tokenEnv) \<Rightarrow>
     ''/admin/api/install/'' @ tab @ ''?''
       @ query_string ((''url'', url) # (if tokenEnv \<noteq> [] then [(''token_env'', tokenEnv)] else [])))"

definition inputs :: "connect_page \<Rightarrow> snippet_req" where
  "inputs s = (cn_tab s, cn_url s, cn_tokenEnv s)"

text \<open>The effect: it runs after a rendering in which one of its dependencies changed.\<close>

definition snippet_effect :: "snippet_req \<Rightarrow> connect_page \<Rightarrow> connect_page" where
  "snippet_effect before s = (if inputs s = before then s else s\<lparr>cn_pending := cn_pending s @ [inputs s]\<rparr>)"

definition connect_init :: "string \<Rightarrow> connect_page" where
  "connect_init origin = (let tab = cl_id (hd CLIENTS) in
     \<lparr>cn_tab = tab, cn_url = origin, cn_tokenEnv = [], cn_snippet = None, cn_error = None, cn_inst = 0,
      cn_copied = [], cn_writes = [], cn_timers = [], cn_pending = [(tab, origin, [])]\<rparr>)"

definition auto_shown :: "install_snippet option \<Rightarrow> bool" where
  "auto_shown sn = (case sn of Some v \<Rightarrow> is_auto v | None \<Rightarrow> False)"

text \<open>A reply whose snippet has no install command unmounts that command's copy button.\<close>

definition snippet_reply :: "js_error + install_snippet \<Rightarrow> connect_page \<Rightarrow> connect_page" where
  "snippet_reply r s = (case r of
      Inr v \<Rightarrow> s\<lparr>cn_snippet := Some v,
        cn_inst := (if auto_shown (cn_snippet s) \<and> \<not> is_auto v then Suc (cn_inst s) else cn_inst s)\<rparr>
    | Inl e \<Rightarrow> s\<lparr>cn_error := Some (error_message_or ''Failed'' e)\<rparr>)"

definition installCommand :: "connect_page \<Rightarrow> string" where
  "installCommand s =
     ''mcpxy-proxy install --client '' @ cn_tab s @ '' --url '' @ json_stringify (JStr (cn_url s))
       @ (if cn_tokenEnv s \<noteq> [] then '' --token-env '' @ cn_tokenEnv s else [])"

definition entryText :: "connect_page \<Rightarrow> string" where
  "entryText s = (case cn_snippet s of Some v \<Rightarrow> json_stringify2 (is_entry v) | None \<Rightarrow> [])"

definition mergedText :: "connect_page \<Rightarrow> string" where
  "mergedText s = (case cn_snippet s of Some v \<Rightarrow> json_stringify2 (is_merged v) | None \<Rightarrow> [])"

definition active_client :: "connect_page \<Rightarrow> client_info option" where
  "active_client s = find (\<lambda>c. cl_id c = cn_tab s) CLIENTS"

section \<open>Copying\<close>

fun copy_text :: "connect_page \<Rightarrow> copy_slot \<Rightarrow> string" where
  "copy_text s (CopyInstall i) = installCommand s"
| "copy_text s CopyEntry = entryText s"
| "copy_text s CopyMerged = mergedText s"

definition copy_click :: "copy_slot \<Rightarrow> connect_page \<Rightarrow> connect_page" where
  "copy_click c s = s\<lparr>cn_writes := cn_writes s @ [(c, copy_text s c)]\<rparr>"

text \<open>The clipboard accepted (or refused) the text; the mark is taken back after 1.5 seconds.\<close>

definition copy_done :: "copy_slot \<Rightarrow> bool \<Rightarrow> connect_page \<Rightarrow> connect_page" where
  "copy_done c ok s = (if ok then s\<lparr>cn_copied := c # cn_copied s, cn_timers := cn_timers s @ [c]\<rparr> else s)"

definition copy_timeout :: "copy_slot \<Rightarrow> connect_page \<Rightarrow> connect_page" where
  "copy_timeout c s = s\<lparr>cn_copied := removeAll c (cn_copied s), cn_timers := remove1 c (cn_timers s)\<rparr>"

section \<open>What is shown\<close>

datatype cn_btn = BtnTab string | BtnCopy copy_slot
datatype cn_field = FUrl | FTokenEnv

type_synonym cn_view = "(cn_btn, cn_field) view"

definition CopyButton :: "connect_page \<Rightarrow> copy_slot \<Rightarrow> cn_view" where
  "CopyButton s c = Button (BtnCopy c) False [Txt (if c \<in> set (cn_copied s) then ''Copied'' else ''Copy'')]"

definition auto_install_view :: "connect_page \<Rightarrow> install_snippet \<Rightarrow> cn_view" where
  "auto_install_view s v = Box [Txt ''One-line install'', Txt (installCommand s), CopyButton s (CopyInstall (cn_inst s)),
     (case is_paths v of [] \<Rightarrow> Box [] | p # ps \<Rightarrow> Txt (''Will write to: '' @ p))]"

definition snippet_view :: "connect_page \<Rightarrow> install_snippet \<Rightarrow> cn_view" where
  "snippet_view s v = Box [cond (is_auto v) (auto_install_view s v),
     Badge ToneAccent [Txt ''JSON entry''], CopyButton s CopyEntry, Txt (entryText s),
     Badge ToneDefault [Txt ''Full merged config (preview)''], CopyButton s CopyMerged, Txt (mergedText s)]"

definition connect_view :: "connect_page \<Rightarrow> cn_view" where
  "connect_view s = Box [
     Txt ''Connect a client'', Txt ''One-click setup for Claude Desktop, Claude Code, and ChatGPT.'',
     Txt ''MCPxy URL'', Input FUrl False (cn_url s),
     Txt ''Token env var (optional)'', Input FTokenEnv False (cn_tokenEnv s),
     Box (map (\<lambda>c. Button (BtnTab (cl_id c)) False [Txt (cl_label c)]) CLIENTS),
     (case active_client s of
        Some c \<Rightarrow> SectionCard (cl_label c) (Box []) [Txt (cl_blurb c),
          (case cn_snippet s of Some v \<Rightarrow> snippet_view s v | None \<Rightarrow> error_box (cn_error s))]
      | None \<Rightarrow> Box [])]"

section \<open>The machine\<close>

datatype cn_event =
    CnAct "(cn_btn, cn_field) action"
  | CnSnippet snippet_req "js_error + install_snippet"
  | CnCopied copy_slot string bool
  | CnTimeout copy_slot

fun cn_handle :: "cn_event \<Rightarrow> connect_page \<Rightarrow> connect_page" where
  "cn_handle (CnAct (Click (BtnTab t))) s = s\<lparr>cn_tab := t\<rparr>"
| "cn_handle (CnAct (Click (BtnCopy c))) s = copy_click c s"
| "cn_handle (CnAct (Edit FUrl v)) s = s\<lparr>cn_url := v\<rparr>"
| "cn_handle (CnAct (Edit FTokenEnv v)) s = s\<lparr>cn_tokenEnv := v\<rparr>"
| "cn_handle (CnAct (Toggle f)) s = s"
| "cn_handle (CnSnippet q r) s = snippet_reply r (s\<lparr>cn_pending := remove1 q (cn_pending s)\<rparr>)"
| "cn_handle (CnCopied c t ok) s = copy_done c ok (s\<lparr>cn_writes := remove1 (c, t) (cn_writes s)\<rparr>)"
| "cn_handle (CnTimeout c) s = copy_timeout c s"

definition cn_step :: "cn_event \<Rightarrow> connect_page \<Rightarrow> connect_page" where
  "cn_step ev s = snippet_effect (inputs s) (cn_handle ev s)"

fun cn_enabled :: "connect_page \<Rightarrow> cn_event \<Rightarrow> bool" where
  "cn_enabled s (CnAct a) = offers (connect_view s) a"
| "cn_enabled s (CnSnippet q r) = (q \<in> set (cn_pending s))"
| "cn_enabled s (CnCopied c t ok) = ((c, t) \<in> set (cn_writes s))"
| "cn_enabled s (CnTimeout c) = (c \<in> set (cn_timers s))"

text \<open>A proxy that answers in order, each request with \<open>srv\<close> of its parameters.\<close>

definition in_order :: "(snippet_req \<Rightarrow> js_error + install_snippet) \<Rightarrow> connect_page \<Rightarrow> cn_event \<Rightarrow> bool" where
  "in_order srv s ev \<longleftrightarrow> cn_enabled s ev \<and> (case ev of
      CnSnippet q r \<Rightarrow> q = hd (cn_pending s) \<and> r = srv q
    | _ \<Rightarrow> True)"

section \<open>Lemmas\<close>

lemma inputs_copying [simp]:
  "inputs (copy_click c s) = inputs s" "inputs (copy_done c ok s) = inputs s" "inputs (copy_timeout c s) = inputs s"
  "inputs (snippet_reply r s) = inputs s" "inputs (s\<lparr>cn_pending := p\<rparr>) = inputs s" "inputs (s\<lparr>cn_writes := w\<rparr>) = inputs s"
  by (simp_all add: inputs_def copy_click_def copy_done_def copy_timeout_def snippet_reply_def split: sum.splits)

lemma frame_copying [simp]:
  "cn_pending (copy_click c s) = cn_pending s" "cn_pending (copy_done c ok s) = cn_pending s"
  "cn_pending (copy_timeout c s) = cn_pending s" "cn_pending (snippet_reply r s) = cn_pending s"
  "cn_snippet (copy_click c s) = cn_snippet s" "cn_snippet (copy_done c ok s) = cn_snippet s"
  "cn_snippet (copy_timeout c s) = cn_snippet s"
  by (simp_all add: copy_click_def copy_done_def copy_timeout_def snippet_reply_def split: sum.splits)

lemma snippet_after_reply [simp]:
  "cn_snippet (snippet_reply r s) = (case r of Inr v \<Rightarrow> Some v | Inl e \<Rightarrow> cn_snippet s)"
  by (simp add: snippet_reply_def split: sum.splits)

text \<open>With replies in order: the youngest request is the one for the inputs, and once it is answered its
  reply is what is shown.\<close>

definition tracks :: "(snippet_req \<Rightarrow> js_error + install_snippet) \<Rightarrow> connect_page \<Rightarrow> bool" where
  "tracks srv s \<longleftrightarrow> (if cn_pending s = [] then \<forall>v. srv (inputs s) = Inr v \<longrightarrow> cn_snippet s = Some v
     else last (cn_pending s) = inputs s)"

lemma tracks_edit:
  "cn_pending t = cn_pending s \<Longrightarrow> cn_snippet t = cn_snippet s \<Longrightarrow> tracks srv s \<Longrightarrow> tracks srv (snippet_effect (inputs s) t)"
  by (auto simp: tracks_def snippet_effect_def)

lemma tracks_step:
  assumes "tracks srv s" and "in_order srv s ev" shows "tracks srv (cn_step ev s)"
proof (cases ev)
  case (CnSnippet q r)
  then obtain qs where qs: "cn_pending s = q # qs" and r: "r = srv q"
    using assms(2) by (cases "cn_pending s") (auto simp: in_order_def)
  have "tracks srv (snippet_reply r (s\<lparr>cn_pending := qs\<rparr>))"
    using assms(1) qs r by (cases "qs = []") (auto simp: tracks_def)
  then show ?thesis using CnSnippet qs by (simp add: cn_step_def snippet_effect_def)
next
  case (CnAct a)
  have "cn_pending (cn_handle ev s) = cn_pending s \<and> cn_snippet (cn_handle ev s) = cn_snippet s"
    unfolding CnAct by (cases "(CnAct a, s)" rule: cn_handle.cases) auto
  then show ?thesis using assms(1) by (simp add: cn_step_def tracks_edit)
qed (use assms(1) in \<open>auto simp: cn_step_def intro: tracks_edit\<close>)

definition known_tab :: "connect_page \<Rightarrow> bool" where
  "known_tab s \<longleftrightarrow> cn_tab s \<in> cl_id ` set CLIENTS"

lemma known_tab_active: "known_tab s \<Longrightarrow> \<exists>c. active_client s = Some c \<and> cl_id c = cn_tab s"
  by (auto simp: known_tab_def active_client_def CLIENTS_def)

lemma tab_offered: "offers (connect_view s) (Click (BtnTab t)) \<Longrightarrow> t \<in> cl_id ` set CLIENTS"
  by (auto simp: connect_view_def snippet_view_def auto_install_view_def CopyButton_def list_ex_iff
      split: option.splits list.splits if_splits)

lemma cn_tab_frame [simp]:
  "cn_tab (snippet_effect b s) = cn_tab s" "cn_tab (snippet_reply r s) = cn_tab s"
  "cn_tab (copy_click c s) = cn_tab s" "cn_tab (copy_done c ok s) = cn_tab s" "cn_tab (copy_timeout c s) = cn_tab s"
  by (simp_all add: snippet_effect_def snippet_reply_def copy_click_def copy_done_def copy_timeout_def split: sum.splits)

lemma known_tab_step: "known_tab s \<Longrightarrow> cn_enabled s ev \<Longrightarrow> known_tab (cn_step ev s)"
  by (cases "(ev, s)" rule: cn_handle.cases) (auto simp: known_tab_def cn_step_def dest: tab_offered)

interpretation tabs: machine cn_enabled cn_step "connect_init origin" known_tab
  by unfold_locales (auto simp: known_tab_step, simp add: known_tab_def connect_init_def CLIENTS_def Let_def)

lemma in_order_known: "known_tab s \<and> tracks srv s \<Longrightarrow> in_order srv s ev \<Longrightarrow> known_tab (cn_step ev s) \<and> tracks srv (cn_step ev s)"
  by (auto simp: tracks_step known_tab_step in_order_def)

interpretation snippets: machine "in_order srv" cn_step "connect_init origin" "\<lambda>s. known_tab s \<and> tracks srv s"
proof unfold_locales
  show "known_tab (connect_init origin) \<and> tracks srv (connect_init origin)"
    using tabs.inv_init by (simp add: tracks_def connect_init_def inputs_def Let_def)
qed (rule in_order_known)

lemma copy_offered:
  "offers (connect_view s) (Click (BtnCopy c)) \<Longrightarrow> copy_text s c \<in> set (texts (connect_view s))"
  by (cases c) (auto simp: connect_view_def snippet_view_def auto_install_view_def CopyButton_def SectionCard_def Badge_def list_ex_iff
      split: option.splits list.splits if_splits)

section \<open>Properties\<close>

text \<open>C27: If the proxy answers in order, the instructions settle on the inputs: in every state reached with
  replies in the order of the requests, once none is outstanding, and unless the proxy refuses these inputs, the
  snippet shown is the proxy's answer for the current tab, URL and token variable, and its entry is on the
  screen.\<close>

theorem connect_settles:
  assumes "reachable (in_order srv) cn_step (connect_init origin) s" and "cn_pending s = []"
    and "srv (cn_tab s, cn_url s, cn_tokenEnv s) = Inr v"
  shows "cn_snippet s = Some v \<and> displays (connect_view s) (json_stringify2 (is_entry v))"
proof -
  have "cn_snippet s = Some v" "known_tab s"
    using snippets.reachable_inv [OF assms(1)] assms(2,3) by (simp_all add: tracks_def inputs_def)
  then show ?thesis
    using known_tab_active [of s] by (auto simp: displays_def connect_view_def snippet_view_def entryText_def SectionCard_def)
qed

definition demo_snippet :: "snippet_req \<Rightarrow> js_error + install_snippet" where
  "demo_snippet q = Inr \<lparr>is_client = fst q, is_auto = True, is_entry = JObj [(''url'', JStr (fst (snd q)))],
     is_merged = JObj [], is_paths = []\<rparr>"

lemma tab_click: "t \<in> {''claude-code'', ''chatgpt''} \<Longrightarrow> offers (connect_view s) (Click (BtnTab t))"
  by (auto simp: connect_view_def CLIENTS_def)

definition connect_demo :: "cn_event list" where
  "connect_demo = [CnAct (Click (BtnTab ''claude-code'')),
     CnSnippet (''claude-desktop'', ''http://h'', []) (demo_snippet (''claude-desktop'', ''http://h'', [])),
     CnSnippet (''claude-code'', ''http://h'', []) (demo_snippet (''claude-code'', ''http://h'', []))]"

theorem connect_settles_witness:
  "\<exists>s. reachable (in_order demo_snippet) cn_step (connect_init ''http://h'') s
     \<and> map_option is_client (cn_snippet s) = Some ''claude-code''"
proof -
  let ?r = "run (in_order demo_snippet) cn_step (connect_init ''http://h'') connect_demo"
  have run: "?r \<noteq> None \<and> cn_pending (the ?r) = [] \<and> inputs (the ?r) = (''claude-code'', ''http://h'', [])"
    by (simp add: connect_demo_def in_order_def connect_init_def CLIENTS_def Let_def tab_click cn_step_def snippet_effect_def
      inputs_def snippet_reply_def demo_snippet_def)
  then have r: "reachable (in_order demo_snippet) cn_step (connect_init ''http://h'') (the ?r)"
    by (intro run_reachable) simp
  show ?thesis
    using connect_settles [OF r] run r by (intro exI [of _ "the ?r"]) (simp add: inputs_def demo_snippet_def)
qed

text \<open>C28: The page never looks up a client that does not exist and copies only what it shows: in every
  reachable state the tab is one of the clients (so the assertion \<open>CLIENTS.find(...)!\<close> holds), and pressing
  any copy button hands the clipboard exactly one text, which is displayed at that moment.\<close>

theorem connect_tab_known:
  assumes "reachable cn_enabled cn_step (connect_init origin) s"
  shows "(\<exists>c. active_client s = Some c \<and> c \<in> set CLIENTS \<and> cl_id c = cn_tab s)
    \<and> (cn_enabled s (CnAct (Click (BtnCopy k))) \<longrightarrow>
         (\<exists>t. cn_writes (cn_step (CnAct (Click (BtnCopy k))) s) = cn_writes s @ [(k, t)] \<and> displays (connect_view s) t))"
proof -
  have "cn_writes (cn_step (CnAct (Click (BtnCopy k))) s) = cn_writes s @ [(k, copy_text s k)]"
    by (simp add: cn_step_def snippet_effect_def copy_click_def)
  moreover obtain c where "active_client s = Some c" "cl_id c = cn_tab s"
    using known_tab_active tabs.reachable_inv [OF assms] by blast
  moreover have "c \<in> set CLIENTS"
    using calculation(2) by (auto simp: active_client_def find_Some_iff)
  ultimately show ?thesis using copy_offered by (auto simp: displays_def)
qed

theorem connect_tab_known_witness:
  "\<exists>c. active_client (cn_step (CnAct (Click (BtnTab ''chatgpt''))) (connect_init ''http://h'')) = Some c
     \<and> c \<in> set CLIENTS \<and> cl_id c = ''chatgpt''"
proof -
  let ?s = "cn_step (CnAct (Click (BtnTab ''chatgpt''))) (connect_init ''http://h'')"
  have "reachable cn_enabled cn_step (connect_init ''http://h'') ?s"
    by (rule reachable.step [OF reachable.start]) (simp add: tab_click)
  then obtain c where "active_client ?s = Some c" "c \<in> set CLIENTS" "cl_id c = cn_tab ?s"
    using connect_tab_known by blast
  then show ?thesis by (simp add: cn_step_def)
qed

text \<open>A proxy that answers each request with \<open>srv\<close> of its parameters, in any order.\<close>

definition any_order :: "(snippet_req \<Rightarrow> js_error + install_snippet) \<Rightarrow> connect_page \<Rightarrow> cn_event \<Rightarrow> bool" where
  "any_order srv s ev \<longleftrightarrow> cn_enabled s ev \<and> (case ev of CnSnippet q r \<Rightarrow> r = srv q | _ \<Rightarrow> True)"

text \<open>C40: Without the order, the instructions need not settle on the inputs: let the proxy answer every request with
  \<open>srv\<close> of its parameters, and let the first client and the second have different snippets. After a click on the
  second client's tab, with the second request answered before the first, nothing is outstanding and the page shows
  the second client's heading and text over the first client's snippet, not its own; its copy button copies the first client's
  entry.\<close>

theorem stale_snippet_shown:
  assumes "srv (''claude-desktop'', origin, []) = Inr v" and "srv (''claude-code'', origin, []) = Inr w" and "v \<noteq> w"
  shows "\<exists>s c. reachable (any_order srv) cn_step (connect_init origin) s \<and> cn_pending s = []
     \<and> (cn_tab s, cn_url s, cn_tokenEnv s) = (''claude-code'', origin, [])
     \<and> active_client s = Some c \<and> displays (connect_view s) (cl_label c) \<and> displays (connect_view s) (cl_blurb c)
     \<and> cn_snippet s = Some v \<and> Inr v \<noteq> srv (cn_tab s, cn_url s, cn_tokenEnv s)
     \<and> displays (connect_view s) (json_stringify2 (is_entry v))
     \<and> cn_enabled s (CnAct (Click (BtnCopy CopyEntry)))
     \<and> cn_writes (cn_step (CnAct (Click (BtnCopy CopyEntry))) s) = [(CopyEntry, json_stringify2 (is_entry v))]"
proof -
  let ?es = "[CnAct (Click (BtnTab ''claude-code'')), CnSnippet (''claude-code'', origin, []) (Inr w),
      CnSnippet (''claude-desktop'', origin, []) (Inr v)]"
  have "\<exists>s. run (any_order srv) cn_step (connect_init origin) ?es = Some s \<and> cn_pending s = [] \<and> cn_writes s = []
      \<and> inputs s = (''claude-code'', origin, []) \<and> cn_snippet s = Some v"
    using assms
    by (simp add: any_order_def connect_init_def CLIENTS_def Let_def tab_click cn_step_def snippet_effect_def inputs_def snippet_reply_def)
  then obtain s where run: "run (any_order srv) cn_step (connect_init origin) ?es = Some s"
    and s: "cn_pending s = []" "cn_writes s = []" "inputs s = (''claude-code'', origin, [])" "cn_snippet s = Some v"
    by blast
  then have tab: "cn_tab s = ''claude-code''" "cn_url s = origin" "cn_tokenEnv s = []" by (simp_all add: inputs_def)
  obtain c where c: "active_client s = Some c" using tab by (auto simp: active_client_def CLIENTS_def)
  have "reachable (any_order srv) cn_step (connect_init origin) s"
    using run run_reachable [of "any_order srv" cn_step "connect_init origin" ?es] by simp
  moreover have "displays (connect_view s) (cl_label c)" "displays (connect_view s) (cl_blurb c)"
    "displays (connect_view s) (json_stringify2 (is_entry v))" "cn_enabled s (CnAct (Click (BtnCopy CopyEntry)))"
    using s(4) c by (simp_all add: displays_def connect_view_def snippet_view_def CopyButton_def entryText_def SectionCard_def)
  moreover have "cn_writes (cn_step (CnAct (Click (BtnCopy CopyEntry))) s) = [(CopyEntry, json_stringify2 (is_entry v))]"
    using s by (simp add: cn_step_def snippet_effect_def copy_click_def entryText_def)
  ultimately show ?thesis using c s tab assms(2,3) by (intro exI [of _ s] exI [of _ c]) simp
qed

theorem stale_snippet_shown_witness:
  "\<exists>s. reachable (any_order demo_snippet) cn_step (connect_init ''http://h'') s \<and> cn_pending s = []
     \<and> cn_tab s = ''claude-code'' \<and> map_option is_client (cn_snippet s) = Some ''claude-desktop''"
proof -
  obtain v w where v: "demo_snippet (''claude-desktop'', ''http://h'', []) = Inr v" "is_client v = ''claude-desktop''"
    and w: "demo_snippet (''claude-code'', ''http://h'', []) = Inr w" "is_client w = ''claude-code''"
    by (simp add: demo_snippet_def)
  have "v \<noteq> w" using v(2) w(2) by (intro notI) simp
  from stale_snippet_shown [OF v(1) w(1) this] obtain s
    where "reachable (any_order demo_snippet) cn_step (connect_init ''http://h'') s" "cn_pending s = []"
      "cn_tab s = ''claude-code''" "cn_snippet s = Some v"
    by (elim exE conjE) simp
  then show ?thesis using v(2) by (intro exI [of _ s]) simp
qed

end
