(* ===== verification/ImportPage.thy ===== *)
theory ImportPage
  imports ApiClient View
begin

text \<open>
  \<open>frontend/src/pages/Import.tsx\<close>: the servers found in the configurations of other clients, ticked per
  client and imported together. A JavaScript \<open>Set\<close> is a list without duplicates in insertion order.
  With it, of \<open>server.py\<close>, how the import request is answered when a name is not found.
\<close>

section \<open>State\<close>

datatype im_req = IqScan | IqImport string "string list"

record import_page =
  im_data :: "discovery_response option"
  im_error :: "string option"
  im_selected :: "string list obj"
  im_busy :: bool
  im_result :: "string option"
  im_pending :: "im_req list"

record import_result =
  ir_applied :: "bool option"
  ir_imported :: "string list option"

definition im_send :: "im_req \<Rightarrow> import_page \<Rightarrow> import_page" where
  "im_send q s = s\<lparr>im_pending := im_pending s @ [q]\<rparr>"

definition rescan :: "import_page \<Rightarrow> import_page" where
  "rescan s = im_send IqScan (s\<lparr>im_error := None\<rparr>)"

definition import_init :: import_page where
  "import_init = rescan \<lparr>im_data = None, im_error = None, im_selected = [], im_busy = False, im_result = None, im_pending = []\<rparr>"

section \<open>Handlers\<close>

text \<open>\<open>(e: Error) => e.message\<close> of a thrown value that is no error is undefined.\<close>

fun error_message :: "js_error \<Rightarrow> string option" where
  "error_message (ApiErr c m) = Some m"
| "error_message (PlainErr m) = Some m"
| "error_message (NonErr m) = None"

definition scan_reply :: "js_error + discovery_response \<Rightarrow> import_page \<Rightarrow> import_page" where
  "scan_reply r s = (case r of Inr v \<Rightarrow> s\<lparr>im_data := Some v\<rparr> | Inl e \<Rightarrow> s\<lparr>im_error := error_message e\<rparr>)"

definition set_toggle :: "'a \<Rightarrow> 'a list \<Rightarrow> 'a list" where
  "set_toggle x xs = (if x \<in> set xs then remove1 x xs else xs @ [x])"

definition chosen :: "import_page \<Rightarrow> string \<Rightarrow> string list" where
  "chosen s c = nullish (obj_get (im_selected s) c) []"

definition toggle_upstream :: "string \<Rightarrow> string \<Rightarrow> import_page \<Rightarrow> import_page" where
  "toggle_upstream clientId upstreamName s =
     s\<lparr>im_selected := obj_assign clientId (set_toggle upstreamName (chosen s clientId)) (im_selected s)\<rparr>"

definition importClient :: "discovery_client \<Rightarrow> import_page \<Rightarrow> import_page" where
  "importClient client s =
     (if chosen s (dc_client_id client) = []
      then s\<lparr>im_error := Some (''select at least one upstream from '' @ dc_display_name client)\<rparr>
      else im_send (IqImport (dc_client_id client) (chosen s (dc_client_id client)))
        (s\<lparr>im_busy := True, im_error := None, im_result := None\<rparr>))"

definition import_body :: "string \<Rightarrow> string list \<Rightarrow> json" where
  "import_body client names =
     JObj [(''client'', JStr client), (''upstreams'', JArr (map JStr names)), (''replace'', JBool True)]"

definition import_reply :: "discovery_client \<Rightarrow> string list \<Rightarrow> js_error + import_result \<Rightarrow> import_page \<Rightarrow> import_page" where
  "import_reply client names r s = (case r of
      Inr res \<Rightarrow>
        if ir_applied res = Some True
        then s\<lparr>im_result := Some (''Imported '' @ show_nat (nullish (map_option length (ir_imported res)) (length names))
                 @ '' upstream(s) from '' @ dc_display_name client @ ''.''),
               im_selected := obj_put (dc_client_id client) [] (im_selected s)\<rparr>
        else s\<lparr>im_error := Some ''import returned applied=false''\<rparr>
    | Inl e \<Rightarrow> s\<lparr>im_error := Some (error_text e)\<rparr>)\<lparr>im_busy := False\<rparr>"

section \<open>What is shown\<close>

datatype im_btn = BtnRescan | BtnImport string

type_synonym im_view = "(im_btn, string \<times> string) view"

definition transport_text :: "discovered_upstream \<Rightarrow> string" where
  "transport_text u = json_text_or (obj_get (du_config u) ''type'') ''?''"

definition detail_text :: "discovered_upstream \<Rightarrow> string" where
  "detail_text u =
     (if transport_text u = ''stdio''
      then (case obj_get (du_config u) ''command'' of Some j \<Rightarrow> js_String j | None \<Rightarrow> ''undefined'') @ '' ''
        @ (case obj_get (du_config u) ''args'' of Some (JArr xs) \<Rightarrow> js_join '' '' xs | _ \<Rightarrow> [])
      else json_text_or (obj_get (du_config u) ''url'') [])"

definition upstream_tr :: "import_page \<Rightarrow> string \<Rightarrow> discovered_upstream \<Rightarrow> im_view" where
  "upstream_tr s c u = Box [Check (c, du_name u) False (du_name u \<in> set (chosen s c)),
     Txt (du_name u), Txt (transport_text u), Txt (detail_text u)]"

definition import_card :: "import_page \<Rightarrow> discovery_client \<Rightarrow> im_view" where
  "import_card s client = Box [
     Txt (dc_display_name client),
     Txt (case dc_config_path client of Some p \<Rightarrow> if p = [] then ''no config detected on this machine'' else p
          | None \<Rightarrow> ''no config detected on this machine''),
     cond (dc_detected client \<and> dc_upstreams client \<noteq> [])
       (Button (BtnImport (dc_client_id client)) (im_busy s \<or> chosen s (dc_client_id client) = [])
         [Txt (if im_busy s then ''Importing...'' else ''Import selected'')]),
     (if dc_upstreams client = []
      then Txt (if dc_detected client then ''(no MCP servers in this client config)'' else ''(client not installed)'')
      else Box (Box (map Txt [''Name'', ''Transport'', ''Command / URL''])
                # map (upstream_tr s (dc_client_id client)) (dc_upstreams client)))]"

definition import_view :: "import_page \<Rightarrow> im_view" where
  "import_view s = (case im_data s of
      None \<Rightarrow> (case im_error s of
          Some e \<Rightarrow> if e = [] then Txt ''Scanning client configs...'' else Txt e
        | None \<Rightarrow> Txt ''Scanning client configs...'')
    | Some d \<Rightarrow> Box [
        Txt ''Import from clients'',
        Txt ''MCP servers detected in Claude Desktop, Claude Code, Cursor, Windsurf, and Continue config files on this machine. Select the ones you want to bring into MCPxy.'',
        Button BtnRescan False [Txt ''Rescan''],
        error_box (im_error s), error_box (im_result s),
        Box (map (import_card s) (dr_clients d))])"

section \<open>The machine\<close>

datatype im_event =
    ImAct "(im_btn, string \<times> string) action"
  | ImScanned "js_error + discovery_response"
  | ImImported discovery_client "string list" "js_error + import_result"

definition client_of :: "import_page \<Rightarrow> string \<Rightarrow> discovery_client option" where
  "client_of s c = (case im_data s of Some d \<Rightarrow> find (\<lambda>x. dc_client_id x = c) (dr_clients d) | None \<Rightarrow> None)"

fun im_step :: "im_event \<Rightarrow> import_page \<Rightarrow> import_page" where
  "im_step (ImAct (Click BtnRescan)) s = rescan s"
| "im_step (ImAct (Click (BtnImport c))) s = (case client_of s c of Some x \<Rightarrow> importClient x s | None \<Rightarrow> s)"
| "im_step (ImAct (Toggle (c, u))) s = toggle_upstream c u s"
| "im_step (ImAct (Edit f v)) s = s"
| "im_step (ImScanned r) s = scan_reply r (s\<lparr>im_pending := remove1 IqScan (im_pending s)\<rparr>)"
| "im_step (ImImported x names r) s =
     import_reply x names r (s\<lparr>im_pending := remove1 (IqImport (dc_client_id x) names) (im_pending s)\<rparr>)"

fun im_enabled :: "import_page \<Rightarrow> im_event \<Rightarrow> bool" where
  "im_enabled s (ImAct a) = offers (import_view s) a"
| "im_enabled s (ImScanned r) = (IqScan \<in> set (im_pending s))"
| "im_enabled s (ImImported x names r) = (IqImport (dc_client_id x) names \<in> set (im_pending s))"

text \<open>\<open>admin_api_discovery_import\<close>: the names of the request that the client's configuration does not have
  refuse the whole request.\<close>

definition missing_names :: "discovery_client \<Rightarrow> string list \<Rightarrow> string list" where
  "missing_names client names = filter (\<lambda>n. n \<notin> du_name ` set (dc_upstreams client)) names"

section \<open>Lemmas\<close>

lemma set_toggle_mem: "distinct xs \<Longrightarrow> y \<in> set (set_toggle x xs) \<longleftrightarrow> (y \<in> set xs) \<noteq> (x = y)"
  by (auto simp: set_toggle_def)

lemma set_toggle_distinct [simp]: "distinct xs \<Longrightarrow> distinct (set_toggle x xs)"
  by (simp add: set_toggle_def)

lemma chosen_toggle:
  "c \<noteq> ''__proto__'' \<Longrightarrow> chosen (toggle_upstream c u s) d = (if d = c then set_toggle u (chosen s c) else chosen s d)"
  by (simp add: chosen_def toggle_upstream_def obj_get_assign nullish_def)

lemma toggle_frame [simp]:
  "im_pending (toggle_upstream c u s) = im_pending s" "im_busy (toggle_upstream c u s) = im_busy s"
  "im_data (toggle_upstream c u s) = im_data s"
  by (simp_all add: toggle_upstream_def)

fun is_import :: "im_req \<Rightarrow> bool" where
  "is_import IqScan = False"
| "is_import (IqImport c ns) = True"

definition import_inv :: "import_page \<Rightarrow> bool" where
  "import_inv s \<longleftrightarrow> list_all (\<lambda>e. distinct (snd e)) (im_selected s)
     \<and> length (filter is_import (im_pending s)) = (if im_busy s then 1 else 0)
     \<and> (\<forall>c ns. IqImport c ns \<in> set (im_pending s) \<longrightarrow> ns \<noteq> [] \<and> distinct ns)"

lemma chosen_distinct: "import_inv s \<Longrightarrow> distinct (chosen s c)"
  by (auto simp: import_inv_def chosen_def nullish_def list_all_iff split: option.splits dest!: map_of_SomeD)

lemma card_actions:
  "offers (import_card s x) a \<longleftrightarrow>
     (a = Click (BtnImport (dc_client_id x)) \<and> dc_detected x \<and> dc_upstreams x \<noteq> [] \<and> \<not> im_busy s \<and> chosen s (dc_client_id x) \<noteq> [])
     \<or> (\<exists>u \<in> set (dc_upstreams x). a = Toggle (dc_client_id x, du_name u))"
  by (auto simp: import_card_def upstream_tr_def list_ex_iff)

lemma view_actions:
  "offers (import_view s) a \<longleftrightarrow> (\<exists>d. im_data s = Some d \<and> (a = Click BtnRescan \<or> (\<exists>x \<in> set (dr_clients d). offers (import_card s x) a)))"
proof (cases "im_data s")
  case (Some d)
  then have "offers (import_view s) a \<longleftrightarrow> a = Click BtnRescan \<or> offers (Box (map (import_card s) (dr_clients d))) a"
    by (simp add: import_view_def del: offers.simps(2)) simp
  then show ?thesis using Some by (simp only: offers_map) simp
qed (simp add: import_view_def split: option.splits)

lemma card_boxes: "((c, u), on) \<in> set (tick_boxes (import_card s x)) \<Longrightarrow> on = (u \<in> set (chosen s c))"
  by (auto simp: import_card_def upstream_tr_def split: if_splits)

lemma box_shown: "((c, u), on) \<in> set (tick_boxes (import_view s)) \<Longrightarrow> on = (u \<in> set (chosen s c))"
  by (auto simp: import_view_def dest: card_boxes split: option.splits if_splits)

lemma import_body_read:
  "json_parse (json_stringify (import_body c names))
     = Some (JObj [(''client'', JStr c), (''upstreams'', JArr (map JStr names)), (''replace'', JBool True)])"
proof -
  have "json_wf_list (map JStr ns)" "json_canon_list (map JStr ns) = map JStr ns" for ns
    by (induction ns) simp_all
  moreover have "\<not> is_index_key ''client''" "\<not> is_index_key ''upstreams''" "\<not> is_index_key ''replace''"
    by (simp_all add: is_index_key_def is_digit_def)
  ultimately have "json_wf (import_body c names)" "json_canon (import_body c names) = import_body c names"
    by (simp_all add: import_body_def own_entries_def)
  then show ?thesis by (simp add: parse_stringify import_body_def)
qed

lemma import_offered:
  assumes "offers (import_view s) (Click (BtnImport c))"
  shows "\<not> im_busy s \<and> chosen s c \<noteq> [] \<and> (\<exists>x. client_of s c = Some x \<and> dc_client_id x = c)"
proof -
  obtain d x where d: "im_data s = Some d" and x: "x \<in> set (dr_clients d)" "dc_client_id x = c"
    and "\<not> im_busy s" "chosen s c \<noteq> []"
    using assms by (auto simp: view_actions card_actions)
  moreover have "client_of s c \<noteq> None"
    using d x by (auto simp: client_of_def find_None_iff)
  ultimately show ?thesis
    by (auto simp: client_of_def find_Some_iff)
qed

lemma imports_settle:
  "import_inv s \<Longrightarrow> IqImport c ns \<in> set (im_pending s) \<Longrightarrow> filter is_import (remove1 (IqImport c ns) (im_pending s)) = []"
  using filter_settle [of is_import "im_pending s" "im_busy s" "IqImport c ns"] by (simp add: import_inv_def)

lemma import_inv_step:
  assumes "import_inv s" and "im_enabled s ev" shows "import_inv (im_step ev s)"
proof (cases "(ev, s)" rule: im_step.cases)
  case (1 t)
  then show ?thesis using assms(1) by (auto simp: import_inv_def rescan_def im_send_def)
next
  case (2 c t)
  then obtain x where x: "client_of s c = Some x" "dc_client_id x = c" "\<not> im_busy s" "chosen s c \<noteq> []"
    using assms(2) import_offered [of s c] by auto
  then show ?thesis
    using 2 assms(1) chosen_distinct [OF assms(1), of c] by (auto simp: import_inv_def importClient_def im_send_def)
next
  case (3 c u t)
  then show ?thesis using assms(1) chosen_distinct [OF assms(1), of c]
    by (auto simp: import_inv_def toggle_upstream_def obj_assign_def list_all_obj_put)
next
  case (5 r t)
  then show ?thesis using assms(1)
    by (auto simp: import_inv_def scan_reply_def filter_remove1 remove1_idem split: sum.splits dest: notin_set_remove1)
next
  case (6 x names r t)
  then show ?thesis using assms imports_settle [OF assms(1), of "dc_client_id x" names]
    by (auto simp: import_inv_def import_reply_def list_all_obj_put split: sum.splits dest: notin_set_remove1)
qed (use assms(1) in simp)

interpretation importing: single_flight im_enabled im_step import_init import_inv is_import im_pending im_busy
  by unfold_locales (auto simp: import_inv_step, simp_all add: import_inv_def import_init_def rescan_def im_send_def)

section \<open>Properties\<close>

text \<open>C29: The import posts the selection: in every reachable state in which a client's Import button can be
  pressed, no import is in flight, and pressing it posts one request, until whose reply no import can be started.
  The proxy reads from its text the client, \<open>replace\<close> set, and the selected names: at least one, each once,
  and of the servers that have a tick box exactly the ticked ones. (A name ticked before a rescan that dropped its
  box stays selected: \<open>hidden_selection_posted\<close>.)\<close>

theorem import_posts_selection:
  assumes "reachable im_enabled im_step import_init s" and "im_enabled s (ImAct (Click (BtnImport c)))"
  shows "\<exists>names. im_pending (im_step (ImAct (Click (BtnImport c))) s) = im_pending s @ [IqImport c names]
    \<and> filter is_import (im_pending s) = [] \<and> names \<noteq> [] \<and> distinct names
    \<and> \<not> im_enabled (im_step (ImAct (Click (BtnImport c))) s) (ImAct (Click (BtnImport d)))
    \<and> (\<forall>u on. ((c, u), on) \<in> set (tick_boxes (import_view s)) \<longrightarrow> on = (u \<in> set names))
    \<and> json_parse (json_stringify (import_body c names))
        = Some (JObj [(''client'', JStr c), (''upstreams'', JArr (map JStr names)), (''replace'', JBool True)])"
proof -
  obtain x where x: "client_of s c = Some x" "dc_client_id x = c" "\<not> im_busy s" "chosen s c \<noteq> []"
    using assms(2) import_offered [of s c] by auto
  have inv: "import_inv s" by (rule importing.reachable_inv [OF assms(1)])
  have step: "im_step (ImAct (Click (BtnImport c))) s = im_send (IqImport c (chosen s c))
      (s\<lparr>im_busy := True, im_error := None, im_result := None\<rparr>)"
    using x by (simp add: importClient_def)
  have "filter is_import (im_pending s) = []" by (rule importing.idle [OF assms(1) x(3)])
  moreover have "\<not> im_enabled (im_step (ImAct (Click (BtnImport c))) s) (ImAct (Click (BtnImport d)))"
    unfolding step using import_offered [of _ d] by (fastforce simp: im_send_def)
  moreover have "\<forall>u on. ((c, u), on) \<in> set (tick_boxes (import_view s)) \<longrightarrow> on = (u \<in> set (chosen s c))"
    using box_shown by blast
  moreover note import_body_read [of c "chosen s c"]
  ultimately show ?thesis
    unfolding step using x chosen_distinct [OF inv] by (intro exI [of _ "chosen s c"]) (simp add: im_send_def)
qed

definition demo_upstream :: "string \<Rightarrow> discovered_upstream" where
  "demo_upstream n = \<lparr>du_source_client = ''cursor'', du_name = n, du_config = [(''type'', JStr ''stdio''), (''command'', JStr ''npx'')],
     du_origin_path = [], du_warnings = []\<rparr>"

definition demo_client :: "string list \<Rightarrow> discovery_client" where
  "demo_client ns = \<lparr>dc_client_id = ''cursor'', dc_display_name = ''Cursor'', dc_config_path = None, dc_detected = True,
     dc_upstreams = map demo_upstream ns\<rparr>"

definition import_demo :: "im_event list" where
  "import_demo = [ImScanned (Inr \<lparr>dr_clients = [demo_client [''a'', ''b'']]\<rparr>),
     ImAct (Toggle (''cursor'', ''b'')), ImAct (Toggle (''cursor'', ''a''))]"

lemmas import_eval = import_init_def rescan_def im_send_def scan_reply_def view_actions card_actions demo_client_def demo_upstream_def
  toggle_upstream_def set_toggle_def chosen_def obj_assign_def nullish_def client_of_def importClient_def

theorem import_posts_selection_witness:
  "\<exists>s. run im_enabled im_step import_init import_demo = Some s
     \<and> (\<exists>names. im_pending (im_step (ImAct (Click (BtnImport ''cursor''))) s) = [IqImport ''cursor'' names]
          \<and> set names = {''a'', ''b''})"
proof -
  let ?r = "run im_enabled im_step import_init import_demo"
  have run: "?r \<noteq> None \<and> im_pending (the ?r) = []
      \<and> set (tick_boxes (import_view (the ?r))) = {((''cursor'', ''a''), True), ((''cursor'', ''b''), True)}
      \<and> im_enabled (the ?r) (ImAct (Click (BtnImport ''cursor''))) \<and> chosen (the ?r) ''cursor'' = [''b'', ''a'']"
    by (auto simp: import_demo_def import_eval import_view_def import_card_def upstream_tr_def)
  then have "reachable im_enabled im_step import_init (the ?r)" by (intro run_reachable) simp
  from import_posts_selection [OF this, of "''cursor''" undefined] run
  obtain names where "im_pending (im_step (ImAct (Click (BtnImport ''cursor''))) (the ?r)) = [IqImport ''cursor'' names]"
    by (metis append_Nil)
  moreover have "im_pending (im_step (ImAct (Click (BtnImport ''cursor''))) (the ?r)) = [IqImport ''cursor'' [''b'', ''a'']]"
    using run by (simp add: import_demo_def import_eval)
  ultimately show ?thesis using run by (intro exI [of _ "the ?r"]) auto
qed

text \<open>C37: A tick box shows the parity of its clicks: after any sequence of clicks on any boxes, the box of a
  server is ticked exactly when it was and has been clicked an even number of times since, or was not and has
  been clicked an odd number of times; clicks on the boxes of other clients or servers do not matter, and the
  selection stays a set.\<close>

theorem ticks_parity:
  assumes "\<forall>cu \<in> set clicks. fst cu \<noteq> ''__proto__''" and "distinct (chosen s c)"
  shows "distinct (chosen (fold (\<lambda>cu. im_step (ImAct (Toggle cu))) clicks s) c)
    \<and> (u \<in> set (chosen (fold (\<lambda>cu. im_step (ImAct (Toggle cu))) clicks s) c)
        \<longleftrightarrow> (u \<in> set (chosen s c)) \<noteq> odd (count_list clicks (c, u)))"
  using assms
proof (induction clicks arbitrary: s)
  case (Cons cu clicks)
  obtain d v where cu: "cu = (d, v)" by (cases cu)
  let ?t = "im_step (ImAct (Toggle cu)) s"
  have t: "chosen ?t c = (if c = d then set_toggle v (chosen s c) else chosen s c)"
    using Cons.prems(1) by (simp add: cu chosen_toggle)
  then have "distinct (chosen ?t c)" using Cons.prems(2) by auto
  moreover have "u \<in> set (chosen ?t c) \<longleftrightarrow> (u \<in> set (chosen s c)) \<noteq> (cu = (c, u))"
    using Cons.prems(2) unfolding t by (auto simp: cu set_toggle_mem)
  ultimately show ?case
    using Cons.IH [of ?t] Cons.prems(1) by (cases "cu = (c, u)") auto
qed simp

theorem ticks_parity_witness:
  "chosen (fold (\<lambda>cu. im_step (ImAct (Toggle cu))) [(''cursor'', ''a''), (''cursor'', ''b''), (''cursor'', ''a'')] import_init) ''cursor'' = [''b'']
   \<and> ''a'' \<notin> set (chosen (fold (\<lambda>cu. im_step (ImAct (Toggle cu))) [(''cursor'', ''a''), (''cursor'', ''b''), (''cursor'', ''a'')] import_init) ''cursor'')"
proof
  show "''a'' \<notin> set (chosen (fold (\<lambda>cu. im_step (ImAct (Toggle cu))) [(''cursor'', ''a''), (''cursor'', ''b''), (''cursor'', ''a'')] import_init) ''cursor'')"
    by (subst ticks_parity [THEN conjunct2]) (simp_all add: import_eval)
qed (simp add: import_eval)

text \<open>A selection outlives the rescan that drops it: a server ticked before a rescan that no longer lists it
  has no tick box any more, but its name is still posted with the others, and the proxy refuses the whole
  request because of it.\<close>

theorem hidden_selection_posted:
  "\<exists>s. run im_enabled im_step import_init
         (import_demo @ [ImAct (Click BtnRescan), ImScanned (Inr \<lparr>dr_clients = [demo_client [''a'']]\<rparr>)]) = Some s
     \<and> \<not> im_enabled s (ImAct (Toggle (''cursor'', ''b'')))
     \<and> im_pending (im_step (ImAct (Click (BtnImport ''cursor''))) s) = [IqImport ''cursor'' [''b'', ''a'']]
     \<and> missing_names (demo_client [''a'']) [''b'', ''a''] = [''b'']"
  by (simp add: import_demo_def import_eval missing_names_def)

end
