(* ===== verification/Dialogs.thy ===== *)
theory Dialogs
  imports View
begin

text \<open>
  The dialog that shows a secret once: the users page shows an invitation and the tokens page a new token
  in the same way. \<open>held\<close> is what the page has stored of the last creation, \<open>is_open\<close> whether the dialog is
  up, \<open>gives\<close> the creation an event reports; \<open>opens\<close> and \<open>closes\<close> tell the events that open the dialog
  (forgetting what was stored) and close it.
\<close>

locale secret_dialog =
  fixes st :: "'e \<Rightarrow> 's \<Rightarrow> 's"
    and s0 :: 's
    and held :: "'s \<Rightarrow> 'x option"
    and is_open :: "'s \<Rightarrow> bool"
    and gives :: "'e \<Rightarrow> 'x option"
    and opens :: "'e \<Rightarrow> bool"
    and closes :: "'e \<Rightarrow> bool"
  assumes init: "held s0 = None" "\<not> is_open s0"
    and given: "gives e = Some x \<Longrightarrow> held (st e s) = Some x \<and> is_open (st e s) = is_open s"
    and opened: "opens e \<Longrightarrow> held (st e s) = None \<and> is_open (st e s)"
    and closed: "closes e \<Longrightarrow> held (st e s) = held s \<and> \<not> is_open (st e s)"
    and kept: "gives e = None \<Longrightarrow> \<not> opens e \<Longrightarrow> \<not> closes e \<Longrightarrow> held (st e s) = held s \<and> is_open (st e s) = is_open s"
    and exclusive: "gives e = Some x \<Longrightarrow> \<not> opens e \<and> \<not> closes e" "opens e \<Longrightarrow> \<not> closes e"
begin

definition shown :: "'s \<Rightarrow> 'x option" where
  "shown s = (if is_open s then held s else None)"

definition quiet :: "'e \<Rightarrow> bool" where
  "quiet e \<longleftrightarrow> gives e = None \<and> \<not> opens e \<and> \<not> closes e"

definition final :: "'e list \<Rightarrow> 's" where
  "final es = fold st es s0"

lemma final_snoc [simp]: "final (es @ [e]) = st e (final es)" "final [] = s0"
  by (simp_all add: final_def)

lemma event_cases:
  obtains (give) x where "gives e = Some x" | (newly) "opens e" "gives e = None"
    | (leave) "closes e" "gives e = None" "\<not> opens e" | (idle) "quiet e"
  using exclusive by (cases "gives e") (auto simp: quiet_def)

text \<open>What is on the screen is the last creation, reported while the dialog was open, and nothing has
  been opened, closed or reported since.\<close>

lemma shown_iff:
  "shown (final es) = Some x \<longleftrightarrow>
     (\<exists>xs e ys. es = xs @ e # ys \<and> gives e = Some x \<and> is_open (final xs) \<and> list_all quiet ys)"
proof (induction es rule: rev_induct)
  case Nil
  then show ?case by (simp add: shown_def init)
next
  case (snoc e es)
  have split: "(\<exists>xs f ys. es @ [e] = xs @ f # ys \<and> gives f = Some x \<and> is_open (final xs) \<and> list_all quiet ys)
      \<longleftrightarrow> (gives e = Some x \<and> is_open (final es))
        \<or> (quiet e \<and> (\<exists>xs f ys. es = xs @ f # ys \<and> gives f = Some x \<and> is_open (final xs) \<and> list_all quiet ys))"
    (is "?L \<longleftrightarrow> ?R")
  proof
    assume ?L
    then obtain xs f ys where L: "es @ [e] = xs @ f # ys" "gives f = Some x" "is_open (final xs)" "list_all quiet ys" by blast
    show ?R
    proof (cases ys rule: rev_cases)
      case (snoc zs z)
      then have "es = xs @ f # zs" "e = z" using L(1) by auto
      then have "quiet e" "list_all quiet zs" using L(4) snoc by auto
      with \<open>es = xs @ f # zs\<close> show ?thesis using L(2,3) by blast
    next
      case Nil
      then have "es = xs" "e = f" using L(1) by auto
      then show ?thesis using L(2,3) by blast
    qed
  next
    assume ?R
    then show ?L
    proof (elim disjE conjE exE)
      assume "gives e = Some x" "is_open (final es)"
      then show ?L by (intro exI [of _ es] exI [of _ e] exI [of _ "[]"]) simp
    next
      fix xs f ys assume "quiet e" "es = xs @ f # ys" "gives f = Some x" "is_open (final xs)" "list_all quiet ys"
      then show ?L by (intro exI [of _ xs] exI [of _ f] exI [of _ "ys @ [e]"]) simp
    qed
  qed
  show ?case unfolding split snoc.IH [symmetric]
  proof (cases e rule: event_cases)
    case (give y)
    then show "shown (final (es @ [e])) = Some x \<longleftrightarrow> gives e = Some x \<and> is_open (final es) \<or> quiet e \<and> shown (final es) = Some x"
      using given [OF give, of "final es"] by (auto simp: shown_def quiet_def)
  next
    case newly
    then show "shown (final (es @ [e])) = Some x \<longleftrightarrow> gives e = Some x \<and> is_open (final es) \<or> quiet e \<and> shown (final es) = Some x"
      using opened [OF newly(1), of "final es"] by (auto simp: shown_def quiet_def)
  next
    case leave
    then show "shown (final (es @ [e])) = Some x \<longleftrightarrow> gives e = Some x \<and> is_open (final es) \<or> quiet e \<and> shown (final es) = Some x"
      using closed [OF leave(1), of "final es"] by (auto simp: shown_def quiet_def)
  next
    case idle
    then show "shown (final (es @ [e])) = Some x \<longleftrightarrow> gives e = Some x \<and> is_open (final es) \<or> quiet e \<and> shown (final es) = Some x"
      using kept [of e "final es"] by (auto simp: shown_def quiet_def)
  qed
qed

text \<open>A secret reported while the dialog is closed is never shown.\<close>

lemma never_shown:
  assumes "gives e = Some x" and "\<not> is_open s" and "list_all (\<lambda>f. gives f = None) es"
  shows "shown (fold st es (st e s)) = None"
proof -
  have "\<not> is_open (st e s)" using given [OF assms(1)] assms(2) by simp
  then have "\<not> is_open t \<or> held t = None" if "t = st e s" for t using that by simp
  moreover have "(\<not> is_open t \<or> held t = None) \<Longrightarrow> shown (fold st es t) = None" for t
    using assms(3)
  proof (induction es arbitrary: t)
    case (Cons f es)
    have "\<not> is_open (st f t) \<or> held (st f t) = None"
      using Cons.prems opened [of f t] closed [of f t] kept [of f t] by (cases "opens f"; cases "closes f") auto
    then show ?case using Cons by simp
  qed (auto simp: shown_def)
  ultimately show ?thesis by blast
qed

end

end
