(* ===== verification/UsersPage.thy ===== *)
theory UsersPage
  imports ApiClient Dialogs Numbers
begin

text \<open>
  \<open>frontend/src/pages/Users.tsx\<close>: the list of users and the invitation dialog, which shows the token of an
  invitation once. The e-mail field is required; its syntax is checked by the browser and not modelled. The
  answer to a confirmation is part of the click event.
\<close>

section \<open>State\<close>

datatype us_req = UqList | UqInvite string string | UqDelete int

record users_page =
  us_users :: "user_row list"
  us_error :: "string option"
  us_showInvite :: bool
  us_email :: string
  us_role :: string
  us_result :: "invite_response option"
  us_busy :: bool
  us_clipboard :: "string list"
  us_pending :: "us_req list"

definition us_send :: "us_req \<Rightarrow> users_page \<Rightarrow> users_page" where
  "us_send q s = s\<lparr>us_pending := us_pending s @ [q]\<rparr>"

definition users_init :: users_page where
  "users_init = \<lparr>us_users = [], us_error = None, us_showInvite = False, us_email = [], us_role = ''member'',
     us_result = None, us_busy = False, us_clipboard = [], us_pending = [UqList]\<rparr>"

section \<open>Handlers\<close>

definition loadUsers_reply :: "js_error + user_row list \<Rightarrow> users_page \<Rightarrow> users_page" where
  "loadUsers_reply r s = (case r of
      Inr data \<Rightarrow> s\<lparr>us_users := data\<rparr>
    | Inl e \<Rightarrow> s\<lparr>us_error := Some (error_message_or ''Failed to load users'' e)\<rparr>)"

definition open_invite :: "users_page \<Rightarrow> users_page" where
  "open_invite s = s\<lparr>us_showInvite := True, us_result := None, us_email := []\<rparr>"

definition handleInvite :: "users_page \<Rightarrow> users_page" where
  "handleInvite s = us_send (UqInvite (us_email s) (us_role s)) (s\<lparr>us_busy := True, us_error := None\<rparr>)"

definition invite_body :: "string \<Rightarrow> string \<Rightarrow> json" where
  "invite_body email role = JObj [(''email'', JStr email), (''role'', JStr role)]"

definition invite_reply :: "js_error + invite_response \<Rightarrow> users_page \<Rightarrow> users_page" where
  "invite_reply r s = (case r of
      Inr v \<Rightarrow> us_send UqList (s\<lparr>us_result := Some v\<rparr>)
    | Inl e \<Rightarrow> s\<lparr>us_error := Some (api_message_or ''Invite failed'' e)\<rparr>)\<lparr>us_busy := False\<rparr>"

definition handleDelete :: "int \<Rightarrow> users_page \<Rightarrow> users_page" where
  "handleDelete i s = us_send (UqDelete i) s"

definition user_path :: "int \<Rightarrow> string" where
  "user_path i = ''/admin/api/users/'' @ show_int i"

definition delete_reply :: "js_error + json \<Rightarrow> users_page \<Rightarrow> users_page" where
  "delete_reply r s = (case r of
      Inr v \<Rightarrow> us_send UqList s
    | Inl e \<Rightarrow> s\<lparr>us_error := Some (api_message_or ''Delete failed'' e)\<rparr>)"

section \<open>What is shown\<close>

datatype us_btn = BtnOpen | BtnSend | BtnCancel | BtnDone | BtnCopy | BtnDelete int
datatype us_field = FEmail | FRole

type_synonym us_view = "(us_btn, us_field) view"

definition invite_dialog :: "users_page \<Rightarrow> us_view" where
  "invite_dialog s = (case us_result s of
      Some v \<Rightarrow> Box [
        Txt (''Invite created for '' @ ir_email v @ '' ('' @ ir_role v @ ''). Share the token below - it will not be shown again.''),
        opt_text (ir_plaintext_token v), Button BtnCopy False [], Button BtnDone False [Txt ''Done'']]
    | None \<Rightarrow> Box [
        Txt ''Email'', Input FEmail False (us_email s), Txt ''Role'', Choice FRole False (us_role s) [''member'', ''admin''],
        Button BtnSend (us_busy s) [Txt (if us_busy s then ''Sending...'' else ''Send invite'')],
        Button BtnCancel False [Txt ''Cancel'']])"

definition user_tr :: "formats \<Rightarrow> user_row \<Rightarrow> us_view" where
  "user_tr fm u = Box [Txt (ur_email u), Txt (str_or (nullish (ur_name u) []) ''-''), Txt (ur_provider u), Txt (ur_role u),
     Txt (fm_date fm (ur_created_at u * 1000)), Button (BtnDelete (ur_id u)) False []]"

definition users_view :: "formats \<Rightarrow> users_page \<Rightarrow> us_view" where
  "users_view fm s = Box [
     Txt ''Users'', Button BtnOpen False [Txt ''Invite user''], error_box (us_error s),
     cond (us_showInvite s) (invite_dialog s),
     Box (map Txt [''Email'', ''Name'', ''Provider'', ''Role'', ''Created'']),
     Box (map (user_tr fm) (us_users s)),
     cond (us_users s = []) (Txt ''No users yet'')]"

section \<open>The machine\<close>

datatype us_event =
    UsAct "(us_btn, us_field) action" bool
  | UsLoaded "js_error + user_row list"
  | UsInvited string string "js_error + invite_response"
  | UsDeleted int "js_error + json"

fun us_req_of :: "us_event \<Rightarrow> us_req option" where
  "us_req_of (UsLoaded r) = Some UqList"
| "us_req_of (UsInvited e ro r) = Some (UqInvite e ro)"
| "us_req_of (UsDeleted i r) = Some (UqDelete i)"
| "us_req_of (UsAct a c) = None"

fun us_handle :: "us_event \<Rightarrow> users_page \<Rightarrow> users_page" where
  "us_handle (UsAct (Click BtnOpen) c) s = open_invite s"
| "us_handle (UsAct (Click BtnSend) c) s = handleInvite s"
| "us_handle (UsAct (Click BtnCancel) c) s = s\<lparr>us_showInvite := False\<rparr>"
| "us_handle (UsAct (Click BtnDone) c) s = s\<lparr>us_showInvite := False\<rparr>"
| "us_handle (UsAct (Click BtnCopy) c) s = (case us_result s of
      Some v \<Rightarrow> s\<lparr>us_clipboard := us_clipboard s @ [nullish (ir_plaintext_token v) []]\<rparr> | None \<Rightarrow> s)"
| "us_handle (UsAct (Click (BtnDelete i)) c) s = (if c then handleDelete i s else s)"
| "us_handle (UsAct (Edit FEmail v) c) s = s\<lparr>us_email := v\<rparr>"
| "us_handle (UsAct (Edit FRole v) c) s = s\<lparr>us_role := v\<rparr>"
| "us_handle (UsAct (Toggle f) c) s = s"
| "us_handle (UsLoaded r) s = loadUsers_reply r s"
| "us_handle (UsInvited e ro r) s = invite_reply r s"
| "us_handle (UsDeleted i r) s = delete_reply r s"

definition us_step :: "us_event \<Rightarrow> users_page \<Rightarrow> users_page" where
  "us_step ev s = us_handle ev (case us_req_of ev of
      Some q \<Rightarrow> s\<lparr>us_pending := remove1 q (us_pending s)\<rparr> | None \<Rightarrow> s)"

definition us_enabled :: "formats \<Rightarrow> users_page \<Rightarrow> us_event \<Rightarrow> bool" where
  "us_enabled fm s ev = (case ev of
      UsAct a c \<Rightarrow> offers (users_view fm s) a \<and> (a = Click BtnSend \<longrightarrow> us_email s \<noteq> [])
    | _ \<Rightarrow> (case us_req_of ev of Some q \<Rightarrow> q \<in> set (us_pending s) | None \<Rightarrow> False))"

section \<open>Lemmas\<close>

fun invited :: "us_event \<Rightarrow> invite_response option" where
  "invited (UsInvited e ro (Inr v)) = Some v"
| "invited _ = None"

definition us_opens :: "us_event \<Rightarrow> bool" where
  "us_opens ev \<longleftrightarrow> (case ev of UsAct a c \<Rightarrow> a = Click BtnOpen | _ \<Rightarrow> False)"

definition us_closes :: "us_event \<Rightarrow> bool" where
  "us_closes ev \<longleftrightarrow> (case ev of UsAct a c \<Rightarrow> a = Click BtnCancel \<or> a = Click BtnDone | _ \<Rightarrow> False)"

lemmas users_defs = us_step_def open_invite_def handleInvite_def invite_reply_def handleDelete_def delete_reply_def
  loadUsers_reply_def us_send_def

interpretation invitation: secret_dialog us_step users_init us_result us_showInvite invited us_opens us_closes
proof unfold_locales
  fix e :: us_event and s
  show "invited e = None \<Longrightarrow> \<not> us_opens e \<Longrightarrow> \<not> us_closes e \<Longrightarrow>
      us_result (us_step e s) = us_result s \<and> us_showInvite (us_step e s) = us_showInvite s"
    by (cases "(e, s)" rule: us_handle.cases)
      (auto simp: users_defs us_opens_def us_closes_def split: sum.splits option.splits)
  show "us_closes e \<Longrightarrow> us_result (us_step e s) = us_result s \<and> \<not> us_showInvite (us_step e s)"
    by (cases "(e, s)" rule: us_handle.cases) (auto simp: users_defs us_closes_def)
  show "us_opens e \<Longrightarrow> us_result (us_step e s) = None \<and> us_showInvite (us_step e s)"
    by (cases "(e, s)" rule: us_handle.cases) (auto simp: users_defs us_opens_def)
  fix x
  show "invited e = Some x \<Longrightarrow> us_result (us_step e s) = Some x \<and> us_showInvite (us_step e s) = us_showInvite s"
    by (cases e rule: invited.cases) (auto simp: users_defs)
qed (auto simp: users_init_def us_opens_def us_closes_def split: us_event.splits)

lemma send_offered: "offers (users_view fm s) (Click BtnSend) \<longleftrightarrow> us_showInvite s \<and> us_result s = None \<and> \<not> us_busy s"
  by (auto simp: users_view_def invite_dialog_def user_tr_def list_ex_iff split: option.splits)

fun is_invite :: "us_req \<Rightarrow> bool" where
  "is_invite (UqInvite e r) = True"
| "is_invite _ = False"

definition users_inv :: "users_page \<Rightarrow> bool" where
  "users_inv s \<longleftrightarrow> length (filter is_invite (us_pending s)) = (if us_busy s then 1 else 0)"

lemma users_inv_step:
  assumes "users_inv s" and "us_enabled fm s ev" shows "users_inv (us_step ev s)"
proof (cases "(ev, s)" rule: us_handle.cases)
  case (2 c t)
  then show ?thesis using assms by (auto simp: users_inv_def users_defs us_enabled_def send_offered)
next
  case (11 e ro r t)
  then have "us_busy s \<and> filter is_invite (remove1 (UqInvite e ro) (us_pending s)) = []"
    using assms by (intro filter_settle) (auto simp: users_inv_def us_enabled_def)
  then show ?thesis using 11 by (auto simp: users_inv_def users_defs split: sum.splits)
qed (use assms(1) in \<open>auto simp: users_inv_def users_defs filter_remove1 remove1_idem split: sum.splits option.splits\<close>)

interpretation users: single_flight "us_enabled fm" us_step users_init users_inv is_invite us_pending us_busy
  by unfold_locales (auto simp: users_inv_step, simp_all add: users_inv_def users_init_def)

section \<open>Properties\<close>

text \<open>C30: An invitation token is on the screen exactly as long as the dialog that created it: after any events,
  the dialog shows an invitation if and only if that invitation was the last one reported, the dialog was open
  when it was, and it has been neither closed nor reopened since.\<close>

theorem invitation_shown_once:
  "us_showInvite (fold us_step es users_init) \<and> us_result (fold us_step es users_init) = Some v \<longleftrightarrow>
     (\<exists>xs email role ys. es = xs @ UsInvited email role (Inr v) # ys \<and> us_showInvite (fold us_step xs users_init)
        \<and> list_all (\<lambda>e. invited e = None \<and> \<not> us_opens e \<and> \<not> us_closes e) ys)"
proof -
  have "us_showInvite s \<and> us_result s = Some v \<longleftrightarrow> invitation.shown s = Some v" for s
    by (simp add: invitation.shown_def)
  moreover have "invited e = Some v \<longleftrightarrow> (\<exists>email role. e = UsInvited email role (Inr v))" for e
    by (cases e rule: invited.cases) auto
  moreover have "invitation.quiet = (\<lambda>e. invited e = None \<and> \<not> us_opens e \<and> \<not> us_closes e)"
    by (simp add: fun_eq_iff invitation.quiet_def)
  ultimately show ?thesis
    using invitation.shown_iff [of es v] by (simp add: invitation.final_def) blast
qed

text \<open>An invitation that is cancelled while it is being created is lost: the server has created it, but
  whatever the administrator does next, as long as no further invitation is created, its token is never shown.\<close>

theorem cancelled_invitation_lost:
  assumes "list_all (\<lambda>e. invited e = None) es"
  shows "let s = fold us_step es (us_step (UsInvited email role (Inr v)) (us_step (UsAct (Click BtnCancel) c) s0))
         in \<not> (us_showInvite s \<and> us_result s \<noteq> None)"
proof -
  have "\<not> us_showInvite (us_step (UsAct (Click BtnCancel) c) s0)" by (simp add: us_step_def)
  from invitation.never_shown [OF _ this assms, of "UsInvited email role (Inr v)" v] show ?thesis
    by (auto simp: Let_def invitation.shown_def)
qed

theorem cancelled_invitation_lost_witness:
  "let s = fold us_step [UsLoaded (Inr []), UsAct (Click BtnOpen) False]
        (us_step (UsInvited ''a@b.c'' ''member'' (Inr v)) (us_step (UsAct (Click BtnCancel) False) users_init))
   in \<not> (us_showInvite s \<and> us_result s \<noteq> None)"
  by (rule cancelled_invitation_lost) simp

end
