(* ===== verification/TokensPage.thy ===== *)
theory TokensPage
  imports ApiClient Dialogs Numbers
begin

text \<open>
  \<open>frontend/src/pages/Tokens.tsx\<close>: the personal access tokens and the dialog that creates one and shows it
  once. The browser submits the form only if the number of days is empty or a whole number of at least 1
  (\<open>ttl_valid\<close>), in any notation a number input accepts.
\<close>

section \<open>State\<close>

datatype pt_req = PqList | PqCreate string "int option" | PqRevoke int

record tokens_page =
  pt_pats :: "pat_row list"
  pt_error :: "string option"
  pt_showCreate :: bool
  pt_tokenName :: string
  pt_ttlDays :: string
  pt_created :: "pat_row option"
  pt_busy :: bool
  pt_clipboard :: "string list"
  pt_pending :: "pt_req list"

definition pt_send :: "pt_req \<Rightarrow> tokens_page \<Rightarrow> tokens_page" where
  "pt_send q s = s\<lparr>pt_pending := pt_pending s @ [q]\<rparr>"

definition tokens_init :: tokens_page where
  "tokens_init = \<lparr>pt_pats = [], pt_error = None, pt_showCreate = False, pt_tokenName = [], pt_ttlDays = [],
     pt_created = None, pt_busy = False, pt_clipboard = [], pt_pending = [PqList]\<rparr>"

section \<open>Handlers\<close>

definition loadPats_reply :: "js_error + pat_row list \<Rightarrow> tokens_page \<Rightarrow> tokens_page" where
  "loadPats_reply r s = (case r of
      Inr data \<Rightarrow> s\<lparr>pt_pats := data\<rparr>
    | Inl e \<Rightarrow> s\<lparr>pt_error := Some (error_message_or ''Failed to load tokens'' e)\<rparr>)"

definition open_create :: "tokens_page \<Rightarrow> tokens_page" where
  "open_create s = s\<lparr>pt_showCreate := True, pt_created := None, pt_tokenName := [], pt_ttlDays := []\<rparr>"

text \<open>\<open>ttlDays ? parseInt(ttlDays, 10) : null\<close>; NaN is sent as null.\<close>

definition ttl_of :: "string \<Rightarrow> int option" where
  "ttl_of t = (if t \<noteq> [] then parse_int t else None)"

definition handleCreate :: "tokens_page \<Rightarrow> tokens_page" where
  "handleCreate s = pt_send (PqCreate (str_or (pt_tokenName s) ''Untitled'') (ttl_of (pt_ttlDays s)))
     (s\<lparr>pt_busy := True, pt_error := None\<rparr>)"

definition create_body :: "string \<Rightarrow> int option \<Rightarrow> json" where
  "create_body name ttl = JObj [(''name'', JStr name), (''ttl_days'', case ttl of Some i \<Rightarrow> JNum (mk_dec i 0) | None \<Rightarrow> JNull)]"

definition create_reply :: "js_error + pat_row \<Rightarrow> tokens_page \<Rightarrow> tokens_page" where
  "create_reply r s = (case r of
      Inr v \<Rightarrow> pt_send PqList (s\<lparr>pt_created := Some v\<rparr>)
    | Inl e \<Rightarrow> s\<lparr>pt_error := Some (api_message_or ''Create failed'' e)\<rparr>)\<lparr>pt_busy := False\<rparr>"

definition handleRevoke :: "int \<Rightarrow> tokens_page \<Rightarrow> tokens_page" where
  "handleRevoke i s = pt_send (PqRevoke i) s"

definition pat_path :: "int \<Rightarrow> string" where
  "pat_path i = ''/admin/api/pats/'' @ show_int i"

definition revoke_reply :: "js_error + json \<Rightarrow> tokens_page \<Rightarrow> tokens_page" where
  "revoke_reply r s = (case r of
      Inr v \<Rightarrow> pt_send PqList s
    | Inl e \<Rightarrow> s\<lparr>pt_error := Some (api_message_or ''Revoke failed'' e)\<rparr>)"

section \<open>What is shown\<close>

datatype pt_btn = BtnNew | BtnCreate | BtnCancel | BtnDone | BtnCopy | BtnRevoke int
datatype pt_field = FName | FTtl

type_synonym pt_view = "(pt_btn, pt_field) view"

definition plaintext_of :: "pat_row option \<Rightarrow> string" where
  "plaintext_of p = (case p of Some v \<Rightarrow> nullish (pat_plaintext v) [] | None \<Rightarrow> [])"

definition create_dialog :: "tokens_page \<Rightarrow> pt_view" where
  "create_dialog s = (if plaintext_of (pt_created s) \<noteq> []
     then Box [
       Txt ''Copy this token now - you won't see it again.'',
       Txt (plaintext_of (pt_created s)), Button BtnCopy False [],
       Txt ''Use this as the bearer token in your MCP client config:'',
       Txt (''\"headers\": { \"Authorization\": \"Bearer '' @ plaintext_of (pt_created s) @ ''\" }''),
       Button BtnDone False [Txt ''Done'']]
     else Box [
       Txt ''Token name'', Input FName False (pt_tokenName s),
       Txt ''Expires in (days, leave empty for no expiry)'', Input FTtl False (pt_ttlDays s),
       Button BtnCreate (pt_busy s) [Txt (if pt_busy s then ''Creating...'' else ''Create token'')],
       Button BtnCancel False [Txt ''Cancel'']])"

text \<open>\<open>t ? new Date(t * 1000).toLocaleDateString() : "Never"\<close>\<close>

definition date_or_never :: "formats \<Rightarrow> real option \<Rightarrow> string" where
  "date_or_never fm t = (case t of Some x \<Rightarrow> if x = 0 then ''Never'' else fm_date fm (x * 1000) | None \<Rightarrow> ''Never'')"

definition pat_tr :: "formats \<Rightarrow> pat_row \<Rightarrow> pt_view" where
  "pat_tr fm p = Box [Txt (pat_name p), Txt (pat_token_prefix p @ ''...''), Txt (fm_date fm (pat_created_at p * 1000)),
     Txt (date_or_never fm (pat_last_used_at p)), Txt (date_or_never fm (pat_expires_at p)),
     Button (BtnRevoke (pat_id p)) False []]"

definition tokens_view :: "formats \<Rightarrow> tokens_page \<Rightarrow> pt_view" where
  "tokens_view fm s = Box [
     Txt ''Personal Access Tokens'', Button BtnNew False [Txt ''New token''], error_box (pt_error s),
     cond (pt_showCreate s) (create_dialog s),
     Box (map Txt [''Name'', ''Prefix'', ''Created'', ''Last used'', ''Expires'']),
     Box (map (pat_tr fm) (pt_pats s)),
     cond (pt_pats s = []) (Txt ''No tokens yet'')]"

section \<open>The machine\<close>

datatype pt_event =
    PtAct "(pt_btn, pt_field) action" bool
  | PtLoaded "js_error + pat_row list"
  | PtCreated string "int option" "js_error + pat_row"
  | PtRevoked int "js_error + json"

fun pt_req_of :: "pt_event \<Rightarrow> pt_req option" where
  "pt_req_of (PtLoaded r) = Some PqList"
| "pt_req_of (PtCreated n t r) = Some (PqCreate n t)"
| "pt_req_of (PtRevoked i r) = Some (PqRevoke i)"
| "pt_req_of (PtAct a c) = None"

fun pt_handle :: "pt_event \<Rightarrow> tokens_page \<Rightarrow> tokens_page" where
  "pt_handle (PtAct (Click BtnNew) c) s = open_create s"
| "pt_handle (PtAct (Click BtnCreate) c) s = handleCreate s"
| "pt_handle (PtAct (Click BtnCancel) c) s = s\<lparr>pt_showCreate := False\<rparr>"
| "pt_handle (PtAct (Click BtnDone) c) s = s\<lparr>pt_showCreate := False\<rparr>"
| "pt_handle (PtAct (Click BtnCopy) c) s = s\<lparr>pt_clipboard := pt_clipboard s @ [plaintext_of (pt_created s)]\<rparr>"
| "pt_handle (PtAct (Click (BtnRevoke i)) c) s = (if c then handleRevoke i s else s)"
| "pt_handle (PtAct (Edit FName v) c) s = s\<lparr>pt_tokenName := v\<rparr>"
| "pt_handle (PtAct (Edit FTtl v) c) s = s\<lparr>pt_ttlDays := v\<rparr>"
| "pt_handle (PtAct (Toggle f) c) s = s"
| "pt_handle (PtLoaded r) s = loadPats_reply r s"
| "pt_handle (PtCreated n t r) s = create_reply r s"
| "pt_handle (PtRevoked i r) s = revoke_reply r s"

definition pt_step :: "pt_event \<Rightarrow> tokens_page \<Rightarrow> tokens_page" where
  "pt_step ev s = pt_handle ev (case pt_req_of ev of
      Some q \<Rightarrow> s\<lparr>pt_pending := remove1 q (pt_pending s)\<rparr> | None \<Rightarrow> s)"

definition ttl_valid :: "string \<Rightarrow> bool" where
  "ttl_valid t \<longleftrightarrow> t = [] \<or> (case decimal_literal t of Finite (Dec m e) \<Rightarrow> 0 < m \<and> 0 \<le> e | _ \<Rightarrow> False)"

definition pt_enabled :: "formats \<Rightarrow> tokens_page \<Rightarrow> pt_event \<Rightarrow> bool" where
  "pt_enabled fm s ev = (case ev of
      PtAct a c \<Rightarrow> offers (tokens_view fm s) a \<and> (a = Click BtnCreate \<longrightarrow> ttl_valid (pt_ttlDays s))
    | _ \<Rightarrow> (case pt_req_of ev of Some q \<Rightarrow> q \<in> set (pt_pending s) | None \<Rightarrow> False))"

section \<open>Lemmas\<close>

fun token_given :: "pt_event \<Rightarrow> pat_row option" where
  "token_given (PtCreated n t (Inr v)) = Some v"
| "token_given _ = None"

definition pt_opens :: "pt_event \<Rightarrow> bool" where
  "pt_opens ev \<longleftrightarrow> (case ev of PtAct a c \<Rightarrow> a = Click BtnNew | _ \<Rightarrow> False)"

definition pt_closes :: "pt_event \<Rightarrow> bool" where
  "pt_closes ev \<longleftrightarrow> (case ev of PtAct a c \<Rightarrow> a = Click BtnCancel \<or> a = Click BtnDone | _ \<Rightarrow> False)"

lemmas tokens_defs = pt_step_def open_create_def handleCreate_def create_reply_def handleRevoke_def revoke_reply_def
  loadPats_reply_def pt_send_def

interpretation new_token: secret_dialog pt_step tokens_init pt_created pt_showCreate token_given pt_opens pt_closes
proof unfold_locales
  fix e :: pt_event and s
  show "token_given e = None \<Longrightarrow> \<not> pt_opens e \<Longrightarrow> \<not> pt_closes e \<Longrightarrow>
      pt_created (pt_step e s) = pt_created s \<and> pt_showCreate (pt_step e s) = pt_showCreate s"
    by (cases "(e, s)" rule: pt_handle.cases)
      (auto simp: tokens_defs pt_opens_def pt_closes_def split: sum.splits option.splits)
  show "pt_closes e \<Longrightarrow> pt_created (pt_step e s) = pt_created s \<and> \<not> pt_showCreate (pt_step e s)"
    by (cases "(e, s)" rule: pt_handle.cases) (auto simp: tokens_defs pt_closes_def)
  show "pt_opens e \<Longrightarrow> pt_created (pt_step e s) = None \<and> pt_showCreate (pt_step e s)"
    by (cases "(e, s)" rule: pt_handle.cases) (auto simp: tokens_defs pt_opens_def)
  fix x
  show "token_given e = Some x \<Longrightarrow> pt_created (pt_step e s) = Some x \<and> pt_showCreate (pt_step e s) = pt_showCreate s"
    by (cases e rule: token_given.cases) (auto simp: tokens_defs)
qed (auto simp: tokens_init_def pt_opens_def pt_closes_def split: pt_event.splits)

lemma create_offered:
  "offers (tokens_view fm s) (Click BtnCreate) \<longleftrightarrow> pt_showCreate s \<and> plaintext_of (pt_created s) = [] \<and> \<not> pt_busy s"
  by (auto simp: tokens_view_def create_dialog_def pat_tr_def list_ex_iff)

fun is_create :: "pt_req \<Rightarrow> bool" where
  "is_create (PqCreate n t) = True"
| "is_create _ = False"

definition tokens_inv :: "tokens_page \<Rightarrow> bool" where
  "tokens_inv s \<longleftrightarrow> length (filter is_create (pt_pending s)) = (if pt_busy s then 1 else 0)"

lemma tokens_inv_step:
  assumes "tokens_inv s" and "pt_enabled fm s ev" shows "tokens_inv (pt_step ev s)"
proof (cases "(ev, s)" rule: pt_handle.cases)
  case (2 c t)
  then show ?thesis using assms by (auto simp: tokens_inv_def tokens_defs pt_enabled_def create_offered)
next
  case (11 n ttl r t)
  then have "pt_busy s \<and> filter is_create (remove1 (PqCreate n ttl) (pt_pending s)) = []"
    using assms by (intro filter_settle) (auto simp: tokens_inv_def pt_enabled_def)
  then show ?thesis using 11 by (auto simp: tokens_inv_def tokens_defs split: sum.splits)
qed (use assms(1) in \<open>auto simp: tokens_inv_def tokens_defs filter_remove1 remove1_idem split: sum.splits option.splits\<close>)

interpretation tokens: single_flight "pt_enabled fm" pt_step tokens_init tokens_inv is_create pt_pending pt_busy
  by unfold_locales (auto simp: tokens_inv_step, simp_all add: tokens_inv_def tokens_init_def)

text \<open>A number input with a whole positive number that has no exponent: \<open>parseInt\<close> reads the number it shows.\<close>

lemma digits_val_append: "digits_val (s @ t) = digits_val s * 10 ^ length t + digits_val t"
proof -
  have "digits_val_acc a t = a * 10 ^ length t + digits_val_acc 0 t" for a
  proof (induction t arbitrary: a)
    case (Cons c t)
    show ?case using Cons [of "10 * a + digit_val c"] Cons [of "digit_val c"] by (simp add: algebra_simps)
  qed simp
  from this [of "digits_val s"] show ?thesis by (simp add: digits_val_def digits_val_acc_append)
qed

lemma digits_val_less: "list_all is_digit t \<Longrightarrow> digits_val t < 10 ^ length t"
proof (induction t rule: rev_induct)
  case (snoc c t)
  then have "digit_val c \<le> 9" by (auto simp: is_digit_def digit_val_def Let_def)
  then show ?case using snoc by (simp add: digits_val_append [of t "[c]"]) (simp add: digits_val_def)
qed (simp add: digits_val_def)

lemma whole_part:
  assumes "mk_dec (int (a * 10 ^ k + b)) (- int k) = Dec m e" and "b < 10 ^ k" and "0 < m" and "0 \<le> e"
  shows "mk_dec (int a) 0 = Dec m e \<and> 0 < a"
proof -
  have "int (a * 10 ^ k + b) \<noteq> 0"
  proof
    assume "int (a * 10 ^ k + b) = 0"
    from assms(1) [unfolded this] assms(3) show False by (simp add: mk_dec.simps)
  qed
  from mk_dec_value [OF assms(1) this] obtain n where n: "int (a * 10 ^ k + b) = m * 10 ^ n" "e = int n - int k"
    by auto
  then have nk: "n = k + nat e" using assms(4) by simp
  have "int (a * 10 ^ k + b) = m * 10 ^ nat e * 10 ^ k" unfolding n(1) nk by (simp add: power_add)
  then have "int (a * 10 ^ k + b) div 10 ^ k = m * 10 ^ nat e" by simp
  moreover have "int (a * 10 ^ k + b) div 10 ^ k = int ((a * 10 ^ k + b) div 10 ^ k)" by (simp add: zdiv_int)
  ultimately have "int a = m * 10 ^ nat e" using assms(2) by simp
  moreover have "m mod 10 \<noteq> 0" using mk_dec_wf [of "int (a * 10 ^ k + b)" "- int k"] assms(1,3) by simp
  ultimately show ?thesis using mk_dec_shift [of m "nat e" 0] assms(3,4) by (cases "a = 0") auto
qed

lemma plain_days:
  assumes "ttl_valid t" and "t \<noteq> []" and "is_digit (hd t)" and "CHR ''e'' \<notin> set t" and "CHR ''E'' \<notin> set t"
  shows "\<exists>days > 0. parse_int t = Some days \<and> decimal_literal t = Finite (mk_dec days 0)"
proof -
  let ?ip = "takeWhile is_digit t" and ?r1 = "dropWhile is_digit t"
  obtain c cs where t: "t = c # cs" "is_digit c" using assms(2,3) by (cases t) auto
  have sign: "take_sign t = (False, t)" "t \<noteq> ''Infinity''" "dropWhile js_ws t = t" "?ip \<noteq> []"
    using t digit_not_sign [of c] not_ws_digit [of c] by (auto simp: take_sign_def is_digit_def)
  have ends: "x = 0 \<and> r = []" if "parse_exp r = Some x" "set r \<subseteq> set t" for r x
    using that assms(4,5) by (cases r) (auto simp: parse_exp_def split: if_splits)
  have parse: "parse_int t = Some (int (digits_val ?ip))" using sign by (simp add: parse_int_def Let_def)
  obtain m e where lit: "decimal_literal t = Finite (Dec m e)" and pos: "0 < m" "0 \<le> e"
    using assms(1,2) by (auto simp: ttl_valid_def split: js_number.splits dec.splits)
  have sub: "set ?r1 \<subseteq> set t" by (auto dest: set_dropWhileD)
  have lit': "(case parse_exp (case ?r1 of [] \<Rightarrow> [] | c # cs \<Rightarrow> if c = CHR ''.'' then dropWhile is_digit cs else ?r1) of
      None \<Rightarrow> NaN | Some x \<Rightarrow> Finite (mk_dec
        (int (digits_val (?ip @ (case ?r1 of [] \<Rightarrow> [] | c # cs \<Rightarrow> if c = CHR ''.'' then takeWhile is_digit cs else []))))
        (x - int (length (case ?r1 of [] \<Rightarrow> [] | c # cs \<Rightarrow> if c = CHR ''.'' then takeWhile is_digit cs else [])))))
      = Finite (Dec m e)"
    using lit sign unfolding decimal_literal_def Let_def by (simp cong: option.case_cong)
  obtain fp where fp: "mk_dec (int (digits_val (?ip @ fp))) (- int (length fp)) = Dec m e" "list_all is_digit fp"
  proof (cases ?r1)
    case Nil
    with lit' show ?thesis using that [of "[]"] by (simp del: dropWhile_eq_Nil_conv)
  next
    case (Cons d ds)
    then have "set (dropWhile is_digit ds) \<subseteq> set t" using sub by (auto dest: set_dropWhileD)
    moreover have "list_all is_digit (takeWhile is_digit ds)" by (auto simp: list_all_iff dest: set_takeWhileD)
    ultimately show ?thesis using lit' Cons that [of "takeWhile is_digit ds"] ends [of "dropWhile is_digit ds"] ends [of "d # ds"] sub
      by (cases "d = CHR ''.''") (simp_all split: option.splits)
  qed
  then have "mk_dec (int (digits_val ?ip)) 0 = Dec m e \<and> 0 < digits_val ?ip"
    using pos by (intro whole_part [of _ "length fp" "digits_val fp"]) (simp_all add: digits_val_append digits_val_less)
  then show ?thesis using parse lit by auto
qed

lemma create_body_read:
  "json_parse (json_stringify (create_body name ttl)) = Some (JObj [(''name'', JStr name),
     (''ttl_days'', case ttl of Some days \<Rightarrow> JNum (mk_dec days 0) | None \<Rightarrow> JNull)])"
proof -
  have "\<not> is_index_key ''name''" "\<not> is_index_key ''ttl_days''"
    by (simp_all add: is_index_key_def is_digit_def)
  then have "json_wf (create_body name ttl)" "json_canon (create_body name ttl) = create_body name ttl"
    by (simp_all add: create_body_def own_entries_def mk_dec_wf split: option.splits)
  then show ?thesis by (simp add: parse_stringify create_body_def)
qed

section \<open>Properties\<close>

text \<open>A new token can be read exactly as long as the dialog that created it is up: after any events, the text
  of a token (one with a plaintext) is in the dialog if and only if it is the last one reported, the dialog was
  open when it was, and it has been neither closed nor reopened since.\<close>

theorem token_shown_once:
  "pt_showCreate (fold pt_step es tokens_init) \<and> pt_created (fold pt_step es tokens_init) = Some v \<longleftrightarrow>
     (\<exists>xs name ttl ys. es = xs @ PtCreated name ttl (Inr v) # ys \<and> pt_showCreate (fold pt_step xs tokens_init)
        \<and> list_all (\<lambda>e. token_given e = None \<and> \<not> pt_opens e \<and> \<not> pt_closes e) ys)"
proof -
  have "pt_showCreate s \<and> pt_created s = Some v \<longleftrightarrow> new_token.shown s = Some v" for s
    by (simp add: new_token.shown_def)
  moreover have "token_given e = Some v \<longleftrightarrow> (\<exists>name ttl. e = PtCreated name ttl (Inr v))" for e
    by (cases e rule: token_given.cases) auto
  moreover have "new_token.quiet = (\<lambda>e. token_given e = None \<and> \<not> pt_opens e \<and> \<not> pt_closes e)"
    by (simp add: fun_eq_iff new_token.quiet_def)
  ultimately show ?thesis
    using new_token.shown_iff [of es v] by (simp add: new_token.final_def) blast
qed

text \<open>C31: One creation at a time, with what the form says: in every reachable state in which the form can be
  submitted no creation is in flight; submitting it adds one creation, and until its reply the form cannot be
  submitted again. The request has the name, \<open>Untitled\<close> if it is empty, and no number of days if that field is
  empty; if it has a number without an exponent that starts with a digit (as \<open>30\<close>, \<open>007\<close> or \<open>5.0\<close>), the request
  has that number, which is whole and positive. (Other notations are misread: \<open>ttl_exponent_cut\<close>.) The proxy reads
  the name and the number back from the text of the body.\<close>

theorem token_request:
  assumes "reachable (pt_enabled fm) pt_step tokens_init s" and "pt_enabled fm s (PtAct (Click BtnCreate) c)"
  shows "\<exists>name ttl. filter is_create (pt_pending s) = []
    \<and> pt_pending (pt_step (PtAct (Click BtnCreate) c) s) = pt_pending s @ [PqCreate name ttl]
    \<and> \<not> pt_enabled fm (pt_step (PtAct (Click BtnCreate) c) s) (PtAct (Click BtnCreate) d)
    \<and> name = (if pt_tokenName s = [] then ''Untitled'' else pt_tokenName s)
    \<and> (pt_ttlDays s = [] \<longrightarrow> ttl = None)
    \<and> (pt_ttlDays s \<noteq> [] \<and> is_digit (hd (pt_ttlDays s)) \<and> CHR ''e'' \<notin> set (pt_ttlDays s) \<and> CHR ''E'' \<notin> set (pt_ttlDays s) \<longrightarrow>
         (\<exists>days > 0. ttl = Some days \<and> decimal_literal (pt_ttlDays s) = Finite (mk_dec days 0)))
    \<and> json_parse (json_stringify (create_body name ttl)) = Some (JObj [(''name'', JStr name),
         (''ttl_days'', case ttl of Some days \<Rightarrow> JNum (mk_dec days 0) | None \<Rightarrow> JNull)])"
proof -
  have "\<not> pt_busy s" using assms(2) by (simp add: pt_enabled_def create_offered)
  then have "filter is_create (pt_pending s) = []" by (rule tokens.idle [OF assms(1)])
  moreover have "ttl_valid (pt_ttlDays s)" using assms(2) by (simp add: pt_enabled_def)
  moreover have "\<not> pt_enabled fm (pt_step (PtAct (Click BtnCreate) c) s) (PtAct (Click BtnCreate) d)"
    by (simp add: pt_enabled_def create_offered pt_step_def handleCreate_def pt_send_def)
  ultimately show ?thesis using plain_days [of "pt_ttlDays s"] create_body_read
    by (auto simp: pt_step_def handleCreate_def pt_send_def ttl_of_def str_or_def)
qed

definition token_demo :: "pt_event list" where
  "token_demo = [PtAct (Click BtnNew) False, PtAct (Edit FTtl ''30'') False]"

lemma token_demo_state:
  "run (pt_enabled plain_formats) pt_step tokens_init token_demo = Some (tokens_init\<lparr>pt_showCreate := True, pt_ttlDays := ''30''\<rparr>)"
  by (simp add: token_demo_def pt_enabled_def tokens_view_def create_dialog_def pt_step_def open_create_def tokens_init_def plaintext_of_def)

theorem token_request_witness:
  "pt_pending (pt_step (PtAct (Click BtnCreate) False) (the (run (pt_enabled plain_formats) pt_step tokens_init token_demo)))
     = [PqList, PqCreate ''Untitled'' (Some 30)]"
proof -
  let ?s = "the (run (pt_enabled plain_formats) pt_step tokens_init token_demo)"
  have s: "?s = tokens_init\<lparr>pt_showCreate := True, pt_ttlDays := ''30''\<rparr>" by (simp add: token_demo_state)
  have thirty: "ttl_valid ''30''" "is_digit CHR ''3''" "decimal_literal ''30'' = Finite (Dec 3 1)" by code_simp+
  then have "pt_enabled plain_formats ?s (PtAct (Click BtnCreate) False)"
    unfolding s by (simp add: pt_enabled_def create_offered tokens_init_def plaintext_of_def)
  moreover have "reachable (pt_enabled plain_formats) pt_step tokens_init ?s"
    by (rule run_reachable) (simp add: token_demo_state)
  moreover have "parse_int ''30'' = Some 30" by code_simp
  ultimately show ?thesis
    using token_request [of plain_formats ?s False] thirty unfolding s
    by (auto simp: tokens_init_def pt_step_def handleCreate_def pt_send_def ttl_of_def)
qed

text \<open>A number of days that \<open>parseInt\<close> does not read to its end, in notations that the browser accepts: with
  \<open>1e2\<close> the form can be submitted, means 100 days and asks for a token that expires after one; \<open>.5e1\<close> means five
  days and asks for a token that never expires.\<close>

theorem ttl_exponent_cut:
  assumes "pt_showCreate s \<and> plaintext_of (pt_created s) = [] \<and> \<not> pt_busy s" and "pt_tokenName s = ''ci''"
    and "(pt_ttlDays s, meant, got) \<in> {(''1e2'', Dec 1 2, Some 1), (''.5e1'', Dec 5 0, None)}"
  shows "pt_enabled fm s (PtAct (Click BtnCreate) c) \<and> decimal_literal (pt_ttlDays s) = Finite meant
     \<and> pt_pending (pt_step (PtAct (Click BtnCreate) c) s) = pt_pending s @ [PqCreate ''ci'' got]"
proof -
  have "parse_int ''1e2'' = Some 1" "decimal_literal ''1e2'' = Finite (Dec 1 2)" "ttl_valid ''1e2''" by code_simp+
  moreover have "parse_int ''.5e1'' = None" "decimal_literal ''.5e1'' = Finite (Dec 5 0)" "ttl_valid ''.5e1''" by code_simp+
  ultimately show ?thesis using assms
    by (auto simp: pt_enabled_def create_offered pt_step_def handleCreate_def pt_send_def ttl_of_def str_or_def)
qed

end
