(* ===== verification/TokenMappingsPage.thy ===== *)
theory TokenMappingsPage
  imports ApiClient View Numbers
begin

text \<open>
  \<open>frontend/src/pages/TokenMappings.tsx\<close>: which token a user's requests carry to an upstream server. The two
  lists are loaded together (\<open>Promise.all\<close>: both or the first error). The form is submitted only with
  its three required fields filled in.
\<close>

section \<open>State\<close>

record mapping_body =
  mb_upstream :: string
  mb_user_id :: "int option"
  mb_upstream_token :: string
  mb_description :: string

datatype tm_req = TqLoad | TqCreate mapping_body | TqDelete int

record mappings_page =
  mp_mappings :: "token_mapping_row list"
  mp_users :: "user_row list"
  mp_error :: "string option"
  mp_showCreate :: bool
  mp_upstream :: string
  mp_userId :: string
  mp_upstreamToken :: string
  mp_description :: string
  mp_busy :: bool
  mp_pending :: "tm_req list"

definition mp_send :: "tm_req \<Rightarrow> mappings_page \<Rightarrow> mappings_page" where
  "mp_send q s = s\<lparr>mp_pending := mp_pending s @ [q]\<rparr>"

definition mappings_init :: mappings_page where
  "mappings_init = \<lparr>mp_mappings = [], mp_users = [], mp_error = None, mp_showCreate = False, mp_upstream = [],
     mp_userId = [], mp_upstreamToken = [], mp_description = [], mp_busy = False, mp_pending = [TqLoad]\<rparr>"

section \<open>Handlers\<close>

definition mappings_loaded :: "js_error + (token_mapping_row list \<times> user_row list) \<Rightarrow> mappings_page \<Rightarrow> mappings_page" where
  "mappings_loaded r s = (case r of
      Inr mu \<Rightarrow> s\<lparr>mp_mappings := fst mu, mp_users := snd mu\<rparr>
    | Inl e \<Rightarrow> s\<lparr>mp_error := Some (error_message_or ''Failed to load'' e)\<rparr>)"

definition mapping_of_form :: "mappings_page \<Rightarrow> mapping_body" where
  "mapping_of_form s = \<lparr>mb_upstream = mp_upstream s, mb_user_id = parse_int (mp_userId s),
     mb_upstream_token = mp_upstreamToken s, mb_description = mp_description s\<rparr>"

definition create_mapping :: "mappings_page \<Rightarrow> mappings_page" where
  "create_mapping s = mp_send (TqCreate (mapping_of_form s)) (s\<lparr>mp_busy := True, mp_error := None\<rparr>)"

definition create_mapping_reply :: "js_error + token_mapping_row \<Rightarrow> mappings_page \<Rightarrow> mappings_page" where
  "create_mapping_reply r s = (case r of
      Inr v \<Rightarrow> mp_send TqLoad (s\<lparr>mp_showCreate := False, mp_upstream := [], mp_userId := [], mp_upstreamToken := [],
        mp_description := []\<rparr>)
    | Inl e \<Rightarrow> s\<lparr>mp_error := Some (api_message_or ''Create failed'' e)\<rparr>)\<lparr>mp_busy := False\<rparr>"

definition delete_mapping :: "int \<Rightarrow> mappings_page \<Rightarrow> mappings_page" where
  "delete_mapping i s = mp_send (TqDelete i) s"

definition delete_mapping_reply :: "js_error + json \<Rightarrow> mappings_page \<Rightarrow> mappings_page" where
  "delete_mapping_reply r s = (case r of
      Inr v \<Rightarrow> mp_send TqLoad s
    | Inl e \<Rightarrow> s\<lparr>mp_error := Some (api_message_or ''Delete failed'' e)\<rparr>)"

definition userEmail :: "user_row list \<Rightarrow> int \<Rightarrow> string" where
  "userEmail us uid = (case find (\<lambda>u. ur_id u = uid) us of
      Some u \<Rightarrow> str_or (ur_email u) (''user#'' @ show_int uid)
    | None \<Rightarrow> ''user#'' @ show_int uid)"

section \<open>What is shown\<close>

datatype mp_btn = BtnAdd | BtnSave | BtnCancel | BtnDelete int
datatype mp_field = FUpstream | FUser | FToken | FDescription

type_synonym mp_view = "(mp_btn, mp_field) view"

definition mapping_form :: "mappings_page \<Rightarrow> mp_view" where
  "mapping_form s = Box [
     Txt ''Upstream name'', Input FUpstream False (mp_upstream s),
     Txt ''User'', Choice FUser False (mp_userId s) ([] # map (\<lambda>u. show_int (ur_id u)) (mp_users s)),
     Txt ''Upstream token'', Input FToken False (mp_upstreamToken s), Txt ''Stored encrypted at rest. Not retrievable after saving.'',
     Txt ''Description'', Input FDescription False (mp_description s),
     Button BtnSave (mp_busy s) [Txt (if mp_busy s then ''Saving...'' else ''Save mapping'')],
     Button BtnCancel False [Txt ''Cancel'']]"

definition mapping_tr :: "formats \<Rightarrow> mappings_page \<Rightarrow> token_mapping_row \<Rightarrow> mp_view" where
  "mapping_tr fm s m = Box [Txt (tm_upstream m), Txt (userEmail (mp_users s) (tm_user_id m)), Txt (tm_token_preview m),
     Txt (str_or (tm_description m) ''-''), Txt (fm_date fm (tm_updated_at m * 1000)), Button (BtnDelete (tm_id m)) False []]"

definition mappings_view :: "formats \<Rightarrow> mappings_page \<Rightarrow> mp_view" where
  "mappings_view fm s = Box [
     Txt ''Token Mappings'',
     Txt ''Map MCPxy user identities to upstream MCP server tokens. Used when an upstream's token_transform strategy is set to map.'',
     Button BtnAdd False [Txt ''Add mapping''], error_box (mp_error s),
     cond (mp_showCreate s) (mapping_form s),
     Box (map Txt [''Upstream'', ''User'', ''Token'', ''Description'', ''Updated'']),
     Box (map (mapping_tr fm s) (mp_mappings s)),
     cond (mp_mappings s = []) (Txt ''No token mappings configured'')]"

section \<open>The machine\<close>

datatype mp_event =
    MpAct "(mp_btn, mp_field) action" bool
  | MpLoaded "js_error + (token_mapping_row list \<times> user_row list)"
  | MpCreated mapping_body "js_error + token_mapping_row"
  | MpDeleted int "js_error + json"

fun mp_req_of :: "mp_event \<Rightarrow> tm_req option" where
  "mp_req_of (MpLoaded r) = Some TqLoad"
| "mp_req_of (MpCreated b r) = Some (TqCreate b)"
| "mp_req_of (MpDeleted i r) = Some (TqDelete i)"
| "mp_req_of (MpAct a c) = None"

fun mp_handle :: "mp_event \<Rightarrow> mappings_page \<Rightarrow> mappings_page" where
  "mp_handle (MpAct (Click BtnAdd) c) s = s\<lparr>mp_showCreate := True\<rparr>"
| "mp_handle (MpAct (Click BtnSave) c) s = create_mapping s"
| "mp_handle (MpAct (Click BtnCancel) c) s = s\<lparr>mp_showCreate := False\<rparr>"
| "mp_handle (MpAct (Click (BtnDelete i)) c) s = (if c then delete_mapping i s else s)"
| "mp_handle (MpAct (Edit FUpstream v) c) s = s\<lparr>mp_upstream := v\<rparr>"
| "mp_handle (MpAct (Edit FUser v) c) s = s\<lparr>mp_userId := v\<rparr>"
| "mp_handle (MpAct (Edit FToken v) c) s = s\<lparr>mp_upstreamToken := v\<rparr>"
| "mp_handle (MpAct (Edit FDescription v) c) s = s\<lparr>mp_description := v\<rparr>"
| "mp_handle (MpAct (Toggle f) c) s = s"
| "mp_handle (MpLoaded r) s = mappings_loaded r s"
| "mp_handle (MpCreated b r) s = create_mapping_reply r s"
| "mp_handle (MpDeleted i r) s = delete_mapping_reply r s"

definition mp_step :: "mp_event \<Rightarrow> mappings_page \<Rightarrow> mappings_page" where
  "mp_step ev s = mp_handle ev (case mp_req_of ev of
      Some q \<Rightarrow> s\<lparr>mp_pending := remove1 q (mp_pending s)\<rparr> | None \<Rightarrow> s)"

definition form_complete :: "mappings_page \<Rightarrow> bool" where
  "form_complete s \<longleftrightarrow> mp_upstream s \<noteq> [] \<and> mp_userId s \<noteq> [] \<and> mp_upstreamToken s \<noteq> []"

definition mp_enabled :: "formats \<Rightarrow> mappings_page \<Rightarrow> mp_event \<Rightarrow> bool" where
  "mp_enabled fm s ev = (case ev of
      MpAct a c \<Rightarrow> offers (mappings_view fm s) a \<and> (a = Click BtnSave \<longrightarrow> form_complete s)
    | _ \<Rightarrow> (case mp_req_of ev of Some q \<Rightarrow> q \<in> set (mp_pending s) | None \<Rightarrow> False))"

text \<open>The check of the request in \<open>server.py\<close>.\<close>

definition mapping_accepted :: "mapping_body \<Rightarrow> bool" where
  "mapping_accepted b \<longleftrightarrow> mb_upstream b \<noteq> [] \<and> mb_user_id b \<noteq> None \<and> mb_upstream_token b \<noteq> []"

section \<open>Lemmas\<close>

lemma mappings_offers:
  "offers (mappings_view fm s) (Click BtnSave) \<longleftrightarrow> mp_showCreate s \<and> \<not> mp_busy s"
  "offers (mappings_view fm s) (Edit FUser v) \<longleftrightarrow> mp_showCreate s \<and> v \<in> insert [] ((\<lambda>u. show_int (ur_id u)) ` set (mp_users s))"
  by (auto simp: mappings_view_def mapping_form_def mapping_tr_def list_ex_iff)

fun is_mapping :: "tm_req \<Rightarrow> bool" where
  "is_mapping (TqCreate b) = True"
| "is_mapping _ = False"

definition mappings_inv :: "mappings_page \<Rightarrow> bool" where
  "mappings_inv s \<longleftrightarrow> length (filter is_mapping (mp_pending s)) = (if mp_busy s then 1 else 0)
     \<and> mp_userId s \<in> insert [] (range show_int)"

lemmas mappings_defs = mp_step_def create_mapping_def create_mapping_reply_def delete_mapping_def delete_mapping_reply_def
  mappings_loaded_def mp_send_def

lemma mappings_inv_step:
  assumes "mappings_inv s" and "mp_enabled fm s ev" shows "mappings_inv (mp_step ev s)"
proof (cases "(ev, s)" rule: mp_handle.cases)
  case (2 c t)
  then show ?thesis using assms by (auto simp: mappings_inv_def mappings_defs mp_enabled_def mappings_offers)
next
  case (6 v c t)
  then have "v \<in> insert [] (range show_int)" using assms(2) by (auto simp: mp_enabled_def mappings_offers)
  then show ?thesis using 6 assms(1) by (auto simp: mappings_inv_def mappings_defs)
next
  case (11 b r t)
  then have "mp_busy s \<and> filter is_mapping (remove1 (TqCreate b) (mp_pending s)) = []"
    using assms by (intro filter_settle) (auto simp: mappings_inv_def mp_enabled_def)
  then show ?thesis using 11 assms(1) by (auto simp: mappings_inv_def mappings_defs split: sum.splits)
qed (use assms(1) in \<open>auto simp: mappings_inv_def mappings_defs filter_remove1 remove1_idem split: sum.splits option.splits\<close>)

interpretation mappings: single_flight "mp_enabled fm" mp_step mappings_init mappings_inv is_mapping mp_pending mp_busy
  by unfold_locales (auto simp: mappings_inv_step, simp_all add: mappings_inv_def mappings_init_def)

text \<open>Cancelling keeps the form, the token included: it is there when the form is opened again.\<close>

lemma cancel_keeps_token:
  "mp_upstreamToken (mp_step (MpAct (Click BtnAdd) c) (mp_step (MpAct (Click BtnCancel) c) s)) = mp_upstreamToken s"
  by (simp add: mp_step_def)

section \<open>Properties\<close>

text \<open>C32: The mapping that is posted is the one of the form: in every reachable state in which the form can be
  submitted, no creation is in flight, and submitting it posts the identifier whose text is selected, with the
  fields as they are; the server's check of the request accepts it. After a successful reply the secret is gone
  from the form.\<close>

theorem mapping_posted:
  assumes "reachable (mp_enabled fm) mp_step mappings_init s" and "mp_enabled fm s (MpAct (Click BtnSave) c)"
  shows "\<exists>b uid. mp_pending (mp_step (MpAct (Click BtnSave) c) s) = mp_pending s @ [TqCreate b]
    \<and> filter is_mapping (mp_pending s) = [] \<and> mb_user_id b = Some uid \<and> mp_userId s = show_int uid
    \<and> mb_upstream b = mp_upstream s \<and> mb_upstream_token b = mp_upstreamToken s \<and> mb_description b = mp_description s
    \<and> mapping_accepted b
    \<and> mp_upstreamToken (mp_step (MpCreated b (Inr v)) (mp_step (MpAct (Click BtnSave) c) s)) = []"
proof -
  have inv: "mappings_inv s" by (rule mappings.reachable_inv [OF assms(1)])
  have en: "\<not> mp_busy s" "form_complete s" using assms(2) by (auto simp: mp_enabled_def mappings_offers)
  obtain uid where uid: "mp_userId s = show_int uid"
    using inv en(2) by (auto simp: mappings_inv_def form_complete_def)
  show ?thesis using inv en uid
    by (intro exI [of _ "mapping_of_form s"] exI [of _ uid])
      (auto simp: mappings_defs mapping_of_form_def mappings_inv_def mapping_accepted_def form_complete_def)
qed

definition demo_user :: user_row where
  "demo_user = \<lparr>ur_id = 7, ur_email = ''a@b.c'', ur_username = None, ur_name = None, ur_provider = ''local'', ur_role = ''member'',
     ur_created_at = 0, ur_invited_by = None, ur_activated_at = None, ur_disabled_at = None\<rparr>"

definition demo_mapping :: token_mapping_row where
  "demo_mapping = \<lparr>tm_id = 1, tm_upstream = ''gh'', tm_user_id = 7, tm_description = [], tm_created_at = 0,
     tm_updated_at = 0, tm_token_preview = ''t...k''\<rparr>"

definition mapping_demo :: "mp_event list" where
  "mapping_demo = [MpLoaded (Inr ([], [demo_user])), MpAct (Click BtnAdd) False, MpAct (Edit FUpstream ''gh'') False,
     MpAct (Edit FUser (show_int 7)) False, MpAct (Edit FToken ''tk'') False]"

theorem mapping_posted_witness:
  "\<exists>s b. run (mp_enabled plain_formats) mp_step mappings_init mapping_demo = Some s
     \<and> mp_pending (mp_step (MpAct (Click BtnSave) False) s) = [TqCreate b] \<and> mb_user_id b = Some 7"
proof -
  let ?r = "run (mp_enabled plain_formats) mp_step mappings_init mapping_demo"
  have run: "?r \<noteq> None \<and> mp_pending (the ?r) = [] \<and> mp_userId (the ?r) = show_int 7
      \<and> mp_enabled plain_formats (the ?r) (MpAct (Click BtnSave) False)"
    by (simp add: mapping_demo_def mp_enabled_def mappings_view_def mapping_form_def mapping_tr_def mappings_defs mappings_init_def
      demo_user_def form_complete_def)
  then have "reachable (mp_enabled plain_formats) mp_step mappings_init (the ?r)" by (intro run_reachable) simp
  from mapping_posted [OF this, of False demo_mapping] run obtain b uid where
    "mp_pending (mp_step (MpAct (Click BtnSave) False) (the ?r)) = [TqCreate b]" "mb_user_id b = Some uid" "show_int 7 = show_int uid"
    by auto
  moreover have "uid = 7" using calculation(3) by (metis parse_int_show_int option.inject)
  ultimately show ?thesis using run by (intro exI [of _ "the ?r"] exI [of _ b]) simp
qed

end
