(* ===== verification/Spec2Isabelle.thy ===== *)
theory Spec2Isabelle
  imports AppShell BrowsePage Onboarding PoliciesPage GraphPage OverviewPage ConfigPage ConnectPage ImportPage
    UsersPage TokensPage TokenMappingsPage
begin

text \<open>
  A model of the MCPxy admin console, the TypeScript application under \<open>frontend/src\<close>, with the
  parts of the Python proxy that it relies on.

  \<^bold>\<open>The program.\<close> The console is a single-page React application. \<open>App.tsx\<close> decides between the
  onboarding wizard, the login form and the dashboard; the dashboard is a sidebar and one page at a
  time. All pages talk to the proxy through the three authenticated calls of \<open>api/client.ts\<close> and,
  for live traffic, through the event stream of \<open>api/sse.ts\<close>. The bearer token in the browser's
  local storage is the one piece of state they share.

  \<^bold>\<open>How a component is modelled.\<close> A component is a record with its \<open>useState\<close> variables and the
  requests that have not settled. Its view is data (theory \<open>View\<close>): texts, buttons and controls with
  the conditions under which the code renders and disables them. \<open>offers\<close> computes what a user can do.
  A handler that awaits is cut at the \<open>await\<close>: the first half adds a request to the pending ones, the
  second half is the event of its reply, which may arrive in any order relative to the other events. So
  a component is a machine (\<open>run\<close>, \<open>reachable\<close> and the locale \<open>machine\<close> of \<open>JsBase\<close>) whose events are
  the actions its view offers and the replies to its pending requests, and a property of every
  reachable state is a property of every interleaving. Each component's invariant is an interpretation
  of \<open>machine\<close>.

  \<^bold>\<open>The theories.\<close>
  \<^item> \<open>JsBase\<close>, \<open>Decimal\<close>, \<open>Json\<close>: the part of JavaScript the console uses (strings, \<open>parseInt\<close>,
    \<open>parseFloat\<close>, \<open>Number\<close>, plain objects with their enumeration order, errors, JSON). JSON text is read by
    a scanner and a stack automaton; the locale \<open>json_writer\<close> states when a writer's output is read
    back, with \<open>JSON.stringify\<close> (compact and indented) and Python's \<open>json.dumps\<close> as interpretations.
  \<^item> \<open>ApiTypes\<close>: \<open>api/types.ts\<close>, one record or datatype per interface.
  \<^item> \<open>ApiClient\<close>: \<open>api/client.ts\<close>. The locale \<open>api_call\<close> is the contract of an authenticated call,
    interpreted on \<open>apiGet\<close>, \<open>apiPost\<close> and \<open>apiDelete\<close>.
  \<^item> \<open>Sse\<close>: \<open>api/sse.ts\<close> and the frames of \<open>event_source\<close> in \<open>server.py\<close>.
  \<^item> \<open>View\<close>: \<open>components/Card.tsx\<close>, \<open>components/Badge.tsx\<close> and the type of views.
  \<^item> \<open>LoginGate\<close>, \<open>AppShell\<close>: \<open>components/LoginGate.tsx\<close>, \<open>App.tsx\<close> and \<open>components/Sidebar.tsx\<close>. The
    shell contains the login form's machine, mounted and unmounted with its screen.
  \<^item> \<open>ManualUpstream\<close>, \<open>BrowsePage\<close>: \<open>components/AddManuallyDialog.tsx\<close> inside \<open>pages/Browse.tsx\<close>, with
    the checks of \<open>discovery/registration.py\<close> and \<open>config.py\<close> that a registration must pass.
  \<^item> \<open>OnboardingStorage\<close>, \<open>OnboardingAuth\<close>, \<open>Onboarding\<close>: \<open>pages/Onboarding.tsx\<close>, its two step forms as
    machines of their own and the wizard that composes them, with the variable resolution of
    \<open>discovery/catalog.py\<close>.
  \<^item> \<open>PolicyEngine\<close>, \<open>PoliciesPage\<close>: \<open>pages/Policies.tsx\<close>, with the resolution and the method ACL of
    \<open>policy/engine.py\<close> and the validation of \<open>config.py\<close>.
  \<^item> \<open>Url\<close>: \<open>URLSearchParams\<close> and \<open>encodeURIComponent\<close> on UTF-8, with the decoders of the server's side and
    their round trips. \<open>Numbers\<close>: \<open>toFixed\<close> and \<open>Math.round\<close>, and what depends on the locale as parameters.
  \<^item> \<open>TrafficPage\<close>: \<open>pages/Traffic.tsx\<close> with the recorder of \<open>observability/traffic.py\<close> and the order of
    subscription and snapshot in \<open>server.py\<close>, proved to be a refinement of "newest records first".
    \<open>LogsPage\<close>: \<open>pages/Logs.tsx\<close>.
  \<^item> \<open>OverviewPage\<close>: \<open>pages/Overview.tsx\<close>; the chart's buckets refine an unbounded history.
  \<^item> \<open>RoutesPage\<close>: \<open>pages/Routes.tsx\<close>, whose busy slot is backed by a request in flight.
  \<^item> \<open>GraphLayout\<close>, \<open>GraphPage\<close>: \<open>pages/Graph.tsx\<close> and \<open>components/TrafficGraph.tsx\<close>: the layout on the ring
    and the drawn scene, and the frame-wise flush of the stream, the pulses and the decay of the counters.
  \<^item> \<open>ConfigPage\<close>, \<open>ConnectPage\<close>, \<open>ImportPage\<close>: the pages of the same names. \<open>tracks\<close> states when the connect
    page follows its inputs.
  \<^item> \<open>Dialogs\<close>: the locale \<open>secret_dialog\<close>, the contract of a dialog that shows a secret once, interpreted by
    \<open>UsersPage\<close> (\<open>pages/Users.tsx\<close>) and \<open>TokensPage\<close> (\<open>pages/Tokens.tsx\<close>). \<open>TokenMappingsPage\<close>:
    \<open>pages/TokenMappings.tsx\<close>.
  \<^item> This theory: what concerns several pages, the parameters they put into request lines.

  \<^bold>\<open>Bounds.\<close> All recursions are structural or have a measure; no fuel is used. The bounds of the code (500 rows,
  2000 recorded and 256 queued records, 30 buckets of two seconds) are definitions of their theories.

  \<^bold>\<open>What is idealised.\<close> Characters are code units below 256, so typographic characters in labels are
  written with their ASCII counterparts. Numbers that the code parses and sends are exact decimals
  (\<open>dec\<close>), other numbers are exact integers or reals; IEEE rounding is not modelled, and the layout of the
  graph, which uses sine and cosine, is not executable for that reason. Dates, times and grouped numbers are
  texts of the parameter \<open>formats\<close>. The browser's validation of a form is modelled where a proof needs it
  (required fields, the number of days of a token). Styling, icons and placeholders are left out of the views. Properties inherited from \<open>Object.prototype\<close> are not modelled.

  \<^bold>\<open>Not modelled.\<close> \<open>main.tsx\<close> and the build configuration have no logic; \<open>src/mcpxy_proxy/web/dist\<close> is the
  build's output. The proxy itself (Python) is modelled only where the console relies on it.
\<close>

section \<open>Across the pages\<close>

text \<open>C23: What the console writes into a query string arrives: the filters of the log page, the server name of
  a card's log panel, and the URL and token variable of the connect page are read back from it exactly, with
  empty optional ones absent. This holds for every content the model's strings can have (code points below
  256): separators, percent and plus signs, and characters that take two bytes in UTF-8.\<close>

theorem query_parameters_arrive:
  "server_filter (logs_path (level, upstream)) ''level'' = (if level = [] then None else Some level)
   \<and> server_filter (logs_path (level, upstream)) ''upstream'' = (if upstream = [] then None else Some upstream)
   \<and> server_filter (up_logs_path name) ''upstream'' = Some name
   \<and> list_all (\<lambda>c. server_filter (snippet_path (cl_id c, url, env)) ''url'' = Some url
        \<and> server_filter (snippet_path (cl_id c, url, env)) ''token_env'' = (if env = [] then None else Some env)) CLIENTS"
proof -
  have up: "form_decode ''upstream'' = ''upstream''" by code_simp
  have "up_logs_path name = ''/admin/api/logs?'' @ ''upstream'' @ CHR ''='' # encodeURIComponent name"
    by (simp add: up_logs_path_def)
  moreover have "decode_query (''upstream'' @ CHR ''='' # encodeURIComponent name) = [(''upstream'', name)]"
    using component_query [of "''upstream''" name] by (simp add: up alnum_def)
  ultimately have "server_filter (up_logs_path name) ''upstream'' = Some name"
    by (simp add: server_filter_def)
  then show ?thesis
    using server_filter_logs [of level upstream]
    by (simp add: CLIENTS_def server_filter_def snippet_path_def query_round_trip)
qed

text \<open>The routes page and the graph agree on which servers are healthy.\<close>

lemma health_agrees: "isHealthy (Some info) = healthOk info"
  by (simp add: isHealthy_def healthOk_def health_get_def)

end
